(* ===== verification/Go_OS.thy ===== *)
theory Go_OS
  imports Fleet_Prelude
begin

text \<open>
  The part of Go's package \<open>os\<close> that the agent calls, over an explicit file store.

  A program step is a function from the world to an outcome and the next world. The world holds
  the store (a map from paths below the root to nodes), a counter of the system calls made so
  far, and the environment: the fate of the \<open>n\<close>-th call, which is chosen by the hardware and the
  kernel and is never fixed by the model. A fate may be success, an error return, the death of
  the process before or in the middle of a call, or a write that reports success and lands other
  bytes. Theorems quantify over all environments, so they speak about every place where the
  process can die and every call that can fail.

  A call is durable when it returns (the store outlives the process); losing completed but
  unsynchronised writes is outside this model. File operations address regular files: the
  program never opens a path whose last component is a symbolic link, and such an open answers
  an error here. Directories are never removed by the program, and removing one answers an error.
\<close>

type_synonym path = "string list"

datatype node = File string | Dir | Link string

datatype go_error =
    NotExist
  | Exist
  | IsDir
  | IOError
  | ChecksumMismatch string string
  | ErrConflict
  | Message string
  | Wrapped string "go_error option"

datatype syscall =
    SysMkdirAll path | SysLstat path | SysStat path | SysReadlink path | SysReadFile path
  | SysWriteFile path | SysOpen path | SysCreate path | SysCopy path path | SysRemove path
  | SysSymlink path | SysRename path path | SysOpenAppend path | SysAppend path | SysHttp string

datatype fault = Ok | Err | ErrAfter nat | Loss | LossAfter nat | Rot string

record world =
  files :: "path \<rightharpoonup> node"
  tick :: nat
  fate_of :: "nat \<Rightarrow> syscall \<Rightarrow> fault"

datatype 'a outcome = Done 'a | Died | Panicked

type_synonym 'a prog = "world \<Rightarrow> 'a outcome \<times> world"

subsection \<open>Sequencing\<close>

definition retp :: "'a \<Rightarrow> 'a prog" where
  "retp a w = (Done a, w)"

definition panicp :: "'a prog" where
  "panicp w = (Panicked, w)"

definition bindp :: "'a prog \<Rightarrow> ('a \<Rightarrow> 'b prog) \<Rightarrow> 'b prog" where
  "bindp m f w = (case m w of (Done a, w') \<Rightarrow> f a w' | (Died, w') \<Rightarrow> (Died, w') | (Panicked, w') \<Rightarrow> (Panicked, w'))"

text \<open>\<open>if err != nil { return err }\<close> after a call:\<close>

definition bindE :: "(go_error + 'a) prog \<Rightarrow> ('a \<Rightarrow> (go_error + 'b) prog) \<Rightarrow> (go_error + 'b) prog" where
  "bindE m f = bindp m (\<lambda>r. case r of Inl e \<Rightarrow> retp (Inl e) | Inr a \<Rightarrow> f a)"

subsection \<open>System calls\<close>

definition advance :: "world \<Rightarrow> world" where
  "advance w = w\<lparr>tick := Suc (tick w)\<rparr>"

definition fate :: "syscall \<Rightarrow> world \<Rightarrow> fault" where
  "fate c w = fate_of w (tick w) c"

definition set_node :: "path \<Rightarrow> node option \<Rightarrow> world \<Rightarrow> world" where
  "set_node p n w = w\<lparr>files := (files w)(p := n)\<rparr>"

text \<open>A call with no intermediate states: it takes effect, fails, or the process is gone.\<close>

definition atomic_call :: "syscall \<Rightarrow> (world \<Rightarrow> (go_error + 'a) \<times> world) \<Rightarrow> (go_error + 'a) prog" where
  "atomic_call c act w =
     (case fate c w of
        Err \<Rightarrow> (Done (Inl IOError), advance w)
      | ErrAfter _ \<Rightarrow> (Done (Inl IOError), advance w)
      | Loss \<Rightarrow> (Died, advance w)
      | LossAfter _ \<Rightarrow> (Died, advance w)
      | _ \<Rightarrow> (case act (advance w) of (r, w') \<Rightarrow> (Done r, w')))"

text \<open>A call that writes \<open>data\<close> to the regular file \<open>p\<close>; it can stop after any number of bytes.\<close>

definition write_call :: "syscall \<Rightarrow> path \<Rightarrow> string \<Rightarrow> (go_error + unit) prog" where
  "write_call c p data w =
     (case fate c w of
        Ok \<Rightarrow> (Done (Inr ()), set_node p (Some (File data)) (advance w))
      | Rot data' \<Rightarrow> (Done (Inr ()), set_node p (Some (File data')) (advance w))
      | Err \<Rightarrow> (Done (Inl IOError), advance w)
      | ErrAfter k \<Rightarrow> (Done (Inl IOError), set_node p (Some (File (take k data))) (advance w))
      | Loss \<Rightarrow> (Died, advance w)
      | LossAfter k \<Rightarrow> (Died, set_node p (Some (File (take k data))) (advance w)))"

definition parent_ok :: "path \<Rightarrow> world \<Rightarrow> bool" where
  "parent_ok p w \<longleftrightarrow> p \<noteq> [] \<and> files w (butlast p) = Some Dir"

fun is_file :: "node option \<Rightarrow> bool" where
  "is_file (Some (File _)) = True"
| "is_file _ = False"

definition os_Readlink :: "path \<Rightarrow> (go_error + string) prog" where
  "os_Readlink p = atomic_call (SysReadlink p)
     (\<lambda>w. (case files w p of Some (Link t) \<Rightarrow> Inr t | None \<Rightarrow> Inl NotExist | _ \<Rightarrow> Inl IOError, w))"

definition os_Lstat :: "path \<Rightarrow> (go_error + node) prog" where
  "os_Lstat p = atomic_call (SysLstat p)
     (\<lambda>w. (case files w p of Some n \<Rightarrow> Inr n | None \<Rightarrow> Inl NotExist, w))"

text \<open>\<open>os.Stat\<close>; the result is the size of a regular file.\<close>

definition os_Stat :: "path \<Rightarrow> (go_error + nat) prog" where
  "os_Stat p = atomic_call (SysStat p)
     (\<lambda>w. (case files w p of Some (File c) \<Rightarrow> Inr (length c) | Some Dir \<Rightarrow> Inr 0
           | Some (Link _) \<Rightarrow> Inl IOError | None \<Rightarrow> Inl NotExist, w))"

definition os_ReadFile :: "path \<Rightarrow> (go_error + string) prog" where
  "os_ReadFile p = atomic_call (SysReadFile p)
     (\<lambda>w. (case files w p of Some (File c) \<Rightarrow> Inr c | None \<Rightarrow> Inl NotExist | _ \<Rightarrow> Inl IOError, w))"

definition os_Open :: "path \<Rightarrow> (go_error + unit) prog" where
  "os_Open p = atomic_call (SysOpen p)
     (\<lambda>w. (case files w p of Some (File c) \<Rightarrow> Inr () | None \<Rightarrow> Inl NotExist | _ \<Rightarrow> Inl IOError, w))"

definition os_Create :: "path \<Rightarrow> (go_error + unit) prog" where
  "os_Create p = atomic_call (SysCreate p)
     (\<lambda>w. if \<not> parent_ok p w then (Inl NotExist, w)
          else case files w p of
                 Some Dir \<Rightarrow> (Inl IsDir, w)
               | Some (Link _) \<Rightarrow> (Inl IOError, w)
               | _ \<Rightarrow> (Inr (), set_node p (Some (File [])) w))"

definition os_WriteFile :: "path \<Rightarrow> string \<Rightarrow> (go_error + unit) prog" where
  "os_WriteFile p data w =
     (if \<not> parent_ok p w then atomic_call (SysWriteFile p) (\<lambda>w. (Inl NotExist, w)) w
      else case files w p of
             Some Dir \<Rightarrow> atomic_call (SysWriteFile p) (\<lambda>w. (Inl IsDir, w)) w
           | Some (Link _) \<Rightarrow> atomic_call (SysWriteFile p) (\<lambda>w. (Inl IOError, w)) w
           | _ \<Rightarrow> write_call (SysWriteFile p) p data w)"

definition os_Remove :: "path \<Rightarrow> (go_error + unit) prog" where
  "os_Remove p = atomic_call (SysRemove p)
     (\<lambda>w. case files w p of
            None \<Rightarrow> (Inl NotExist, w)
          | Some Dir \<Rightarrow> (Inl IsDir, w)
          | Some _ \<Rightarrow> (Inr (), set_node p None w))"

definition os_Symlink :: "string \<Rightarrow> path \<Rightarrow> (go_error + unit) prog" where
  "os_Symlink target p = atomic_call (SysSymlink p)
     (\<lambda>w. if \<not> parent_ok p w then (Inl NotExist, w)
          else case files w p of
                 None \<Rightarrow> (Inr (), set_node p (Some (Link target)) w)
               | Some _ \<Rightarrow> (Inl Exist, w))"

definition os_Rename :: "path \<Rightarrow> path \<Rightarrow> (go_error + unit) prog" where
  "os_Rename p q = atomic_call (SysRename p q)
     (\<lambda>w. if \<not> parent_ok q w then (Inl NotExist, w)
          else case (files w p, files w q) of
                 (None, _) \<Rightarrow> (Inl NotExist, w)
               | (Some Dir, _) \<Rightarrow> (Inl IsDir, w)
               | (_, Some Dir) \<Rightarrow> (Inl IsDir, w)
               | (n, _) \<Rightarrow> (Inr (), set_node p None (set_node q n w)))"

definition os_MkdirAll :: "path \<Rightarrow> (go_error + unit) prog" where
  "os_MkdirAll p = atomic_call (SysMkdirAll p)
     (\<lambda>w. if list_all (\<lambda>q. files w q = None \<or> files w q = Some Dir) (prefixes p)
          then (Inr (), w\<lparr>files := (\<lambda>q. if q \<in> set (prefixes p) then Some Dir else files w q)\<rparr>)
          else (Inl IOError, w))"

text \<open>
  \<open>dst.ReadFrom(src)\<close> followed by \<open>dst.Close()\<close>, on a destination that \<open>os.Create\<close> just emptied.
\<close>

definition os_Copy :: "path \<Rightarrow> path \<Rightarrow> (go_error + unit) prog" where
  "os_Copy dst src w =
     (case files w src of
        Some (File data) \<Rightarrow> write_call (SysCopy dst src) dst data w
      | _ \<Rightarrow> atomic_call (SysCopy dst src) (\<lambda>w. (Inl IOError, w)) w)"

text \<open>\<open>os.OpenFile\<close> with \<open>O_WRONLY|O_APPEND|O_CREATE\<close>, and writing the bytes \<open>data\<close> to such a file.\<close>

definition os_OpenAppend :: "path \<Rightarrow> (go_error + unit) prog" where
  "os_OpenAppend p = atomic_call (SysOpenAppend p)
     (\<lambda>w. if \<not> parent_ok p w then (Inl NotExist, w)
          else case files w p of
                 None \<Rightarrow> (Inr (), set_node p (Some (File [])) w)
               | Some (File _) \<Rightarrow> (Inr (), w)
               | _ \<Rightarrow> (Inl IOError, w))"

definition os_Append :: "path \<Rightarrow> string \<Rightarrow> (go_error + unit) prog" where
  "os_Append p data w =
     (case files w p of
        Some (File old) \<Rightarrow>
          (case fate (SysAppend p) w of
             Ok \<Rightarrow> (Done (Inr ()), set_node p (Some (File (old @ data))) (advance w))
           | Rot data' \<Rightarrow> (Done (Inr ()), set_node p (Some (File (old @ data'))) (advance w))
           | Err \<Rightarrow> (Done (Inl IOError), advance w)
           | ErrAfter k \<Rightarrow> (Done (Inl IOError), set_node p (Some (File (old @ take k data))) (advance w))
           | Loss \<Rightarrow> (Died, advance w)
           | LossAfter k \<Rightarrow> (Died, set_node p (Some (File (old @ take k data))) (advance w)))
      | _ \<Rightarrow> atomic_call (SysAppend p) (\<lambda>w. (Inl IOError, w)) w)"

lemmas os_defs = os_Readlink_def os_Lstat_def os_Stat_def os_ReadFile_def os_Open_def os_Create_def
  os_WriteFile_def os_Remove_def os_Symlink_def os_Rename_def os_MkdirAll_def os_Copy_def os_OpenAppend_def

subsection \<open>Environments\<close>

text \<open>
  Every call succeeds; reads do not fail; unlinking does not fail; what is written is what was
  given. A call that does not fail may still be the one in which the process dies.
\<close>

fun spurious :: "fault \<Rightarrow> bool" where
  "spurious Err = True"
| "spurious (ErrAfter _) = True"
| "spurious _ = False"

definition all_ok :: "world \<Rightarrow> bool" where
  "all_ok w \<longleftrightarrow> (\<forall>n c. fate_of w n c = Ok)"

definition reads_ok :: "world \<Rightarrow> bool" where
  "reads_ok w \<longleftrightarrow> (\<forall>n p. \<not> spurious (fate_of w n (SysReadlink p)) \<and> \<not> spurious (fate_of w n (SysStat p))
     \<and> \<not> spurious (fate_of w n (SysReadFile p)) \<and> \<not> spurious (fate_of w n (SysLstat p)))"

definition unlinks_ok :: "world \<Rightarrow> bool" where
  "unlinks_ok w \<longleftrightarrow> (\<forall>n p. \<not> spurious (fate_of w n (SysRemove p)))"

definition no_rot :: "world \<Rightarrow> bool" where
  "no_rot w \<longleftrightarrow> (\<forall>n c d. fate_of w n c \<noteq> Rot d)"

definition wp :: "'a prog \<Rightarrow> ('a \<Rightarrow> world \<Rightarrow> bool) \<Rightarrow> (world \<Rightarrow> bool) \<Rightarrow> world \<Rightarrow> bool" where
  "wp m Q C w = (case m w of (Done a, w') \<Rightarrow> Q a w' | (Died, w') \<Rightarrow> C w' | (Panicked, w') \<Rightarrow> C w')"

definition keeps :: "(world \<Rightarrow> bool) \<Rightarrow> 'a prog \<Rightarrow> bool" where
  "keeps I m \<longleftrightarrow> (\<forall>w. I w \<longrightarrow> I (snd (m w)))"

section \<open>Weakest preconditions\<close>

text \<open>
  \<open>wp m Q C w\<close>: run from \<open>w\<close>, \<open>m\<close> either returns a result and world satisfying \<open>Q\<close>, or the
  process dies (or panics) in a world satisfying \<open>C\<close>.
\<close>

lemma wp_retp [wp_rules]: "wp (retp a) Q C = Q a"
  by (simp add: wp_def retp_def fun_eq_iff)

lemma wp_panicp [wp_rules]: "wp panicp Q C = C"
  by (simp add: wp_def panicp_def fun_eq_iff)

lemma wp_bindp [wp_rules]: "wp (bindp m f) Q C = wp m (\<lambda>a. wp (f a) Q C) C"
  by (auto simp: wp_def bindp_def fun_eq_iff split: prod.splits outcome.splits)

lemma wp_bindE [wp_rules]:
  "wp (bindE m f) Q C = wp m (\<lambda>r. case r of Inl e \<Rightarrow> Q (Inl e) | Inr a \<Rightarrow> wp (f a) Q C) C"
proof -
  have "(\<lambda>r. wp (case r of Inl e \<Rightarrow> retp (Inl e) | Inr a \<Rightarrow> f a) Q C) =
        (\<lambda>r. case r of Inl e \<Rightarrow> Q (Inl e) | Inr a \<Rightarrow> wp (f a) Q C)"
    by (auto simp: wp_retp fun_eq_iff split: sum.splits)
  then show ?thesis by (simp add: bindE_def wp_bindp)
qed

lemma wp_mono:
  "wp m Q C w \<Longrightarrow> (\<And>a w'. Q a w' \<Longrightarrow> Q' a w') \<Longrightarrow> (\<And>w'. C w' \<Longrightarrow> C' w') \<Longrightarrow> wp m Q' C' w"
  by (auto simp: wp_def split: prod.splits outcome.splits)

lemma wp_conj:
  "wp m Q C w \<Longrightarrow> wp m Q' C' w \<Longrightarrow> wp m (\<lambda>a w. Q a w \<and> Q' a w) (\<lambda>w. C w \<and> C' w) w"
  by (auto simp: wp_def split: prod.splits outcome.splits)

lemma wp_snd: "wp m (\<lambda>_. P) P w = P (snd (m w))"
  by (auto simp: wp_def split: prod.splits outcome.splits)

lemma wpD:
  assumes "wp m Q C w"
  shows "m w = (Done a, w') \<Longrightarrow> Q a w'" "m w = (Died, w') \<Longrightarrow> C w'" "m w = (Panicked, w') \<Longrightarrow> C w'"
  using assms by (auto simp: wp_def)

lemma files_advance [simp]: "files (advance w) = files w"
  by (simp add: advance_def)

lemma fate_of_advance [simp]: "fate_of (advance w) = fate_of w"
  by (simp add: advance_def)

lemma files_set_node [simp]: "files (set_node p n w) = (files w)(p := n)"
  by (simp add: set_node_def)

lemma fate_of_set_node [simp]: "fate_of (set_node p n w) = fate_of w"
  by (simp add: set_node_def)

lemma parent_ok_advance [simp]: "parent_ok p (advance w) = parent_ok p w"
  by (simp add: parent_ok_def)

lemma all_ok_fate [simp]: "all_ok w \<Longrightarrow> fate c w = Ok"
  by (simp add: all_ok_def fate_def)

lemma all_ok_step [simp]: "all_ok (advance w) = all_ok w" "all_ok (set_node p n w) = all_ok w"
  by (simp_all add: all_ok_def)

lemma reads_ok_fate [simp]:
  "reads_ok w \<Longrightarrow> \<not> spurious (fate (SysReadlink p) w)" "reads_ok w \<Longrightarrow> \<not> spurious (fate (SysStat p) w)"
  "reads_ok w \<Longrightarrow> \<not> spurious (fate (SysReadFile p) w)" "reads_ok w \<Longrightarrow> \<not> spurious (fate (SysLstat p) w)"
  by (simp_all add: reads_ok_def fate_def)

lemma reads_ok_step [simp]:
  "reads_ok (advance w) = reads_ok w" "reads_ok (set_node p n w) = reads_ok w"
  by (simp_all add: reads_ok_def)

lemma unlinks_ok_step [simp]:
  "unlinks_ok (advance w) = unlinks_ok w" "unlinks_ok (set_node p n w) = unlinks_ok w"
  by (simp_all add: unlinks_ok_def)

lemma unlinks_ok_fate [simp]: "unlinks_ok w \<Longrightarrow> \<not> spurious (fate (SysRemove p) w)"
  by (simp add: unlinks_ok_def fate_def)

lemma all_ok_reads_ok: "all_ok w \<Longrightarrow> reads_ok w"
  by (simp add: all_ok_def reads_ok_def)

lemma all_ok_unlinks_ok: "all_ok w \<Longrightarrow> unlinks_ok w"
  by (simp add: all_ok_def unlinks_ok_def)

subsection \<open>Rules for the calls\<close>

text \<open>Each rule names the worlds the call can end in; the counter is left implicit.\<close>

lemma wp_atomic_call:
  assumes "\<And>w1. files w1 = files w \<Longrightarrow> fate_of w1 = fate_of w \<Longrightarrow> Q (fst (act w1)) (snd (act w1))"
    and "\<And>w1. files w1 = files w \<Longrightarrow> fate_of w1 = fate_of w \<Longrightarrow> spurious (fate c w) \<Longrightarrow> Q (Inl IOError) w1"
    and "\<And>w1. files w1 = files w \<Longrightarrow> fate_of w1 = fate_of w \<Longrightarrow> C w1"
  shows "wp (atomic_call c act) Q C w"
  using assms(1)[of "advance w"] assms(2)[of "advance w"] assms(3)[of "advance w"]
  by (auto simp: wp_def atomic_call_def split: fault.splits prod.splits)

lemma wp_atomic_call_Ok:
  "fate c w = Ok \<Longrightarrow> Q (fst (act (advance w))) (snd (act (advance w))) \<Longrightarrow> wp (atomic_call c act) Q C w"
  by (auto simp: wp_def atomic_call_def split: prod.splits)

text \<open>In an environment where every call succeeds, the rules are equations.\<close>

lemma wp_atomic_call_all_ok [wp_rules]:
  "all_ok w \<Longrightarrow> wp (atomic_call c act) Q C w = Q (fst (act (advance w))) (snd (act (advance w)))"
  by (simp add: wp_def atomic_call_def split: prod.splits)

lemma wp_write_call_all_ok [wp_rules]:
  "all_ok w \<Longrightarrow> wp (write_call c p data) Q C w = Q (Inr ()) (set_node p (Some (File data)) (advance w))"
  by (simp add: wp_def write_call_def)

lemma wp_WriteFile:
  assumes "\<And>w1 d. files w1 = (files w)(p \<mapsto> File d) \<Longrightarrow> fate_of w1 = fate_of w \<Longrightarrow> Q (Inr ()) w1"
    and "\<And>w1 e n. files w1 = (files w)(p := n) \<Longrightarrow> fate_of w1 = fate_of w \<Longrightarrow> n = files w p \<or> is_file n \<Longrightarrow> Q (Inl e) w1"
    and "\<And>w1 n. files w1 = (files w)(p := n) \<Longrightarrow> fate_of w1 = fate_of w \<Longrightarrow> n = files w p \<or> is_file n \<Longrightarrow> C w1"
  shows "wp (os_WriteFile p data) Q C w"
  using assms(1)[of "set_node p _ (advance w)"]
    assms(2)[of "advance w" "files w p"] assms(2)[of "set_node p _ (advance w)"]
    assms(3)[of "advance w" "files w p"] assms(3)[of "set_node p _ (advance w)"]
  by (auto simp: wp_def os_WriteFile_def atomic_call_def write_call_def split: fault.splits option.splits node.splits)

lemma wp_Remove:
  assumes "\<And>w1. files w1 = (files w)(p := None) \<Longrightarrow> fate_of w1 = fate_of w \<Longrightarrow> Q (Inr ()) w1"
    and "\<And>w1 e. files w1 = files w \<Longrightarrow> fate_of w1 = fate_of w
           \<Longrightarrow> (unlinks_ok w \<Longrightarrow> files w p = None \<or> files w p = Some Dir) \<Longrightarrow> Q (Inl e) w1"
    and "\<And>w1. files w1 = files w \<Longrightarrow> fate_of w1 = fate_of w \<Longrightarrow> C w1"
  shows "wp (os_Remove p) Q C w"
  unfolding os_Remove_def
  by (intro wp_atomic_call) (auto intro!: assms split: option.splits node.splits)

lemma wp_Symlink:
  assumes "\<And>w1. files w1 = (files w)(p \<mapsto> Link t) \<Longrightarrow> fate_of w1 = fate_of w \<Longrightarrow> files w p = None \<Longrightarrow> Q (Inr ()) w1"
    and "\<And>w1 e. files w1 = files w \<Longrightarrow> fate_of w1 = fate_of w \<Longrightarrow> Q (Inl e) w1"
    and "\<And>w1. files w1 = files w \<Longrightarrow> fate_of w1 = fate_of w \<Longrightarrow> C w1"
  shows "wp (os_Symlink t p) Q C w"
  unfolding os_Symlink_def
  by (intro wp_atomic_call) (auto intro!: assms split: option.splits if_splits)

lemma wp_Rename:
  assumes "\<And>w1. files w1 = (files w)(q := files w p, p := None) \<Longrightarrow> fate_of w1 = fate_of w \<Longrightarrow> Q (Inr ()) w1"
    and "\<And>w1 e. files w1 = files w \<Longrightarrow> fate_of w1 = fate_of w \<Longrightarrow> Q (Inl e) w1"
    and "\<And>w1. files w1 = files w \<Longrightarrow> fate_of w1 = fate_of w \<Longrightarrow> C w1"
  shows "wp (os_Rename p q) Q C w"
  unfolding os_Rename_def
  by (intro wp_atomic_call) (auto intro!: assms split: option.splits node.splits if_splits)

lemma wp_ReadFile:
  assumes "\<And>w1 c. files w1 = files w \<Longrightarrow> fate_of w1 = fate_of w \<Longrightarrow> files w p = Some (File c) \<Longrightarrow> Q (Inr c) w1"
    and "\<And>w1 e. files w1 = files w \<Longrightarrow> fate_of w1 = fate_of w
           \<Longrightarrow> (reads_ok w \<Longrightarrow> \<not> is_file (files w p)) \<Longrightarrow> Q (Inl e) w1"
    and "\<And>w1. files w1 = files w \<Longrightarrow> fate_of w1 = fate_of w \<Longrightarrow> C w1"
  shows "wp (os_ReadFile p) Q C w"
  unfolding os_ReadFile_def
  by (intro wp_atomic_call) (auto intro!: assms split: option.splits node.splits)

lemma wp_Stat:
  assumes "\<And>w1 n. files w1 = files w \<Longrightarrow> fate_of w1 = fate_of w \<Longrightarrow> is_file (files w p) \<or> files w p = Some Dir \<Longrightarrow> Q (Inr n) w1"
    and "\<And>w1 e. files w1 = files w \<Longrightarrow> fate_of w1 = fate_of w
           \<Longrightarrow> (reads_ok w \<Longrightarrow> \<not> is_file (files w p)) \<Longrightarrow> Q (Inl e) w1"
    and "\<And>w1. files w1 = files w \<Longrightarrow> fate_of w1 = fate_of w \<Longrightarrow> C w1"
  shows "wp (os_Stat p) Q C w"
  unfolding os_Stat_def
  by (intro wp_atomic_call) (auto intro!: assms split: option.splits node.splits)

subsection \<open>Preservation\<close>

lemma keepsI: "(\<And>w. I w \<Longrightarrow> I (snd (m w))) \<Longrightarrow> keeps I m"
  by (simp add: keeps_def)

lemma keepsD: "keeps I m \<Longrightarrow> I w \<Longrightarrow> I (snd (m w))"
  by (simp add: keeps_def)

lemma keeps_wp: "keeps I m \<longleftrightarrow> (\<forall>w. I w \<longrightarrow> wp m (\<lambda>_. I) I w)"
  by (simp add: keeps_def wp_snd)

lemma keeps_retp [keeps_rules]: "keeps I (retp a)"
  by (simp add: keeps_def retp_def)

lemma keeps_panicp [keeps_rules]: "keeps I panicp"
  by (simp add: keeps_def panicp_def)

lemma keeps_bindp [keeps_rules]: "keeps I m \<Longrightarrow> (\<And>a. keeps I (f a)) \<Longrightarrow> keeps I (bindp m f)"
  unfolding keeps_wp wp_bindp by (blast intro: wp_mono)

lemma keeps_bindE [keeps_rules]:
  assumes "keeps I m" "\<And>a. keeps I (f a)"
  shows "keeps I (bindE m f)"
  unfolding bindE_def
  by (intro keeps_bindp assms(1)) (auto split: sum.splits intro: keeps_retp assms(2))

lemma keeps_conj: "keeps I m \<Longrightarrow> keeps J m \<Longrightarrow> keeps (\<lambda>w. I w \<and> J w) m"
  by (simp add: keeps_def)

lemma keeps_if [keeps_rules]: "(b \<Longrightarrow> keeps I m) \<Longrightarrow> (\<not> b \<Longrightarrow> keeps I m') \<Longrightarrow> keeps I (if b then m else m')"
  by simp

lemma keeps_atomic_call:
  assumes "\<And>w. I w \<Longrightarrow> I (advance w)" "\<And>w. I w \<Longrightarrow> I (snd (act w))"
  shows "keeps I (atomic_call c act)"
  using assms by (auto simp: keeps_def atomic_call_def split: fault.splits prod.splits) (metis snd_conv)+

text \<open>
  The frame condition: outside the paths \<open>S\<close> the store is the one recorded in \<open>f\<close>, and the
  environment is \<open>e\<close>.
\<close>

definition frame :: "(path \<Rightarrow> bool) \<Rightarrow> (path \<rightharpoonup> node) \<Rightarrow> (nat \<Rightarrow> syscall \<Rightarrow> fault) \<Rightarrow> world \<Rightarrow> bool" where
  "frame S f e w \<longleftrightarrow> (\<forall>p. \<not> S p \<longrightarrow> files w p = f p) \<and> fate_of w = e"

lemma frame_refl [simp]: "frame S (files w) (fate_of w) w"
  by (simp add: frame_def)

lemma frame_advance [simp]: "frame S f e (advance w) = frame S f e w"
  by (simp add: frame_def)

lemma frame_set_node [simp]: "S p \<Longrightarrow> frame S f e w \<Longrightarrow> frame S f e (set_node p n w)"
  by (auto simp: frame_def)

lemma frame_outside: "frame S f e w \<Longrightarrow> \<not> S p \<Longrightarrow> files w p = f p"
  by (simp add: frame_def)

lemma keeps_frame_reads [keeps_rules]:
  "keeps (frame S f e) (os_Readlink p)" "keeps (frame S f e) (os_Lstat p)"
  "keeps (frame S f e) (os_Stat p)" "keeps (frame S f e) (os_ReadFile p)"
  "keeps (frame S f e) (os_Open p)"
  by (auto simp: os_defs intro!: keeps_atomic_call)

lemma keeps_frame_writes [keeps_rules]:
  "S p \<Longrightarrow> keeps (frame S f e) (os_Create p)"
  "S p \<Longrightarrow> keeps (frame S f e) (os_Remove p)"
  "S p \<Longrightarrow> keeps (frame S f e) (os_Symlink t p)"
  by (auto simp: os_defs intro!: keeps_atomic_call split: option.splits node.splits)

lemma keeps_frame_Rename [keeps_rules]: "S p \<Longrightarrow> S q \<Longrightarrow> keeps (frame S f e) (os_Rename p q)"
  by (auto simp: os_defs intro!: keeps_atomic_call split: option.splits node.splits)

lemma keeps_frame_write_call: "S p \<Longrightarrow> keeps (frame S f e) (write_call c p data)"
  by (auto simp: keeps_def write_call_def split: fault.splits)

lemma keeps_frame_refused: "keeps (frame S f e) (atomic_call c (Pair r))"
  by (auto intro!: keeps_atomic_call)

lemma keeps_frame_WriteFile [keeps_rules]: "S p \<Longrightarrow> keeps (frame S f e) (os_WriteFile p data)"
  by (rule keepsI)
    (auto simp: os_WriteFile_def split: option.splits node.splits
      intro: keepsD[OF keeps_frame_write_call] keepsD[OF keeps_frame_refused])

lemma keeps_frame_Copy [keeps_rules]: "S p \<Longrightarrow> keeps (frame S f e) (os_Copy p src)"
  by (rule keepsI)
    (auto simp: os_Copy_def split: option.splits node.splits
      intro: keepsD[OF keeps_frame_write_call] keepsD[OF keeps_frame_refused])

end
