(* ===== verification/Digest.thy ===== *)
theory Digest
  imports Go_OS
begin

text \<open>
  \<open>VerifySHA256\<close> of \<open>internal/agent/download.go\<close>. The digest function is an argument: no
  property of the program depends on which function it is, so every theorem holds for SHA-256
  and for any other digest.
\<close>

type_synonym digest = "string \<Rightarrow> string"

definition VerifySHA256 :: "digest \<Rightarrow> path \<Rightarrow> string \<Rightarrow> (go_error + unit) prog" where
  "VerifySHA256 sha256 p wantHex =
     bindE (os_Open p) (\<lambda>_.
     bindE (os_ReadFile p) (\<lambda>data.
       let got = hex_EncodeToString (sha256 data)
       in if got \<noteq> wantHex then retp (Inl (ChecksumMismatch got wantHex)) else retp (Inr ())))"

text \<open>The file at \<open>p\<close> has the digest \<open>want\<close>.\<close>

definition hashes_to :: "digest \<Rightarrow> path \<Rightarrow> string \<Rightarrow> world \<Rightarrow> bool" where
  "hashes_to sha256 p want w \<longleftrightarrow>
     (case files w p of Some (File data) \<Rightarrow> hex_EncodeToString (sha256 data) = want | _ \<Rightarrow> False)"

lemma keeps_VerifySHA256 [keeps_rules]: "keeps (frame S f e) (VerifySHA256 h p want)"
  unfolding VerifySHA256_def Let_def by (intro keeps_rules)

lemma wp_VerifySHA256:
  assumes "\<And>w1. files w1 = files w \<Longrightarrow> fate_of w1 = fate_of w \<Longrightarrow> hashes_to h p want w \<Longrightarrow> Q (Inr ()) w1"
    and "\<And>w1 e. files w1 = files w \<Longrightarrow> fate_of w1 = fate_of w \<Longrightarrow> Q (Inl e) w1"
    and "\<And>w1. files w1 = files w \<Longrightarrow> fate_of w1 = fate_of w \<Longrightarrow> C w1"
  shows "wp (VerifySHA256 h p want) Q C w"
  unfolding VerifySHA256_def wp_bindE os_defs
  by (intro wp_atomic_call)
    (auto intro!: wp_atomic_call assms simp: wp_rules Let_def hashes_to_def split: option.splits node.splits)

lemma VerifySHA256_all_ok:
  "all_ok w \<Longrightarrow> wp (VerifySHA256 h p want) (\<lambda>r w'. files w' = files w \<and> fate_of w' = fate_of w
     \<and> (r = Inr () \<longleftrightarrow> hashes_to h p want w)) (\<lambda>_. False) w"
  by (auto simp: VerifySHA256_def os_defs wp_rules Let_def hashes_to_def split: option.splits node.splits)

end
