(* ===== verification/Slots.thy ===== *)
theory Slots
  imports Digest
begin

text \<open>
  The A/B slot manager of \<open>internal/agent/slot.go\<close>: factory initialisation, staging, promotion,
  the boot check with its attempt counter, self-check, confirmation and rollback, as programs
  over the store of \<open>Go_OS\<close>. Slot names are the strings the code uses.

  The lemmas show the frame of every operation (what it may write), the atomicity of the
  \<open>current\<close> flip, and that the boot-safety invariant survives every operation on every
  outcome, the death of the process included.
\<close>

definition firmwareFile :: string where "firmwareFile = ''firmware.bin''"
definition versionFile :: string where "versionFile = ''version''"
definition checksumFile :: string where "checksumFile = ''checksum''"
definition pendingMarker :: string where "pendingMarker = ''.pending''"
definition confirmedMarker :: string where "confirmedMarker = ''.confirmed''"
definition currentLink :: string where "currentLink = ''current''"

datatype BootResult = BootNone | BootNormal | BootTrial | BootRolledBack

record SlotManager =
  sm_dir :: path

definition slotDir :: "SlotManager \<Rightarrow> string \<Rightarrow> path" where
  "slotDir s slot = sm_dir s @ [''slot'' @ slot]"

definition currentPath :: "SlotManager \<Rightarrow> path" where
  "currentPath s = sm_dir s @ [currentLink]"

definition currentTmp :: "SlotManager \<Rightarrow> path" where
  "currentTmp s = sm_dir s @ [currentLink @ ''.tmp'']"

definition other :: "string \<Rightarrow> string" where
  "other slot = (if slot = ''A'' then ''B'' else ''A'')"

definition switchTo :: "SlotManager \<Rightarrow> string \<Rightarrow> (go_error + unit) prog" where
  "switchTo s slot =
     bindp (os_Remove (currentTmp s)) (\<lambda>_.
     bindE (os_Symlink (''slot'' @ slot) (currentTmp s)) (\<lambda>_.
       os_Rename (currentTmp s) (currentPath s)))"

text \<open>Factory state: a fresh device boots slot A and trusts it.\<close>

definition factory_state :: "SlotManager \<Rightarrow> (go_error + SlotManager) prog" where
  "factory_state s =
     bindE (os_WriteFile (slotDir s ''A'' @ [versionFile]) ''factory'') (\<lambda>_.
     bindE (os_WriteFile (slotDir s ''A'' @ [confirmedMarker]) []) (\<lambda>_.
     bindE (switchTo s ''A'') (\<lambda>_. retp (Inr s))))"

definition NewSlotManager :: "path \<Rightarrow> (go_error + SlotManager) prog" where
  "NewSlotManager dir =
     (let s = \<lparr>sm_dir = dir\<rparr> in
      bindE (os_MkdirAll (slotDir s ''A'')) (\<lambda>_.
      bindE (os_MkdirAll (slotDir s ''B'')) (\<lambda>_.
      bindp (os_Lstat (currentPath s)) (\<lambda>r. if r = Inl NotExist then factory_state s else retp (Inr s)))))"

lemmas NewSlotManager_defs = NewSlotManager_def factory_state_def

definition Active :: "SlotManager \<Rightarrow> (go_error + string) prog" where
  "Active s = bindE (os_Readlink (currentPath s)) (\<lambda>target. retp (Inr (TrimPrefix (Base target) ''slot'')))"

definition ActiveVersion :: "SlotManager \<Rightarrow> string prog" where
  "ActiveVersion s =
     bindp (Active s) (\<lambda>r. case r of Inl _ \<Rightarrow> retp [] | Inr active \<Rightarrow>
     bindp (os_ReadFile (slotDir s active @ [versionFile])) (\<lambda>r. case r of
       Inl _ \<Rightarrow> retp [] | Inr b \<Rightarrow> retp (TrimSpace b)))"

definition Stage :: "SlotManager \<Rightarrow> path \<Rightarrow> version \<Rightarrow> checksum \<Rightarrow> (go_error + unit) prog" where
  "Stage s srcPath version checksum =
     bindE (Active s) (\<lambda>active.
       let dir = slotDir s (other active) in
       bindp (os_Remove (dir @ [confirmedMarker])) (\<lambda>_.
       bindp (os_Remove (dir @ [pendingMarker])) (\<lambda>_.
       bindE (os_Open srcPath) (\<lambda>_.
       bindE (os_Create (dir @ [firmwareFile])) (\<lambda>_.
       bindE (os_Copy (dir @ [firmwareFile]) srcPath) (\<lambda>_.
       bindE (os_WriteFile (dir @ [versionFile]) version) (\<lambda>_.
         os_WriteFile (dir @ [checksumFile]) checksum)))))))"

definition VerifyStaged :: "digest \<Rightarrow> SlotManager \<Rightarrow> (go_error + unit) prog" where
  "VerifyStaged sha256 s =
     bindE (Active s) (\<lambda>active.
       let dir = slotDir s (other active) in
       bindE (os_ReadFile (dir @ [checksumFile])) (\<lambda>want.
         VerifySHA256 sha256 (dir @ [firmwareFile]) (TrimSpace want)))"

definition PromoteStaged :: "SlotManager \<Rightarrow> (go_error + string) prog" where
  "PromoteStaged s =
     bindE (Active s) (\<lambda>active.
       let target = other active in
       bindE (os_WriteFile (slotDir s target @ [pendingMarker]) ''0'') (\<lambda>_.
       bindE (switchTo s target) (\<lambda>_. retp (Inr target))))"

definition rollback :: "SlotManager \<Rightarrow> string \<Rightarrow> (go_error + unit) prog" where
  "rollback s badSlot =
     bindp (os_Remove (slotDir s badSlot @ [pendingMarker])) (\<lambda>_. switchTo s (other badSlot))"

definition Rollback :: "SlotManager \<Rightarrow> (go_error + unit) prog" where
  "Rollback s = bindE (Active s) (\<lambda>active. rollback s active)"

fun err_of :: "(go_error + 'a) \<Rightarrow> go_error option" where
  "err_of (Inl e) = Some e"
| "err_of (Inr _) = None"

text \<open>The code returns a boot result together with an error value; both are kept.\<close>

definition BootCheck :: "SlotManager \<Rightarrow> (BootResult \<times> go_error option) prog" where
  "BootCheck s =
     bindp (Active s) (\<lambda>r. case r of Inl e \<Rightarrow> retp (BootNone, Some e) | Inr active \<Rightarrow>
       let dir = slotDir s active in
       bindp (os_Stat (dir @ [confirmedMarker])) (\<lambda>r. case r of
         Inr _ \<Rightarrow> retp (BootNormal, None)
       | Inl _ \<Rightarrow>
           bindp (os_ReadFile (dir @ [pendingMarker])) (\<lambda>r. case r of
             Inl _ \<Rightarrow> bindp (rollback s active) (\<lambda>r. retp (BootRolledBack, err_of r))
           | Inr b \<Rightarrow>
               (let tries = Atoi (TrimSpace b) in
                if tries \<ge> 1 then bindp (rollback s active) (\<lambda>r. retp (BootRolledBack, err_of r))
                else bindp (os_WriteFile (dir @ [pendingMarker]) (Itoa (tries + 1))) (\<lambda>r. case r of
                       Inl e \<Rightarrow> retp (BootNone, Some e)
                     | Inr _ \<Rightarrow> retp (BootTrial, None))))))"

definition SelfCheck :: "digest \<Rightarrow> SlotManager \<Rightarrow> (go_error + unit) prog" where
  "SelfCheck sha256 s =
     bindE (Active s) (\<lambda>active.
       let dir = slotDir s active in
       bindp (os_ReadFile (dir @ [checksumFile])) (\<lambda>r. case r of
         Inl e \<Rightarrow> retp (Inl (Wrapped ''no checksum in active slot'' (Some e)))
       | Inr want \<Rightarrow> VerifySHA256 sha256 (dir @ [firmwareFile]) (TrimSpace want)))"

definition Confirm :: "SlotManager \<Rightarrow> (go_error + unit) prog" where
  "Confirm s =
     bindE (Active s) (\<lambda>active.
       let dir = slotDir s active in
       bindE (os_WriteFile (dir @ [confirmedMarker]) []) (\<lambda>_. os_Remove (dir @ [pendingMarker])))"

subsection \<open>What a store says about the slots\<close>

definition active_of :: "SlotManager \<Rightarrow> world \<Rightarrow> string option" where
  "active_of s w = (case files w (currentPath s) of
     Some (Link t) \<Rightarrow> Some (TrimPrefix (Base t) ''slot'') | _ \<Rightarrow> None)"

definition in_slot :: "SlotManager \<Rightarrow> string \<Rightarrow> path \<Rightarrow> bool" where
  "in_slot s slot p \<longleftrightarrow> (\<exists>n. p = slotDir s slot @ [n])"

definition switch_path :: "SlotManager \<Rightarrow> path \<Rightarrow> bool" where
  "switch_path s p \<longleftrightarrow> p = currentPath s \<or> p = currentTmp s"

definition confirmed :: "SlotManager \<Rightarrow> string \<Rightarrow> world \<Rightarrow> bool" where
  "confirmed s slot w \<longleftrightarrow> is_file (files w (slotDir s slot @ [confirmedMarker]))"

text \<open>Directories are in place, slot entries are regular files, \<open>current\<close> names slot A or B.\<close>

definition layout :: "SlotManager \<Rightarrow> world \<Rightarrow> bool" where
  "layout s w \<longleftrightarrow>
     files w (sm_dir s) = Some Dir \<and>
     (\<forall>slot \<in> {''A'', ''B''}. files w (slotDir s slot) = Some Dir \<and>
        (\<forall>n. files w (slotDir s slot @ [n]) = None \<or> is_file (files w (slotDir s slot @ [n])))) \<and>
     files w (currentPath s) \<in> {Some (Link ''slotA''), Some (Link ''slotB'')} \<and>
     files w (currentTmp s) \<in> {None, Some (Link ''slotA''), Some (Link ''slotB'')}"

text \<open>
  A slot is intact when it holds the factory image (never flashed) or an image that hashes to
  the checksum stored beside it.
\<close>

definition intact :: "digest \<Rightarrow> SlotManager \<Rightarrow> string \<Rightarrow> world \<Rightarrow> bool" where
  "intact sha256 s slot w \<longleftrightarrow>
     (files w (slotDir s slot @ [versionFile]) = Some (File ''factory'')
        \<and> files w (slotDir s slot @ [checksumFile]) = None) \<or>
     (case files w (slotDir s slot @ [checksumFile]) of
        Some (File want) \<Rightarrow> hashes_to sha256 (slotDir s slot @ [firmwareFile]) (TrimSpace want) w
      | _ \<Rightarrow> False)"

text \<open>
  Boot safety: the layout is in place, the running slot or the other one is confirmed, and
  every confirmed slot is intact.
\<close>

definition boot_safe :: "digest \<Rightarrow> SlotManager \<Rightarrow> world \<Rightarrow> bool" where
  "boot_safe sha256 s w \<longleftrightarrow> layout s w \<and>
     (\<exists>a. active_of s w = Some a \<and> (confirmed s a w \<or> confirmed s (other a) w)) \<and>
     (\<forall>slot \<in> {''A'', ''B''}. confirmed s slot w \<longrightarrow> intact sha256 s slot w)"

lemmas slot_names = firmwareFile_def versionFile_def checksumFile_def pendingMarker_def
  confirmedMarker_def currentLink_def

text \<open>What \<open>switchTo\<close> may have done to the store, whatever its outcome:\<close>

definition switched :: "SlotManager \<Rightarrow> string \<Rightarrow> world \<Rightarrow> world \<Rightarrow> bool" where
  "switched s slot w w' \<longleftrightarrow> frame (switch_path s) (files w) (fate_of w) w' \<and>
     files w' (currentTmp s) \<in> {files w (currentTmp s), None, Some (Link (''slot'' @ slot))} \<and>
     files w' (currentPath s) \<in> {files w (currentPath s), Some (Link (''slot'' @ slot))}"

text \<open>Confirmation and integrity of a slot only depend on four of its entries.\<close>

definition slot_core :: "SlotManager \<Rightarrow> string \<Rightarrow> world \<Rightarrow> node option list" where
  "slot_core s x w = map (\<lambda>n. files w (slotDir s x @ [n])) [confirmedMarker, versionFile, checksumFile, firmwareFile]"

text \<open>A program that writes nothing of the slots but pending markers and the link keeps boot safety.\<close>

definition marker_path :: "SlotManager \<Rightarrow> path \<Rightarrow> bool" where
  "marker_path s p \<longleftrightarrow> switch_path s p \<or> (\<exists>x. p = slotDir s x @ [pendingMarker])"

text \<open>A data directory in which factory initialisation has not been completed:\<close>

definition unborn :: "SlotManager \<Rightarrow> world \<Rightarrow> bool" where
  "unborn s w \<longleftrightarrow>
     files w (currentPath s) = None \<and> files w (currentTmp s) \<in> {None, Some (Link ''slotA'')} \<and>
     (\<forall>slot \<in> {''A'', ''B''}. \<forall>p \<in> set (prefixes (slotDir s slot)). files w p \<in> {None, Some Dir}) \<and>
     (\<forall>n. files w (slotDir s ''B'' @ [n]) = None) \<and>
     (\<forall>n. files w (slotDir s ''A'' @ [n]) = None \<or> n \<in> {versionFile, confirmedMarker} \<and> is_file (files w (slotDir s ''A'' @ [n])))"

text \<open>
  The life of a device as a sequence of slot operations. Every operation may end in any of its
  outcomes (success, error return, death of the process at any system call); a reboot changes the
  environment. Staging happens while the running slot is confirmed, confirming after a self-check.
\<close>

inductive slot_step :: "digest \<Rightarrow> SlotManager \<Rightarrow> world \<Rightarrow> world \<Rightarrow> bool" for h s where
  stage: "active_of s w = Some a \<Longrightarrow> confirmed s a w \<Longrightarrow> slot_step h s w (snd (Stage s src v c w))"
| verify: "slot_step h s w (snd (VerifyStaged h s w))"
| promote: "slot_step h s w (snd (PromoteStaged s w))"
| boot: "slot_step h s w (snd (BootCheck s w))"
| check: "slot_step h s w (snd (SelfCheck h s w))"
| confirm: "SelfCheck h s w = (Done (Inr ()), w1) \<Longrightarrow> slot_step h s w (snd (Confirm s w1))"
| roll: "slot_step h s w (snd (Rollback s w))"
| reboot: "unlinks_ok (w\<lparr>fate_of := e\<rparr>) \<Longrightarrow> slot_step h s w (w\<lparr>fate_of := e\<rparr>)"

text \<open>A device as it leaves the factory, in an environment without faults.\<close>

definition demo_slots :: SlotManager where
  "demo_slots = \<lparr>sm_dir = [''data'']\<rparr>"

definition demo_world :: world where
  "demo_world = \<lparr>files = [[] \<mapsto> Dir, [''data''] \<mapsto> Dir, [''data'', ''slotA''] \<mapsto> Dir, [''data'', ''slotB''] \<mapsto> Dir,
       [''data'', ''current''] \<mapsto> Link ''slotA'', [''data'', ''slotA'', ''version''] \<mapsto> File ''factory'',
       [''data'', ''slotA'', ''.confirmed''] \<mapsto> File [], [''data'', ''img''] \<mapsto> File ''image''],
     tick = 0, fate_of = (\<lambda>_ _. Ok)\<rparr>"

text \<open>The device runs a confirmed slot whose image is intact.\<close>

definition runs_confirmed :: "digest \<Rightarrow> SlotManager \<Rightarrow> world \<Rightarrow> bool" where
  "runs_confirmed h s w \<longleftrightarrow> (\<exists>a. active_of s w = Some a \<and> confirmed s a w \<and> intact h s a w)"

text \<open>The store after the other slot was promoted and its attempt counter reads \<open>d\<close>.\<close>

definition promoted :: "SlotManager \<Rightarrow> string \<Rightarrow> string \<Rightarrow> (path \<rightharpoonup> node) \<Rightarrow> (path \<rightharpoonup> node)" where
  "promoted s a d f = f(slotDir s (other a) @ [pendingMarker] \<mapsto> File d,
                currentTmp s := None, currentPath s \<mapsto> Link (''slot'' @ other a))"

text \<open>A device whose flash refuses to unlink and loses power after one byte of the firmware copy.\<close>

definition worn_world :: world where
  "worn_world = demo_world\<lparr>files := (files demo_world)([''data'', ''slotB'', ''version''] \<mapsto> File ''v1'',
       [''data'', ''slotB'', ''.confirmed''] \<mapsto> File [], [''data'', ''slotB'', ''checksum''] \<mapsto> File (hex_EncodeToString ''old''),
       [''data'', ''slotB'', ''firmware.bin''] \<mapsto> File ''old''),
     fate_of := (\<lambda>_ c. case c of SysRemove _ \<Rightarrow> Err | SysCopy _ _ \<Rightarrow> LossAfter 1 | _ \<Rightarrow> Ok)\<rparr>"

text \<open>
  A fail-stop environment: the calls that maintain markers and the link do not return errors out
  of the blue; they succeed (possibly landing other bytes) or the process dies in them. Copying
  an image, opening files and the network may fail in any way.
\<close>

fun critical :: "syscall \<Rightarrow> bool" where
  "critical (SysReadlink _) = True"
| "critical (SysStat _) = True"
| "critical (SysReadFile _) = True"
| "critical (SysLstat _) = True"
| "critical (SysRemove _) = True"
| "critical (SysSymlink _) = True"
| "critical (SysRename _ _) = True"
| "critical (SysWriteFile _) = True"
| "critical _ = False"

definition fail_stop :: "world \<Rightarrow> bool" where
  "fail_stop w \<longleftrightarrow> (\<forall>n c. critical c \<longrightarrow> \<not> spurious (fate_of w n c))"

text \<open>A boot-safe store whose running slot is confirmed.\<close>

definition safe_up :: "digest \<Rightarrow> SlotManager \<Rightarrow> world \<Rightarrow> bool" where
  "safe_up h s w \<longleftrightarrow> boot_safe h s w \<and> (\<exists>a. active_of s w = Some a \<and> confirmed s a w)"

text \<open>At most missing parents of the data directory have been made.\<close>

definition grown :: "SlotManager \<Rightarrow> world \<Rightarrow> world \<Rightarrow> bool" where
  "grown s w w' \<longleftrightarrow> (\<forall>p. files w' p = files w p \<or> files w p = None \<and> prefix p (sm_dir s))"

section \<open>Lemmas\<close>

subsection \<open>Paths and names\<close>

lemma other_other [simp]: "slot = ''A'' \<or> slot = ''B'' \<Longrightarrow> other (other slot) = slot"
  by (auto simp: other_def)

lemma other_AB [simp]: "other ''A'' = ''B''" "other ''B'' = ''A''"
  by (simp_all add: other_def)

lemma other_neq: "other slot \<noteq> slot"
  by (simp add: other_def)

lemma other_in: "other slot = ''A'' \<or> other slot = ''B''"
  by (simp add: other_def)

lemma slotDir_inj [simp]: "slotDir s a = slotDir s b \<longleftrightarrow> a = b"
  by (simp add: slotDir_def)

lemma slot_entry_inj [simp]: "slotDir s a @ [n] = slotDir s b @ [m] \<longleftrightarrow> a = b \<and> n = m"
  by (simp add: slotDir_def)

lemma path_distinct [simp]:
  "slotDir s a @ [n] \<noteq> currentPath s" "slotDir s a @ [n] \<noteq> currentTmp s"
  "slotDir s a \<noteq> currentPath s" "slotDir s a \<noteq> currentTmp s"
  "currentPath s \<noteq> slotDir s a @ [n]" "currentTmp s \<noteq> slotDir s a @ [n]"
  "currentPath s \<noteq> slotDir s a" "currentTmp s \<noteq> slotDir s a"
  "currentPath s \<noteq> currentTmp s" "currentTmp s \<noteq> currentPath s"
  "sm_dir s \<noteq> currentPath s" "sm_dir s \<noteq> currentTmp s" "sm_dir s \<noteq> slotDir s a"
  "sm_dir s \<noteq> slotDir s a @ [n]" "slotDir s a @ [n] \<noteq> sm_dir s" "slotDir s a \<noteq> slotDir s b @ [n]"
  "slotDir s b @ [n] \<noteq> slotDir s a"
  by (auto simp: slotDir_def currentPath_def currentTmp_def slot_names)

lemma butlast_paths [simp]:
  "butlast (slotDir s a @ [n]) = slotDir s a" "butlast (currentPath s) = sm_dir s"
  "butlast (currentTmp s) = sm_dir s"
  by (simp_all add: currentPath_def currentTmp_def)

lemma paths_nonempty [simp]: "currentPath s \<noteq> []" "currentTmp s \<noteq> []" "slotDir s a \<noteq> []"
  by (simp_all add: currentPath_def currentTmp_def slotDir_def)

lemma Base_slot [simp]: "Base ''slotA'' = ''slotA''" "Base ''slotB'' = ''slotB''"
  by (simp_all add: Base_def)

lemma TrimPrefix_slot [simp]: "TrimPrefix ''slotA'' ''slot'' = ''A''" "TrimPrefix ''slotB'' ''slot'' = ''B''"
  by (simp_all add: TrimPrefix_def HasPrefix_def)

lemma marker_distinct [simp]:
  "confirmedMarker \<noteq> pendingMarker" "pendingMarker \<noteq> confirmedMarker"
  "confirmedMarker \<noteq> versionFile" "versionFile \<noteq> confirmedMarker"
  "confirmedMarker \<noteq> checksumFile" "checksumFile \<noteq> confirmedMarker"
  "confirmedMarker \<noteq> firmwareFile" "firmwareFile \<noteq> confirmedMarker"
  "pendingMarker \<noteq> versionFile" "versionFile \<noteq> pendingMarker"
  "pendingMarker \<noteq> checksumFile" "checksumFile \<noteq> pendingMarker"
  "pendingMarker \<noteq> firmwareFile" "firmwareFile \<noteq> pendingMarker"
  "versionFile \<noteq> checksumFile" "checksumFile \<noteq> versionFile"
  "versionFile \<noteq> firmwareFile" "firmwareFile \<noteq> versionFile"
  "checksumFile \<noteq> firmwareFile" "firmwareFile \<noteq> checksumFile"
  by (simp_all add: slot_names)

lemma layout_active:
  assumes "layout s w"
  obtains a where "active_of s w = Some a" "a = ''A'' \<or> a = ''B''"
    "files w (currentPath s) = Some (Link (''slot'' @ a))"
proof -
  from assms have "files w (currentPath s) = Some (Link ''slotA'') \<or> files w (currentPath s) = Some (Link ''slotB'')"
    by (simp add: layout_def)
  then show thesis using that[of "''A''"] that[of "''B''"] by (auto simp: active_of_def)
qed

lemma not_in_slot [simp]: "\<not> in_slot s slot (currentPath s)" "\<not> in_slot s slot (currentTmp s)"
  "\<not> in_slot s slot (sm_dir s)" "\<not> in_slot s slot (slotDir s a)"
  "in_slot s slot (slotDir s a @ [n]) \<longleftrightarrow> a = slot"
  by (auto simp: in_slot_def)

lemma not_switch_path [simp]: "\<not> switch_path s (slotDir s a @ [n])" "\<not> switch_path s (slotDir s a)"
  "\<not> switch_path s (sm_dir s)" "switch_path s (currentPath s)" "switch_path s (currentTmp s)"
  by (auto simp: switch_path_def)

subsection \<open>Frames and the atomic flip\<close>

lemma wp_Active:
  assumes "\<And>w1 a. files w1 = files w \<Longrightarrow> fate_of w1 = fate_of w \<Longrightarrow> active_of s w = Some a \<Longrightarrow> Q (Inr a) w1"
    and "\<And>w1 e. files w1 = files w \<Longrightarrow> fate_of w1 = fate_of w
           \<Longrightarrow> \<not> reads_ok w \<or> active_of s w = None \<Longrightarrow> Q (Inl e) w1"
    and "\<And>w1. files w1 = files w \<Longrightarrow> fate_of w1 = fate_of w \<Longrightarrow> C w1"
  shows "wp (Active s) Q C w"
  unfolding Active_def wp_bindE os_defs
  by (intro wp_atomic_call) (auto intro!: assms simp: wp_rules active_of_def split: option.splits node.splits)

lemma wp_bindE_Active:
  assumes "\<And>w1 a. files w1 = files w \<Longrightarrow> fate_of w1 = fate_of w \<Longrightarrow> active_of s w = Some a \<Longrightarrow> wp (f a) Q C w1"
    and "\<And>w1 e. files w1 = files w \<Longrightarrow> fate_of w1 = fate_of w
           \<Longrightarrow> \<not> reads_ok w \<or> active_of s w = None \<Longrightarrow> Q (Inl e) w1"
    and "\<And>w1. files w1 = files w \<Longrightarrow> fate_of w1 = fate_of w \<Longrightarrow> C w1"
  shows "wp (bindE (Active s) f) Q C w"
  unfolding wp_bindE by (rule wp_Active) (auto intro: assms)

lemma keeps_Active [keeps_rules]: "keeps (frame S f e) (Active s)"
  unfolding Active_def by (intro keeps_rules)

text \<open>Programs that read the active slot first and then stay within a frame for that slot:\<close>

lemma Active_frame:
  assumes "\<And>a. active_of s w = Some a \<Longrightarrow> keeps (frame S (files w) (fate_of w)) (f a)"
  shows "frame S (files w) (fate_of w) (snd (bindE (Active s) f w))"
proof -
  let ?I = "frame S (files w) (fate_of w)"
  have "wp (bindE (Active s) f) (\<lambda>_. ?I) ?I w"
  proof (rule wp_bindE_Active)
    fix w1 :: world and a
    assume "files w1 = files w" "fate_of w1 = fate_of w" and a: "active_of s w = Some a"
    then have "?I w1" by (simp add: frame_def)
    with assms[OF a] show "wp (f a) (\<lambda>_. ?I) ?I w1"
      by (simp add: keeps_wp)
  qed (simp_all add: frame_def)
  then show ?thesis by (simp add: wp_snd)
qed

lemma Stage_frame:
  assumes "active_of s w = Some a"
  shows "frame (in_slot s (other a)) (files w) (fate_of w) (snd (Stage s src v c w))"
  unfolding Stage_def Let_def using assms
  by (intro Active_frame) (auto intro!: keeps_rules)

lemma switchTo_wp:
  "wp (switchTo s slot)
     (\<lambda>r w'. frame (switch_path s) (files w) (fate_of w) w' \<and>
        files w' (currentTmp s) \<in> {files w (currentTmp s), None, Some (Link (''slot'' @ slot))} \<and>
        files w' (currentPath s) \<in> {files w (currentPath s), Some (Link (''slot'' @ slot))} \<and>
        (r = Inr () \<longrightarrow> files w' (currentPath s) = Some (Link (''slot'' @ slot)) \<and> files w' (currentTmp s) = None))
     (\<lambda>w'. frame (switch_path s) (files w) (fate_of w) w' \<and>
        files w' (currentTmp s) \<in> {files w (currentTmp s), None, Some (Link (''slot'' @ slot))} \<and>
        files w' (currentPath s) \<in> {files w (currentPath s), Some (Link (''slot'' @ slot))}) w"
  unfolding switchTo_def wp_bindE wp_bindp
  by (intro wp_Remove) (auto intro!: wp_Symlink wp_Rename simp: frame_def)

subsection \<open>The layout is kept\<close>

lemma layout_set_node:
  "layout s w \<Longrightarrow> n = None \<or> is_file n \<Longrightarrow> layout s (set_node (slotDir s x @ [m]) n w)"
  by (auto simp: layout_def)

lemma layout_advance [simp]: "layout s (advance w) = layout s w"
  by (simp add: layout_def)

lemma layout_cong: "files w' = files w \<Longrightarrow> layout s w' = layout s w"
  by (simp add: layout_def)

lemma keeps_layout_reads [keeps_rules]:
  "keeps (layout s) (os_Readlink p)" "keeps (layout s) (os_Lstat p)"
  "keeps (layout s) (os_Stat p)" "keeps (layout s) (os_ReadFile p)" "keeps (layout s) (os_Open p)"
  by (auto simp: os_defs intro!: keeps_atomic_call)

lemma keeps_layout_entry [keeps_rules]:
  "keeps (layout s) (os_Create (slotDir s x @ [m]))"
  "keeps (layout s) (os_Remove (slotDir s x @ [m]))"
  by (auto simp: os_defs intro!: keeps_atomic_call layout_set_node split: option.splits node.splits)

lemma keeps_layout_write_call: "keeps (layout s) (write_call c (slotDir s x @ [m]) data)"
  by (auto simp: keeps_def write_call_def intro!: layout_set_node split: fault.splits)

lemma keeps_layout_refused: "keeps (layout s) (atomic_call c (Pair r))"
  by (auto intro!: keeps_atomic_call)

lemma keeps_layout_data [keeps_rules]:
  "keeps (layout s) (os_WriteFile (slotDir s x @ [m]) data)"
  "keeps (layout s) (os_Copy (slotDir s x @ [m]) src)"
  by (rule keepsI, auto simp: os_WriteFile_def os_Copy_def split: option.splits node.splits
      intro: keepsD[OF keeps_layout_write_call] keepsD[OF keeps_layout_refused])+

lemma keeps_layout_VerifySHA256 [keeps_rules]: "keeps (layout s) (VerifySHA256 h p want)"
  unfolding VerifySHA256_def Let_def by (intro keeps_rules)

lemma keeps_layout_Active [keeps_rules]: "keeps (layout s) (Active s)"
  unfolding Active_def by (intro keeps_rules)

lemma keeps_layout_Stage: "keeps (layout s) (Stage s src v c)"
  unfolding Stage_def Let_def by (intro keeps_rules)

lemma switchTo_switched: "switched s slot w (snd (switchTo s slot w))"
proof -
  have "wp (switchTo s slot) (\<lambda>_. switched s slot w) (switched s slot w) w"
    by (rule wp_mono[OF switchTo_wp]) (auto simp: switched_def)
  then show ?thesis by (simp add: wp_snd)
qed

lemma switched_entries: "switched s slot w w' \<Longrightarrow> files w' (slotDir s x @ [n]) = files w (slotDir s x @ [n])"
  by (simp add: switched_def frame_def)

lemma layout_switched: "layout s w \<Longrightarrow> slot = ''A'' \<or> slot = ''B'' \<Longrightarrow> switched s slot w w' \<Longrightarrow> layout s w'"
  by (auto simp: layout_def switched_def frame_def)

lemma keeps_layout_switchTo [keeps_rules]: "slot = ''A'' \<or> slot = ''B'' \<Longrightarrow> keeps (layout s) (switchTo s slot)"
  by (rule keepsI) (rule layout_switched[OF _ _ switchTo_switched])

lemma keeps_layout_rollback [keeps_rules]: "keeps (layout s) (rollback s x)"
  unfolding rollback_def by (intro keeps_rules other_in)

lemma keeps_layout_slots:
  "keeps (layout s) (VerifyStaged h s)" "keeps (layout s) (PromoteStaged s)"
  "keeps (layout s) (Rollback s)" "keeps (layout s) (SelfCheck h s)" "keeps (layout s) (Confirm s)"
  "keeps (layout s) (ActiveVersion s)" "keeps (layout s) (BootCheck s)"
  unfolding VerifyStaged_def PromoteStaged_def Rollback_def SelfCheck_def Confirm_def ActiveVersion_def BootCheck_def Let_def
  by (auto intro!: keeps_rules other_in split: sum.splits)

subsection \<open>Boot safety is kept\<close>

lemma boot_safe_alt:
  "boot_safe h s w \<longleftrightarrow> layout s w \<and> (confirmed s ''A'' w \<or> confirmed s ''B'' w) \<and>
     (\<forall>slot \<in> {''A'', ''B''}. confirmed s slot w \<longrightarrow> intact h s slot w)"
proof (cases "layout s w")
  case True
  then obtain a where "active_of s w = Some a" "a = ''A'' \<or> a = ''B''" by (rule layout_active)
  with True show ?thesis by (auto simp: boot_safe_def)
qed (simp add: boot_safe_def)

lemma slot_core_cong:
  "slot_core s x w' = slot_core s x w \<Longrightarrow> confirmed s x w' = confirmed s x w \<and> intact h s x w' = intact h s x w"
  by (simp add: slot_core_def confirmed_def intact_def hashes_to_def split: option.splits node.splits)

lemma boot_safe_core:
  "boot_safe h s w \<Longrightarrow> layout s w' \<Longrightarrow> (\<And>x. slot_core s x w' = slot_core s x w) \<Longrightarrow> boot_safe h s w'"
  using slot_core_cong[of s _ w' w h] by (auto simp: boot_safe_alt)

lemma slot_core_frame:
  "frame S (files w) e w' \<Longrightarrow> (\<And>n. n \<noteq> pendingMarker \<Longrightarrow> \<not> S (slotDir s x @ [n])) \<Longrightarrow> slot_core s x w' = slot_core s x w"
  by (simp add: slot_core_def frame_def)

lemma marker_path_simps [simp]:
  "marker_path s (currentPath s)" "marker_path s (currentTmp s)" "marker_path s (slotDir s x @ [pendingMarker])"
  "n \<noteq> pendingMarker \<Longrightarrow> \<not> marker_path s (slotDir s x @ [n])"
  by (auto simp: marker_path_def)

lemma boot_safe_markers:
  assumes "boot_safe h s w" "keeps (layout s) m" "\<And>f e. keeps (frame (marker_path s) f e) m"
  shows "boot_safe h s (snd (m w))"
proof (rule boot_safe_core[OF assms(1)])
  show "layout s (snd (m w))" using assms(1,2) by (auto simp: boot_safe_def keeps_def)
  have "frame (marker_path s) (files w) (fate_of w) (snd (m w))"
    using keepsD[OF assms(3)] by simp
  then show "slot_core s x (snd (m w)) = slot_core s x w" for x
    by (rule slot_core_frame) simp
qed

lemma keeps_markers_switchTo [keeps_rules]: "keeps (frame (marker_path s) f e) (switchTo s slot)"
  unfolding switchTo_def by (intro keeps_rules) simp_all

lemma keeps_markers_rollback [keeps_rules]: "keeps (frame (marker_path s) f e) (rollback s x)"
  unfolding rollback_def by (intro keeps_rules) simp_all

lemma keeps_markers:
  "keeps (frame (marker_path s) f e) (VerifyStaged h s)" "keeps (frame (marker_path s) f e) (PromoteStaged s)"
  "keeps (frame (marker_path s) f e) (Rollback s)" "keeps (frame (marker_path s) f e) (SelfCheck h s)"
  "keeps (frame (marker_path s) f e) (ActiveVersion s)" "keeps (frame (marker_path s) f e) (BootCheck s)"
  unfolding VerifyStaged_def PromoteStaged_def Rollback_def SelfCheck_def ActiveVersion_def BootCheck_def Let_def
  by (auto intro!: keeps_rules split: sum.splits)

lemma boot_safe_keeps:
  "keeps (boot_safe h s) (VerifyStaged h' s)" "keeps (boot_safe h s) (PromoteStaged s)"
  "keeps (boot_safe h s) (Rollback s)" "keeps (boot_safe h s) (SelfCheck h' s)"
  "keeps (boot_safe h s) (ActiveVersion s)" "keeps (boot_safe h s) (BootCheck s)"
  by (auto intro!: keepsI boot_safe_markers keeps_layout_slots keeps_markers)

subsection \<open>Staging and confirming\<close>

lemma layout_slot_file: "layout s w \<Longrightarrow> x = ''A'' \<or> x = ''B'' \<Longrightarrow> files w (slotDir s x @ [n]) = None \<or> is_file (files w (slotDir s x @ [n]))"
  by (auto simp: layout_def)

text \<open>Once the confirmed marker is gone, staging cannot bring it back.\<close>

lemma Stage_unconfirms:
  assumes lay: "layout s w" and a: "active_of s w = Some a" and ul: "unlinks_ok w"
  shows "(\<forall>p. in_slot s (other a) p \<longrightarrow> files (snd (Stage s src v c w)) p = files w p)
       \<or> \<not> confirmed s (other a) (snd (Stage s src v c w))"
proof -
  let ?x = "other a"
  let ?P = "\<lambda>w'. (\<forall>p. in_slot s ?x p \<longrightarrow> files w' p = files w p) \<or> \<not> confirmed s ?x w'"
  let ?I = "\<lambda>f e. frame (\<lambda>p. p \<noteq> slotDir s ?x @ [confirmedMarker]) f e"
  have x: "?x = ''A'' \<or> ?x = ''B''" by (rule other_in)
  have gone: "wp m (\<lambda>_. ?P) ?P w1" if "files w1 (slotDir s ?x @ [confirmedMarker]) = None"
    and "keeps (?I (files w1) (fate_of w1)) m" for m :: "(go_error + unit) prog" and w1
  proof -
    have "?I (files w1) (fate_of w1) (snd (m w1))" using keepsD[OF that(2)] by simp
    then have "files (snd (m w1)) (slotDir s ?x @ [confirmedMarker]) = None"
      using that(1) by (simp add: frame_def)
    then show ?thesis by (simp add: wp_snd confirmed_def)
  qed
  have "wp (Stage s src v c) (\<lambda>_. ?P) ?P w"
    unfolding Stage_def Let_def
  proof (rule wp_bindE_Active)
    fix w1 :: world and b
    assume w1: "files w1 = files w" "fate_of w1 = fate_of w" and b: "active_of s w = Some b"
    then have [simp]: "b = a" using a by simp
    have "unlinks_ok w1" using ul w1 by (simp add: unlinks_ok_def)
    have nd: "files w1 (slotDir s ?x @ [confirmedMarker]) \<noteq> Some Dir"
      using layout_slot_file[OF lay x, of confirmedMarker] w1 by auto
    show "wp (bindp (os_Remove (slotDir s (other b) @ [confirmedMarker]))
         (\<lambda>_. bindp (os_Remove (slotDir s (other b) @ [pendingMarker])) (\<lambda>_.
           bindE (os_Open src) (\<lambda>_. bindE (os_Create (slotDir s (other b) @ [firmwareFile])) (\<lambda>_.
           bindE (os_Copy (slotDir s (other b) @ [firmwareFile]) src) (\<lambda>_.
           bindE (os_WriteFile (slotDir s (other b) @ [versionFile]) v) (\<lambda>_.
           os_WriteFile (slotDir s (other b) @ [checksumFile]) c))))))) (\<lambda>_. ?P) ?P w1"
      unfolding wp_bindp[of "os_Remove (slotDir s (other b) @ [confirmedMarker])"]
      by (rule wp_Remove) (use nd \<open>unlinks_ok w1\<close> w1 in \<open>auto intro!: gone keeps_rules\<close>)
  qed auto
  then show ?thesis by (simp add: wp_snd)
qed

lemma Stage_boot_safe:
  assumes safe: "boot_safe h s w" and a: "active_of s w = Some a" "confirmed s a w" and ul: "unlinks_ok w"
  shows "boot_safe h s (snd (Stage s src v c w))"
proof -
  let ?w = "snd (Stage s src v c w)"
  from safe have lay: "layout s w" by (simp add: boot_safe_def)
  then have lay': "layout s ?w" by (rule keepsD[OF keeps_layout_Stage])
  have fr: "frame (in_slot s (other a)) (files w) (fate_of w) ?w" by (rule Stage_frame[OF a(1)])
  have aAB: "a = ''A'' \<or> a = ''B''" using layout_active[OF lay] a(1) by auto
  have core: "slot_core s a ?w = slot_core s a w"
    by (rule slot_core_frame[OF fr]) (simp add: other_neq[symmetric])
  have "slot_core s (other a) ?w = slot_core s (other a) w \<or> \<not> confirmed s (other a) ?w"
    using Stage_unconfirms[OF lay a(1) ul, of src v c] by (auto simp: slot_core_def)
  with core aAB safe a(2) slot_core_cong[of s _ ?w w h] show ?thesis
    unfolding boot_safe_alt using lay' by auto
qed

lemma SelfCheck_intact:
  "wp (SelfCheck h s) (\<lambda>r w'. files w' = files w \<and> fate_of w' = fate_of w \<and>
     (r = Inr () \<longrightarrow> (\<exists>a. active_of s w = Some a \<and> intact h s a w)))
     (\<lambda>w'. files w' = files w \<and> fate_of w' = fate_of w) w"
  unfolding SelfCheck_def wp_bindE wp_bindp Let_def
  by (rule wp_Active) (auto intro!: wp_ReadFile wp_VerifySHA256 simp: wp_rules intact_def hashes_to_def)

lemma Confirm_boot_safe:
  assumes safe: "boot_safe h s w" and a: "active_of s w = Some a" "intact h s a w"
  shows "boot_safe h s (snd (Confirm s w))"
proof -
  let ?w = "snd (Confirm s w)"
  from safe have lay: "layout s w" by (simp add: boot_safe_def)
  have lay': "layout s ?w" using keepsD[OF keeps_layout_slots(5) lay] .
  have aAB: "a = ''A'' \<or> a = ''B''" using layout_active[OF lay] a(1) by auto
  let ?S = "\<lambda>p. p = slotDir s a @ [confirmedMarker] \<or> p = slotDir s a @ [pendingMarker]"
  have fr: "frame ?S (files w) (fate_of w) ?w"
    unfolding Confirm_def Let_def using a(1) by (intro Active_frame) (auto intro!: keeps_rules)
  have "wp (Confirm s) (\<lambda>_ w'. confirmed s a w \<longrightarrow> confirmed s a w') (\<lambda>w'. confirmed s a w \<longrightarrow> confirmed s a w') w"
    unfolding Confirm_def Let_def wp_bindE
    by (rule wp_Active) (auto intro!: wp_WriteFile wp_Remove simp: confirmed_def a(1))
  then have keep: "confirmed s a w \<longrightarrow> confirmed s a ?w" by (simp add: wp_snd)
  have "intact h s a ?w" using a(2) fr by (simp add: intact_def hashes_to_def frame_def split: option.splits node.splits)
  moreover have "slot_core s (other a) ?w = slot_core s (other a) w"
    using fr by (simp add: slot_core_def frame_def other_neq)
  ultimately show ?thesis
    using aAB safe slot_core_cong[of s _ ?w w h] lay' keep unfolding boot_safe_alt by auto
qed

subsection \<open>Behaviour when every call succeeds\<close>

lemma wp_Active_all_ok [wp_rules]:
  "all_ok w \<Longrightarrow> active_of s w = Some a \<Longrightarrow> wp (Active s) Q C w = Q (Inr a) (advance w)"
  by (auto simp: Active_def os_defs wp_rules active_of_def split: option.splits node.splits)

lemma active_of_step [simp]:
  "active_of s (advance w) = active_of s w"
  "active_of s (set_node (slotDir s x @ [n]) m w) = active_of s w"
  "active_of s (set_node (currentTmp s) m w) = active_of s w"
  by (simp_all add: active_of_def)

lemma layout_dirs:
  "layout s w \<Longrightarrow> files w (sm_dir s) = Some Dir"
  "layout s w \<Longrightarrow> x = ''A'' \<or> x = ''B'' \<Longrightarrow> files w (slotDir s x) = Some Dir"
  by (auto simp: layout_def)

lemma layout_entry_cases:
  assumes "layout s w" "x = ''A'' \<or> x = ''B''"
  obtains "files w (slotDir s x @ [n]) = None" | d where "files w (slotDir s x @ [n]) = Some (File d)"
  using layout_slot_file[OF assms, of n] by (cases "files w (slotDir s x @ [n])" rule: is_file.cases) auto

lemma wp_Remove_all_ok:
  "all_ok w \<Longrightarrow> files w p \<noteq> Some Dir \<Longrightarrow> (\<And>r w1. files w1 = (files w)(p := None) \<Longrightarrow> all_ok w1
     \<Longrightarrow> (files w p \<noteq> None \<Longrightarrow> r = Inr ()) \<Longrightarrow> Q r w1) \<Longrightarrow> wp (os_Remove p) Q C w"
  by (auto simp: os_Remove_def wp_rules fun_upd_idem split: option.splits node.splits)

lemma wp_WriteFile_all_ok:
  "all_ok w \<Longrightarrow> parent_ok p w \<Longrightarrow> files w p = None \<or> is_file (files w p)
     \<Longrightarrow> (\<And>w1. files w1 = (files w)(p \<mapsto> File d) \<Longrightarrow> all_ok w1 \<Longrightarrow> Q (Inr ()) w1) \<Longrightarrow> wp (os_WriteFile p d) Q C w"
  by (auto simp: os_WriteFile_def wp_def write_call_def atomic_call_def split: option.splits node.splits)

lemma wp_Create_all_ok:
  "all_ok w \<Longrightarrow> parent_ok p w \<Longrightarrow> files w p = None \<or> is_file (files w p)
     \<Longrightarrow> (\<And>w1. files w1 = (files w)(p \<mapsto> File []) \<Longrightarrow> all_ok w1 \<Longrightarrow> Q (Inr ()) w1) \<Longrightarrow> wp (os_Create p) Q C w"
  by (auto simp: os_Create_def wp_rules split: option.splits node.splits)

lemma wp_Open_all_ok:
  "all_ok w \<Longrightarrow> is_file (files w p) \<Longrightarrow> (\<And>w1. files w1 = files w \<Longrightarrow> all_ok w1 \<Longrightarrow> Q (Inr ()) w1)
     \<Longrightarrow> wp (os_Open p) Q C w"
  by (auto simp: os_Open_def wp_rules split: option.splits node.splits)

lemma wp_Copy_all_ok:
  "all_ok w \<Longrightarrow> files w src = Some (File d)
     \<Longrightarrow> (\<And>w1. files w1 = (files w)(p \<mapsto> File d) \<Longrightarrow> all_ok w1 \<Longrightarrow> Q (Inr ()) w1) \<Longrightarrow> wp (os_Copy p src) Q C w"
  by (auto simp: os_Copy_def wp_def write_call_def)

lemma parent_ok_slot: "layout s w \<Longrightarrow> x = ''A'' \<or> x = ''B'' \<Longrightarrow> files w1 (slotDir s x) = files w (slotDir s x)
    \<Longrightarrow> parent_ok (slotDir s x @ [n]) w1"
  by (auto simp: parent_ok_def layout_def)

lemma Stage_all_ok:
  assumes ok: "all_ok w" "layout s w" "active_of s w = Some a"
    and src: "files w src = Some (File data)" "\<not> in_slot s (other a) src"
  shows "wp (Stage s src v c) (\<lambda>r w'. r = Inr () \<and> all_ok w' \<and> files w' =
      (files w)(slotDir s (other a) @ [confirmedMarker] := None,
                slotDir s (other a) @ [pendingMarker] := None,
                slotDir s (other a) @ [firmwareFile] \<mapsto> File data,
                slotDir s (other a) @ [versionFile] \<mapsto> File v,
                slotDir s (other a) @ [checksumFile] \<mapsto> File c)) (\<lambda>_. False) w"
proof -
  have x: "other a = ''A'' \<or> other a = ''B''" by (rule other_in)
  have ne: "src \<noteq> slotDir s (other a) @ [n]" for n using src(2) by (auto simp: in_slot_def)
  have f: "files w (slotDir s (other a) @ [n]) = None \<or> is_file (files w (slotDir s (other a) @ [n]))" for n
    by (rule layout_slot_file[OF ok(2) x])
  have nd: "files w (slotDir s (other a) @ [n]) \<noteq> Some Dir" for n using f[of n] by (metis is_file.simps(3) option.simps(3))
  show ?thesis
    unfolding Stage_def Let_def wp_bindE
    apply (subst wp_Active_all_ok[OF ok(1,3)])
    apply (simp add: wp_bindp wp_bindE)
    apply (rule wp_Remove_all_ok, simp add: ok(1), simp add: nd)
    apply (rule wp_Remove_all_ok, assumption, simp add: nd)
    apply (rule wp_Open_all_ok, assumption, simp add: src ne)
    apply (simp add: wp_bindE)
    apply (rule wp_Create_all_ok, assumption, rule parent_ok_slot[OF ok(2) x], simp, use f in simp)
    apply (simp add: wp_bindE)
    apply (rule wp_Copy_all_ok[where d = data], assumption, simp add: src ne)
    apply (simp add: wp_bindE)
    apply (rule wp_WriteFile_all_ok, assumption, rule parent_ok_slot[OF ok(2) x], simp, use f in simp)
    apply (simp add: wp_bindE)
    apply (rule wp_WriteFile_all_ok, assumption, rule parent_ok_slot[OF ok(2) x], simp, use f in simp)
    apply (simp add: fun_upd_twist)
    done
qed

lemma switchTo_all_ok:
  assumes ok: "all_ok w" "layout s w"
  shows "wp (switchTo s x) (\<lambda>r w'. r = Inr () \<and> all_ok w' \<and>
     files w' = (files w)(currentTmp s := None, currentPath s \<mapsto> Link (''slot'' @ x))) (\<lambda>_. False) w"
proof -
  have tmp: "files w (currentTmp s) \<noteq> Some Dir" and cur: "files w (currentPath s) \<noteq> Some Dir"
    and dir: "files w (sm_dir s) = Some Dir"
    using ok(2) by (auto simp: layout_def)
  show ?thesis
    unfolding switchTo_def wp_bindp wp_bindE
    apply (rule wp_Remove_all_ok[OF ok(1) tmp])
    apply (use dir cur in \<open>auto simp: os_Symlink_def os_Rename_def wp_rules parent_ok_def fun_upd_twist
       split: option.splits node.splits\<close>)
    done
qed

lemma all_ok_layout_step:
  "layout s w \<Longrightarrow> files w1 = (files w)(slotDir s x @ [n] := m) \<Longrightarrow> m = None \<or> is_file m \<Longrightarrow> layout s w1"
  using layout_set_node[of s w m x n] layout_cong[of w1 "set_node (slotDir s x @ [n]) m w" s] by simp

lemma PromoteStaged_all_ok:
  assumes ok: "all_ok w" "layout s w" "active_of s w = Some a"
  shows "wp (PromoteStaged s) (\<lambda>r w'. r = Inr (other a) \<and> all_ok w' \<and> files w' =
      (files w)(slotDir s (other a) @ [pendingMarker] \<mapsto> File ''0'',
                currentTmp s := None, currentPath s \<mapsto> Link (''slot'' @ other a))) (\<lambda>_. False) w"
proof -
  have x: "other a = ''A'' \<or> other a = ''B''" by (rule other_in)
  have f: "files w (slotDir s (other a) @ [n]) = None \<or> is_file (files w (slotDir s (other a) @ [n]))" for n
    by (rule layout_slot_file[OF ok(2) x])
  show ?thesis
    unfolding PromoteStaged_def Let_def wp_bindE
    apply (subst wp_Active_all_ok[OF ok(1,3)])
    apply (simp add: wp_bindE)
    apply (rule wp_WriteFile_all_ok, simp add: ok(1), rule parent_ok_slot[OF ok(2) x], simp, use f in simp)
    apply (simp add: wp_bindE)
    apply (rule wp_mono[OF switchTo_all_ok], assumption)
    apply (rule all_ok_layout_step[OF ok(2)], simp, simp)
    apply (auto simp: wp_retp)
    done
qed

lemma rollback_all_ok:
  assumes ok: "all_ok w" "layout s w" and x: "x = ''A'' \<or> x = ''B''"
  shows "wp (rollback s x) (\<lambda>r w'. r = Inr () \<and> all_ok w' \<and> files w' =
      (files w)(slotDir s x @ [pendingMarker] := None, currentTmp s := None,
                currentPath s \<mapsto> Link (''slot'' @ other x))) (\<lambda>_. False) w"
proof -
  have nd: "files w (slotDir s x @ [pendingMarker]) \<noteq> Some Dir"
    using layout_slot_file[OF ok(2) x, of pendingMarker] by auto
  show ?thesis
    unfolding rollback_def wp_bindp
    apply (rule wp_Remove_all_ok[OF ok(1) nd])
    apply (rule wp_mono[OF switchTo_all_ok], assumption)
    apply (rule all_ok_layout_step[OF ok(2)], simp, simp)
    apply auto
    done
qed

lemma wp_ReadFile_all_ok [wp_rules]:
  "all_ok w \<Longrightarrow> files w p = Some (File c) \<Longrightarrow> wp (os_ReadFile p) Q C w = Q (Inr c) (advance w)"
  "all_ok w \<Longrightarrow> files w p = None \<Longrightarrow> wp (os_ReadFile p) Q C w = Q (Inl NotExist) (advance w)"
  by (auto simp: os_ReadFile_def wp_atomic_call_all_ok)

lemma wp_Stat_all_ok [wp_rules]:
  "all_ok w \<Longrightarrow> files w p = Some (File c) \<Longrightarrow> wp (os_Stat p) Q C w = Q (Inr (length c)) (advance w)"
  "all_ok w \<Longrightarrow> files w p = None \<Longrightarrow> wp (os_Stat p) Q C w = Q (Inl NotExist) (advance w)"
  by (auto simp: os_Stat_def wp_atomic_call_all_ok)

text \<open>The three answers of the boot check.\<close>

lemma BootCheck_normal:
  assumes "all_ok w" "active_of s w = Some a" "confirmed s a w"
  shows "BootCheck s w = (Done (BootNormal, None), advance (advance w))"
proof -
  obtain c where "files w (slotDir s a @ [confirmedMarker]) = Some (File c)"
    using assms(3) by (cases "files w (slotDir s a @ [confirmedMarker])" rule: is_file.cases) (auto simp: confirmed_def)
  then have "wp (BootCheck s) (\<lambda>r w'. r = (BootNormal, None) \<and> w' = advance (advance w)) (\<lambda>_. False) w"
    using assms by (simp add: BootCheck_def wp_rules Let_def)
  then show ?thesis by (auto simp: wp_def split: prod.splits outcome.splits)
qed

lemma BootCheck_trial:
  assumes ok: "all_ok w" "layout s w" "active_of s w = Some a" "\<not> confirmed s a w"
    and p: "files w (slotDir s a @ [pendingMarker]) = Some (File b)" "Atoi (TrimSpace b) < 1"
  shows "wp (BootCheck s) (\<lambda>r w'. r = (BootTrial, None) \<and> all_ok w' \<and> files w' =
      (files w)(slotDir s a @ [pendingMarker] \<mapsto> File (Itoa (Atoi (TrimSpace b) + 1)))) (\<lambda>_. False) w"
proof -
  have a: "a = ''A'' \<or> a = ''B''" using layout_active[OF ok(2)] ok(3) by auto
  then have n: "files w (slotDir s a @ [confirmedMarker]) = None"
    using layout_slot_file[OF ok(2) a, of confirmedMarker] ok(4) by (auto simp: confirmed_def)
  have d: "parent_ok (slotDir s a @ [pendingMarker]) w" by (rule parent_ok_slot[OF ok(2) a]) simp
  show ?thesis
    unfolding BootCheck_def using ok n p
    apply (simp add: wp_rules Let_def not_le)
    apply (rule wp_WriteFile_all_ok)
    using d by (auto simp: wp_retp parent_ok_def)
qed

lemma BootCheck_rolled_back:
  assumes ok: "all_ok w" "layout s w" "active_of s w = Some a" "\<not> confirmed s a w"
    and p: "\<And>b. files w (slotDir s a @ [pendingMarker]) = Some (File b) \<Longrightarrow> Atoi (TrimSpace b) \<ge> 1"
  shows "wp (BootCheck s) (\<lambda>r w'. r = (BootRolledBack, None) \<and> all_ok w' \<and> files w' =
      (files w)(slotDir s a @ [pendingMarker] := None, currentTmp s := None,
                currentPath s \<mapsto> Link (''slot'' @ other a))) (\<lambda>_. False) w"
proof -
  have a: "a = ''A'' \<or> a = ''B''" using layout_active[OF ok(2)] ok(3) by auto
  then have n: "files w (slotDir s a @ [confirmedMarker]) = None"
    using layout_slot_file[OF ok(2) a, of confirmedMarker] ok(4) by (auto simp: confirmed_def)
  have rb: "wp (rollback s a) (\<lambda>r. wp (retp (BootRolledBack, err_of r)) (\<lambda>r w'. r = (BootRolledBack, None) \<and> all_ok w' \<and> files w' =
      (files w)(slotDir s a @ [pendingMarker] := None, currentTmp s := None,
                currentPath s \<mapsto> Link (''slot'' @ other a))) (\<lambda>_. False)) (\<lambda>_. False) (advance (advance (advance w)))"
    by (rule wp_mono[OF rollback_all_ok[OF _ _ a]]) (use ok in \<open>auto simp: wp_retp\<close>)
  show ?thesis
  proof (cases rule: layout_entry_cases[OF ok(2) a, of pendingMarker])
    case 1
    then show ?thesis unfolding BootCheck_def using ok n rb by (simp add: wp_rules Let_def)
  next
    case (2 d)
    with p show ?thesis unfolding BootCheck_def using ok n rb by (simp add: wp_rules Let_def)
  qed
qed

lemma Confirm_all_ok:
  assumes ok: "all_ok w" "layout s w" "active_of s w = Some a"
    and p: "is_file (files w (slotDir s a @ [pendingMarker]))"
  shows "wp (Confirm s) (\<lambda>r w'. r = Inr () \<and> all_ok w' \<and> files w' =
      (files w)(slotDir s a @ [confirmedMarker] \<mapsto> File [], slotDir s a @ [pendingMarker] := None)) (\<lambda>_. False) w"
proof -
  have a: "a = ''A'' \<or> a = ''B''" using layout_active[OF ok(2)] ok(3) by auto
  have f: "files w (slotDir s a @ [n]) = None \<or> is_file (files w (slotDir s a @ [n]))" for n
    by (rule layout_slot_file[OF ok(2) a])
  show ?thesis
    unfolding Confirm_def Let_def wp_bindE
    apply (subst wp_Active_all_ok[OF ok(1,3)])
    apply (simp add: wp_bindE)
    apply (rule wp_WriteFile_all_ok, simp add: ok(1), rule parent_ok_slot[OF ok(2) a], simp, use f in simp)
    apply (simp add: wp_bindE)
    apply (rule wp_Remove_all_ok, assumption)
    using p by (auto elim: is_file.elims)
qed

lemma SelfCheck_all_ok:
  assumes "all_ok w" "active_of s w = Some a" "files w (slotDir s a @ [checksumFile]) = Some (File want)"
  shows "wp (SelfCheck h s) (\<lambda>r w'. files w' = files w \<and> all_ok w' \<and>
     (r = Inr () \<longleftrightarrow> hashes_to h (slotDir s a @ [firmwareFile]) (TrimSpace want) w)) (\<lambda>_. False) w"
  unfolding SelfCheck_def Let_def using assms
  by (simp add: wp_rules) (rule wp_mono[OF VerifySHA256_all_ok]; auto simp: hashes_to_def all_ok_def)

lemma VerifyStaged_all_ok:
  assumes "all_ok w" "active_of s w = Some a" "files w (slotDir s (other a) @ [checksumFile]) = Some (File want)"
  shows "wp (VerifyStaged h s) (\<lambda>r w'. files w' = files w \<and> all_ok w' \<and>
     (r = Inr () \<longleftrightarrow> hashes_to h (slotDir s (other a) @ [firmwareFile]) (TrimSpace want) w)) (\<lambda>_. False) w"
  unfolding VerifyStaged_def Let_def using assms
  by (simp add: wp_rules) (rule wp_mono[OF VerifySHA256_all_ok]; auto simp: hashes_to_def all_ok_def)

subsection \<open>Factory initialisation\<close>

lemma slotDir_prefixes: "set (prefixes (slotDir s x)) = insert (slotDir s x) (set (prefixes (sm_dir s)))"
  by (auto simp: slotDir_def in_set_prefixes)

lemma not_prefix_dir [simp]:
  "sm_dir s @ [n] \<notin> set (prefixes (sm_dir s))" "sm_dir s @ [n, m] \<notin> set (prefixes (sm_dir s))"
  by (auto simp: in_set_prefixes prefix_def)

lemma not_prefix_slot [simp]:
  "currentPath s \<notin> set (prefixes (sm_dir s))" "currentTmp s \<notin> set (prefixes (sm_dir s))"
  "slotDir s x \<notin> set (prefixes (sm_dir s))" "slotDir s x @ [n] \<notin> set (prefixes (sm_dir s))"
  "sm_dir s \<in> set (prefixes (sm_dir s))"
  by (simp_all add: currentPath_def currentTmp_def slotDir_def)

lemma wp_MkdirAll:
  assumes "\<And>w1. files w1 = (\<lambda>q. if q \<in> set (prefixes p) then Some Dir else files w q) \<Longrightarrow> fate_of w1 = fate_of w \<Longrightarrow> Q (Inr ()) w1"
    and "\<And>w1 e. files w1 = files w \<Longrightarrow> fate_of w1 = fate_of w \<Longrightarrow> Q (Inl e) w1"
    and "\<And>w1. files w1 = files w \<Longrightarrow> fate_of w1 = fate_of w \<Longrightarrow> C w1"
  shows "wp (os_MkdirAll p) Q C w"
  unfolding os_MkdirAll_def
  by (rule wp_atomic_call) (auto intro!: assms(1) assms(2) assms(3) simp del: in_set_prefixes)

lemma wp_switchTo:
  assumes "\<And>w'. switched s slot w w' \<Longrightarrow> files w' (currentPath s) = Some (Link (''slot'' @ slot)) \<Longrightarrow> Q (Inr ()) w'"
    and "\<And>w' e. switched s slot w w' \<Longrightarrow> Q (Inl e) w'"
    and "\<And>w'. switched s slot w w' \<Longrightarrow> C w'"
  shows "wp (switchTo s slot) Q C w"
proof (rule wp_mono[OF switchTo_wp], goal_cases)
  case (1 r w')
  then have "switched s slot w w'" by (simp add: switched_def)
  with 1 assms show ?case by (cases r) auto
next
  case (2 w')
  then have "switched s slot w w'" by (simp add: switched_def)
  then show ?case by (rule assms(3))
qed

lemma wp_WriteFile_no_rot:
  assumes "no_rot w"
    and "\<And>w1. files w1 = (files w)(p \<mapsto> File d) \<Longrightarrow> fate_of w1 = fate_of w \<Longrightarrow> Q (Inr ()) w1"
    and "\<And>w1 e n. files w1 = (files w)(p := n) \<Longrightarrow> fate_of w1 = fate_of w \<Longrightarrow> n = files w p \<or> is_file n \<Longrightarrow> Q (Inl e) w1"
    and "\<And>w1 n. files w1 = (files w)(p := n) \<Longrightarrow> fate_of w1 = fate_of w \<Longrightarrow> n = files w p \<or> is_file n \<Longrightarrow> C w1"
  shows "wp (os_WriteFile p d) Q C w"
  using assms(2)[of "set_node p _ (advance w)"]
    assms(3)[of "advance w" "files w p"] assms(3)[of "set_node p _ (advance w)"]
    assms(4)[of "advance w" "files w p"] assms(4)[of "set_node p _ (advance w)"] assms(1)
  by (auto simp: no_rot_def fate_def wp_def os_WriteFile_def atomic_call_def write_call_def split: fault.splits option.splits node.splits)

lemma wp_Lstat:
  assumes "\<And>w1 n. files w1 = files w \<Longrightarrow> fate_of w1 = fate_of w \<Longrightarrow> files w p = Some n \<Longrightarrow> Q (Inr n) w1"
    and "\<And>w1. files w1 = files w \<Longrightarrow> fate_of w1 = fate_of w \<Longrightarrow> files w p = None \<Longrightarrow> Q (Inl NotExist) w1"
    and "\<And>w1. files w1 = files w \<Longrightarrow> fate_of w1 = fate_of w \<Longrightarrow> \<not> reads_ok w \<Longrightarrow> Q (Inl IOError) w1"
    and "\<And>w1. files w1 = files w \<Longrightarrow> fate_of w1 = fate_of w \<Longrightarrow> C w1"
  shows "wp (os_Lstat p) Q C w"
  unfolding os_Lstat_def
  by (intro wp_atomic_call) (auto intro!: assms split: option.splits)

lemma factory_boot_safe:
  assumes "files w (sm_dir s) = Some Dir" "files w (slotDir s ''A'') = Some Dir" "files w (slotDir s ''B'') = Some Dir"
    "\<And>n. files w (slotDir s ''B'' @ [n]) = None"
    "\<And>n. files w (slotDir s ''A'' @ [n]) = None \<or> n \<in> {versionFile, confirmedMarker} \<and> is_file (files w (slotDir s ''A'' @ [n]))"
    "files w (slotDir s ''A'' @ [versionFile]) = Some (File ''factory'')" "confirmed s ''A'' w"
    "files w (currentPath s) = Some (Link ''slotA'')" "files w (currentTmp s) \<in> {None, Some (Link ''slotA'')}"
  shows "boot_safe h s w \<and> active_of s w = Some ''A''"
proof -
  have "files w (slotDir s ''A'' @ [checksumFile]) = None" using assms(5)[of checksumFile] by auto
  moreover have "\<not> confirmed s ''B'' w" by (simp add: confirmed_def assms(4))
  moreover have "files w (slotDir s ''A'' @ [n]) = None \<or> is_file (files w (slotDir s ''A'' @ [n]))" for n
    using assms(5)[of n] by blast
  ultimately show ?thesis
    using assms by (auto simp: boot_safe_alt layout_def intact_def active_of_def)
qed

text \<open>The steps after the factory files are in place: flip the link, or leave the directory unborn.\<close>

lemma factory_switched:
  assumes U: "unborn s w1" and D: "files w1 (sm_dir s) = Some Dir" "files w1 (slotDir s ''A'') = Some Dir" "files w1 (slotDir s ''B'') = Some Dir"
    and c: "confirmed s ''A'' w1" "files w1 (slotDir s ''A'' @ [versionFile]) = Some (File ''factory'')"
    and sw: "switched s ''A'' w1 w'"
  shows "files w' (currentPath s) = None \<and> unborn s w' \<or> boot_safe h s w' \<and> active_of s w' = Some ''A''"
proof -
  have e: "files w' (slotDir s x @ [n]) = files w1 (slotDir s x @ [n])" for x n by (rule switched_entries[OF sw])
  have d: "files w' p = files w1 p" if "\<not> switch_path s p" for p using sw that by (simp add: switched_def frame_def)
  have t: "files w' (currentTmp s) \<in> {None, Some (Link ''slotA'')}" using sw U by (auto simp: switched_def unborn_def)
  show ?thesis
  proof (cases "files w' (currentPath s) = None")
    case True
    have "files w' p = files w1 p" if "p \<in> set (prefixes (slotDir s x))" for p x
      using that d by (metis in_set_prefixes not_prefix_slot(1,2) path_distinct(3,4) slotDir_prefixes insertE switch_path_def)
    with True U t e show ?thesis by (simp add: unborn_def del: in_set_prefixes)
  next
    case False
    then have "files w' (currentPath s) = Some (Link ''slotA'')" using sw U by (auto simp: switched_def unborn_def)
    moreover have "confirmed s ''A'' w'" using c e by (simp add: confirmed_def)
    ultimately have "boot_safe h s w' \<and> active_of s w' = Some ''A''"
      using U t by (intro factory_boot_safe) (simp_all add: d D e c, auto simp: unborn_def)
    then show ?thesis ..
  qed
qed

lemma unborn_entry:
  "unborn s w1 \<Longrightarrow> n \<in> {versionFile, confirmedMarker} \<Longrightarrow> m = files w1 (slotDir s ''A'' @ [n]) \<or> is_file m
    \<Longrightarrow> files w' = (files w1)(slotDir s ''A'' @ [n] := m) \<Longrightarrow> unborn s w'"
  by (auto simp: unborn_def slotDir_prefixes simp del: in_set_prefixes)

lemma unborn_MkdirAll:
  "unborn s w1 \<Longrightarrow> x = ''A'' \<or> x = ''B'' \<Longrightarrow>
     files w' = (\<lambda>q. if q \<in> set (prefixes (slotDir s x)) then Some Dir else files w1 q) \<Longrightarrow> unborn s w'"
  by (auto simp: unborn_def slotDir_prefixes simp del: in_set_prefixes)

lemma unborn_cong: "files w' = files w \<Longrightarrow> unborn s w' = unborn s w"
  by (simp add: unborn_def)

lemma wp_bindE_factory_write:
  assumes "no_rot w" "unborn s w" "n \<in> {versionFile, confirmedMarker}"
    and "\<And>w1. files w1 = (files w)(slotDir s ''A'' @ [n] \<mapsto> File d) \<Longrightarrow> fate_of w1 = fate_of w \<Longrightarrow> unborn s w1 \<Longrightarrow> wp (f ()) Q C w1"
    and "\<And>w1 e. unborn s w1 \<Longrightarrow> Q (Inl e) w1" "\<And>w1. unborn s w1 \<Longrightarrow> C w1"
  shows "wp (bindE (os_WriteFile (slotDir s ''A'' @ [n]) d) f) Q C w"
  unfolding wp_bindE
proof (rule wp_WriteFile_no_rot[OF assms(1)], goal_cases)
  case (1 w1)
  with unborn_entry[OF assms(2,3), of "Some (File d)" w1] assms(4)[of w1] show ?case by simp
next
  case (2 w1 e m)
  with unborn_entry[OF assms(2,3) _ 2(1)] assms(5) show ?case by simp
next
  case (3 w1 m)
  with unborn_entry[OF assms(2,3) _ 3(1)] assms(6) show ?case by simp
qed

lemma wp_bindE_factory_dir:
  assumes U: "unborn s w" and x: "x = ''A'' \<or> x = ''B''"
    and go: "\<And>w1. unborn s w1 \<Longrightarrow> fate_of w1 = fate_of w \<Longrightarrow> files w1 (sm_dir s) = Some Dir \<Longrightarrow> files w1 (slotDir s x) = Some Dir
      \<Longrightarrow> files w1 (slotDir s (other x)) = files w (slotDir s (other x)) \<Longrightarrow> wp (f ()) Q C w1"
    and "\<And>w1 e. unborn s w1 \<Longrightarrow> Q (Inl e) w1" "\<And>w1. unborn s w1 \<Longrightarrow> C w1"
  shows "wp (bindE (os_MkdirAll (slotDir s x)) f) Q C w"
  unfolding wp_bindE
proof (rule wp_MkdirAll, goal_cases)
  case (1 w1)
  have "files w1 (sm_dir s) = Some Dir" "files w1 (slotDir s x) = Some Dir"
    "files w1 (slotDir s (other x)) = files w (slotDir s (other x))"
    using other_neq[of x] by (simp_all add: 1(1) slotDir_prefixes del: in_set_prefixes)
  with unborn_MkdirAll[OF U x 1(1)] go[of w1] 1(2) show ?case by simp
next
  case (2 w1 e)
  with U unborn_cong[OF 2(1)] assms(4) show ?case by simp
next
  case (3 w1)
  with U unborn_cong[OF 3(1)] assms(5) show ?case by simp
qed

lemma factory_state_unborn:
  assumes U: "unborn s w" and nr: "no_rot w"
    and d: "files w (sm_dir s) = Some Dir" "files w (slotDir s ''A'') = Some Dir" "files w (slotDir s ''B'') = Some Dir"
  shows "wp (factory_state s)
     (\<lambda>r w'. (unborn s w' \<or> boot_safe h s w') \<and> (r = Inr s \<longrightarrow> boot_safe h s w' \<and> active_of s w' = Some ''A''))
     (\<lambda>w'. unborn s w' \<or> boot_safe h s w') w"
  (is "wp _ ?Q ?C w")
proof -
  let ?V = "\<lambda>w'. unborn s w' \<and> fate_of w' = fate_of w \<and> files w' (sm_dir s) = Some Dir \<and>
              files w' (slotDir s ''A'') = Some Dir \<and> files w' (slotDir s ''B'') = Some Dir"
  have nr': "no_rot w1" if "fate_of w1 = fate_of w" for w1 using nr that by (simp add: no_rot_def)
  have final: "wp (bindE (switchTo s ''A'') (\<lambda>_. retp (Inr s))) ?Q ?C w1"
    if "?V w1" "confirmed s ''A'' w1" "files w1 (slotDir s ''A'' @ [versionFile]) = Some (File ''factory'')" for w1
  proof -
    have "files w' (currentPath s) = None \<and> unborn s w' \<or> boot_safe h s w' \<and> active_of s w' = Some ''A''"
      if "switched s ''A'' w1 w'" for w'
      using factory_switched[OF _ _ _ _ _ _ that] \<open>?V w1\<close> \<open>confirmed s ''A'' w1\<close>
        \<open>files w1 (slotDir s ''A'' @ [versionFile]) = _\<close> by blast
    then show ?thesis unfolding wp_bindE by (intro wp_switchTo) (fastforce simp: wp_retp)+
  qed
  have conf: "wp (bindE (os_WriteFile (slotDir s ''A'' @ [confirmedMarker]) []) (\<lambda>_. bindE (switchTo s ''A'') (\<lambda>_. retp (Inr s)))) ?Q ?C w1"
    if "?V w1" "files w1 (slotDir s ''A'' @ [versionFile]) = Some (File ''factory'')" for w1
    by (rule wp_bindE_factory_write) (use that nr' in \<open>simp_all add: final confirmed_def\<close>)
  show ?thesis unfolding factory_state_def
    by (rule wp_bindE_factory_write) (use assms nr' in \<open>simp_all add: conf\<close>)
qed

lemma NewSlotManager_unborn:
  assumes U: "unborn s w" and env: "reads_ok w" "no_rot w" and s: "s = \<lparr>sm_dir = dir\<rparr>"
  shows "wp (NewSlotManager dir)
     (\<lambda>r w'. (unborn s w' \<or> boot_safe h s w') \<and> (r = Inr s \<longrightarrow> boot_safe h s w' \<and> active_of s w' = Some ''A''))
     (\<lambda>w'. unborn s w' \<or> boot_safe h s w') w"
  (is "wp _ ?Q ?C w")
proof -
  have look: "wp (bindp (os_Lstat (currentPath s)) (\<lambda>r. if r = Inl NotExist then factory_state s else retp (Inr s))) ?Q ?C w1"
    if V: "unborn s w1" "fate_of w1 = fate_of w" "files w1 (sm_dir s) = Some Dir" "files w1 (slotDir s ''A'') = Some Dir" "files w1 (slotDir s ''B'') = Some Dir" for w1
    unfolding wp_bindp
  proof (rule wp_Lstat, goal_cases)
    case (1 w2 n)
    with that show ?case by (simp add: unborn_def)
  next
    case (2 w2)
    then have "unborn s w2" "no_rot w2" using unborn_cong[OF 2(1)] V env(2) by (simp_all add: no_rot_def)
    from factory_state_unborn[OF this, of h] 2 V show ?case by simp
  next
    case (3 w2)
    with that env(1) show ?case by (simp add: reads_ok_def)
  next
    case (4 w2)
    with that unborn_cong[OF 4(1)] show ?case by simp
  qed
  have dirB: "wp (bindE (os_MkdirAll (slotDir s ''B'')) (\<lambda>_. bindp (os_Lstat (currentPath s)) (\<lambda>r. if r = Inl NotExist then factory_state s else retp (Inr s)))) ?Q ?C w1"
    if "unborn s w1" "fate_of w1 = fate_of w" "files w1 (slotDir s ''A'') = Some Dir" for w1
    by (rule wp_bindE_factory_dir) (use that in \<open>simp_all add: look\<close>)
  show ?thesis
    unfolding NewSlotManager_def Let_def s[symmetric]
    by (rule wp_bindE_factory_dir) (use U in \<open>simp_all add: dirB\<close>)
qed

inductive_cases slot_stepE: "slot_step h s w w'"

lemma fate_of_bindE_Active:
  "(\<And>a. keeps (frame (\<lambda>_. True) f e) (g a)) \<Longrightarrow> keeps (frame (\<lambda>_. True) f e) (bindE (Active s) g)"
  by (intro keeps_rules)

lemma fate_of_slots:
  "fate_of (snd (Stage s src v c w)) = fate_of w" "fate_of (snd (VerifyStaged h s w)) = fate_of w"
  "fate_of (snd (PromoteStaged s w)) = fate_of w" "fate_of (snd (BootCheck s w)) = fate_of w"
  "fate_of (snd (SelfCheck h s w)) = fate_of w" "fate_of (snd (Confirm s w)) = fate_of w"
  "fate_of (snd (Rollback s w)) = fate_of w"
proof -
  have *: "fate_of (snd (m w)) = fate_of w" if "keeps (frame (\<lambda>_. True) (files w) (fate_of w)) m" for m :: "'a prog"
    using keepsD[OF that frame_refl] by (simp add: frame_def)
  have m: "fate_of (snd (m w)) = fate_of w" if "keeps (frame (marker_path s) (files w) (fate_of w)) m" for m :: "'a prog"
    using keepsD[OF that frame_refl] by (simp add: frame_def)
  show "fate_of (snd (Stage s src v c w)) = fate_of w"
    unfolding Stage_def Let_def by (rule *) (intro fate_of_bindE_Active keeps_rules, simp_all)
  show "fate_of (snd (Confirm s w)) = fate_of w"
    unfolding Confirm_def Let_def by (rule *) (intro fate_of_bindE_Active keeps_rules, simp_all)
  show "fate_of (snd (VerifyStaged h s w)) = fate_of w" "fate_of (snd (PromoteStaged s w)) = fate_of w"
    "fate_of (snd (BootCheck s w)) = fate_of w" "fate_of (snd (SelfCheck h s w)) = fate_of w" "fate_of (snd (Rollback s w)) = fate_of w"
    by (rule m, rule keeps_markers)+
qed

lemma unlinks_ok_cong: "fate_of w' = fate_of w \<Longrightarrow> unlinks_ok w' = unlinks_ok w"
  by (simp add: unlinks_ok_def)

lemma boot_safe_cong: "files w' = files w \<Longrightarrow> boot_safe h s w' = boot_safe h s w"
  by (simp add: boot_safe_alt layout_def confirmed_def intact_def hashes_to_def split: option.splits node.splits)

lemma intact_cong: "files w' = files w \<Longrightarrow> intact h s x w' = intact h s x w"
  by (simp add: intact_def hashes_to_def split: option.splits node.splits)

lemma slot_step_safe:
  assumes "slot_step h s w w'" "boot_safe h s w" "unlinks_ok w"
  shows "boot_safe h s w' \<and> unlinks_ok w'"
  using assms(1)
proof cases
  case (stage a src v c)
  with Stage_boot_safe[OF assms(2) _ _ assms(3)] assms(3) show ?thesis by (simp add: unlinks_ok_cong[OF fate_of_slots(1)])
next
  case (confirm w1)
  have w1: "files w1 = files w" "fate_of w1 = fate_of w" "\<exists>a. active_of s w = Some a \<and> intact h s a w"
    using wpD(1)[OF SelfCheck_intact confirm(2)] by auto
  then obtain a where "active_of s w1 = Some a" "intact h s a w1"
    using intact_cong[OF w1(1)] by (auto simp: active_of_def)
  with Confirm_boot_safe[of h s w1 a] confirm assms w1 show ?thesis
    using boot_safe_cong[OF w1(1)] by (simp add: unlinks_ok_cong[OF fate_of_slots(6)] unlinks_ok_cong[of w1 w])
next
  case (reboot e)
  with assms boot_safe_cong[of w' w h s] show ?thesis by simp
qed (use assms boot_safe_keeps[THEN keepsD, of h s w] in
  \<open>simp_all add: unlinks_ok_cong[OF fate_of_slots(2)] unlinks_ok_cong[OF fate_of_slots(3)]
    unlinks_ok_cong[OF fate_of_slots(4)] unlinks_ok_cong[OF fate_of_slots(5)] unlinks_ok_cong[OF fate_of_slots(7)]\<close>)

lemma demo_world_ok: "all_ok demo_world" "active_of demo_slots demo_world = Some ''A''" "confirmed demo_slots ''A'' demo_world"
  "unlinks_ok demo_world" "reads_ok demo_world" "no_rot demo_world"
  by (simp_all add: all_ok_def demo_world_def demo_slots_def active_of_def confirmed_def unlinks_ok_def reads_ok_def no_rot_def
      slotDir_def currentPath_def slot_names)

lemma demo_world_safe: "boot_safe h demo_slots demo_world"
  by (simp add: boot_safe_def layout_def intact_def active_of_def confirmed_def demo_world_def demo_slots_def
      slotDir_def currentPath_def currentTmp_def slot_names)

subsection \<open>Booting from a boot-safe store\<close>

lemma attempt_counts [simp]: "Itoa 1 = ''1''" "Atoi (TrimSpace ''0'') = 0" "Atoi (TrimSpace ''1'') = 1"
  by code_simp+

lemma runs_confirmedI:
  assumes "boot_safe h s w" "active_of s w = Some a" "confirmed s a w"
  shows "runs_confirmed h s w"
proof -
  have "a = ''A'' \<or> a = ''B''" using assms layout_active[of s w] by (auto simp: boot_safe_def)
  with assms show ?thesis by (auto simp: boot_safe_def runs_confirmed_def)
qed

lemma runs_confirmed_cong: "files w' = files w \<Longrightarrow> runs_confirmed h s w' = runs_confirmed h s w"
  using intact_cong[of w' w] by (simp add: runs_confirmed_def active_of_def confirmed_def)

lemma wp_BootCheck_normal:
  "all_ok w \<Longrightarrow> active_of s w = Some a \<Longrightarrow> confirmed s a w \<Longrightarrow>
     (\<And>w'. files w' = files w \<Longrightarrow> all_ok w' \<Longrightarrow> Q (BootNormal, None) w') \<Longrightarrow> wp (BootCheck s) Q C w"
  by (simp add: wp_def BootCheck_normal)

lemma wp_BootCheck_rolled_back:
  assumes "all_ok w" "boot_safe h s w" "active_of s w = Some a" "\<not> confirmed s a w"
    and "\<And>b. files w (slotDir s a @ [pendingMarker]) = Some (File b) \<Longrightarrow> Atoi (TrimSpace b) \<ge> 1"
    and Q: "\<And>w'. boot_safe h s w' \<Longrightarrow> all_ok w' \<Longrightarrow> runs_confirmed h s w' \<Longrightarrow> active_of s w' = Some (other a)
      \<Longrightarrow> Q (BootRolledBack, None) w'"
  shows "wp (BootCheck s) Q (\<lambda>_. False) w"
proof -
  have lay: "layout s w" using assms(2) by (simp add: boot_safe_def)
  have bc: "wp (BootCheck s) (\<lambda>r w'. r = (BootRolledBack, None) \<and> all_ok w' \<and> files w' =
      (files w)(slotDir s a @ [pendingMarker] := None, currentTmp s := None,
                currentPath s \<mapsto> Link (''slot'' @ other a))) (\<lambda>_. False) w"
    by (rule BootCheck_rolled_back[OF assms(1) lay assms(3,4)]) (rule assms(5))
  have safe': "wp (BootCheck s) (\<lambda>_. boot_safe h s) (boot_safe h s) w"
    using boot_safe_keeps(6)[of h s] assms(2) by (simp add: keeps_wp)
  have conf: "confirmed s (other a) w" using assms(2-4) by (auto simp: boot_safe_def)
  show ?thesis
  proof (rule wp_mono[OF wp_conj[OF bc safe']], goal_cases)
    case (1 r w')
    have "active_of s w' = Some (other a)" using 1 other_in[of a] by (auto simp: active_of_def)
    moreover from this have "runs_confirmed h s w'"
      using 1 conf other_neq[of a] by (intro runs_confirmedI[of h s w' "other a"]) (simp_all add: confirmed_def)
    ultimately show ?case using 1 Q by simp
  qed simp
qed

section \<open>Properties\<close>

text \<open>C38. Staging never touches the running slot: whatever the outcome of \<open>Stage\<close>, the death of
  the process in the middle of a write included, every path outside the inactive slot is as
  before, so the running slot is the same and has the same contents.\<close>

theorem Stage_running_slot_untouched:
  assumes "active_of s w = Some a" "\<not> in_slot s (other a) p"
  shows "files (snd (Stage s srcPath version checksum w)) p = files w p
       \<and> active_of s (snd (Stage s srcPath version checksum w)) = Some a"
  using frame_outside[OF Stage_frame[OF assms(1)], of p] frame_outside[OF Stage_frame[OF assms(1)], of "currentPath s"] assms
  by (simp add: active_of_def)

theorem Stage_running_slot_untouched_witness:
  "files (snd (Stage demo_slots [''data'', ''img''] ''v2'' ''00'' demo_world)) [''data'', ''slotA'', ''version''] = Some (File ''factory'')"
  using Stage_running_slot_untouched[of demo_slots demo_world "''A''" "[''data'', ''slotA'', ''version'']" "[''data'', ''img'']" "''v2''" "''00''"]
    demo_world_ok(2)
  by (simp add: in_slot_def slotDir_def demo_slots_def demo_world_def)

text \<open>C26. The flip of \<open>current\<close> is atomic: at every outcome of \<open>switchTo\<close> the link names the slot it
  named before or the new one, never anything else and never nothing; when it returns without an
  error it names the new one; and no entry of any slot has changed.\<close>

theorem switchTo_atomic_flip:
  assumes "layout s w" "slot \<in> {''A'', ''B''}"
  shows "active_of s (snd (switchTo s slot w)) \<in> {active_of s w, Some slot} \<and> layout s (snd (switchTo s slot w))
    \<and> (fst (switchTo s slot w) = Done (Inr ()) \<longrightarrow> active_of s (snd (switchTo s slot w)) = Some slot)
    \<and> (\<forall>x n. files (snd (switchTo s slot w)) (slotDir s x @ [n]) = files w (slotDir s x @ [n]))"
proof (intro conjI)
  let ?w = "snd (switchTo s slot w)"
  have sw: "switched s slot w ?w" by (rule switchTo_switched)
  have new: "active_of s w' = Some slot" if "files w' (currentPath s) = Some (Link (''slot'' @ slot))" for w'
    using that assms(2) by (auto simp: active_of_def)
  show "active_of s ?w \<in> {active_of s w, Some slot}" using sw new[of ?w] by (auto simp: switched_def active_of_def)
  show "layout s ?w" using assms sw layout_switched by blast
  show "fst (switchTo s slot w) = Done (Inr ()) \<longrightarrow> active_of s ?w = Some slot"
    using wpD(1)[OF switchTo_wp, of s slot w "Inr ()"] new by (auto simp: prod_eq_iff)
  show "\<forall>x n. files ?w (slotDir s x @ [n]) = files w (slotDir s x @ [n])" using switched_entries[OF sw] by blast
qed

theorem switchTo_atomic_flip_witness:
  "active_of demo_slots (snd (switchTo demo_slots ''B'' demo_world)) \<in> {Some ''A'', Some ''B''}"
  using switchTo_atomic_flip[of demo_slots demo_world "''B''"] demo_world_safe demo_world_ok(2) by (auto simp: boot_safe_def)

text \<open>C15. Boot safety for the whole life of a device: starting from a boot-safe store, in environments in which
  removing a file returns no error of the hardware, any sequence of slot operations in which \<open>Stage\<close> is
  called only while the running slot is confirmed and \<open>Confirm\<close> only after a successful \<open>SelfCheck\<close>, with
  any outcomes (errors of all other calls, torn writes, rotten bytes, process death at any call) and
  any reboots, leaves a store in which one of the two slots is confirmed, every confirmed slot holds
  an image that hashes to its checksum (or the factory image), and the link names one of the slots.\<close>

theorem slot_life_boot_safe:
  assumes "(slot_step h s)\<^sup>*\<^sup>* w w'" "boot_safe h s w" "unlinks_ok w"
  shows "boot_safe h s w'"
proof -
  from assms have "boot_safe h s w' \<and> unlinks_ok w'"
    by (induction rule: rtranclp_induct) (auto dest: slot_step_safe)
  then show ?thesis ..
qed

theorem slot_life_boot_safe_witness:
  "boot_safe id demo_slots (snd (PromoteStaged demo_slots (snd (Stage demo_slots [''data'', ''img''] ''v2'' ''00'' demo_world))))"
  by (rule slot_life_boot_safe[OF _ demo_world_safe demo_world_ok(4)])
    (meson converse_rtranclp_into_rtranclp demo_world_ok(2,3) rtranclp.rtrancl_refl slot_step.promote slot_step.stage)

text \<open>Recovery: from any boot-safe store, two boots without a confirmation in between always end
  on a confirmed slot with an intact image: the first boot is normal, or grants the pending slot
  its one trial, or rolls back; the second boot finds the attempt used up and rolls back. It is
  assumed that no call fails while booting.\<close>

theorem BootCheck_twice_recovers:
  assumes ok: "all_ok w" and safe: "boot_safe h s w" and a: "active_of s w = Some a"
    and cnt: "\<And>b. files w (slotDir s a @ [pendingMarker]) = Some (File b) \<Longrightarrow> Atoi (TrimSpace b) \<ge> 0"
  shows "wp (bindp (BootCheck s) (\<lambda>_. BootCheck s))
    (\<lambda>r w'. (r = (BootNormal, None) \<or> r = (BootRolledBack, None)) \<and> runs_confirmed h s w') (\<lambda>_. False) w"
  (is "wp _ ?Q ?C w")
proof -
  have lay: "layout s w" using safe by (simp add: boot_safe_def)
  have again: "wp (BootCheck s) ?Q ?C w'" if "all_ok w'" "runs_confirmed h s w'" for w'
  proof -
    from that(2) obtain b where b: "active_of s w' = Some b" "confirmed s b w'" by (auto simp: runs_confirmed_def)
    show ?thesis
      by (rule wp_BootCheck_normal[OF that(1) b]) (use that(2) runs_confirmed_cong in blast)
  qed
  show ?thesis
  proof (cases "confirmed s a w")
    case True
    then show ?thesis unfolding wp_bindp
      by (intro wp_BootCheck_normal[OF ok a True] again)
        (use runs_confirmedI[OF safe a] runs_confirmed_cong in blast)+
  next
    case False
    show ?thesis
    proof (cases "\<exists>b. files w (slotDir s a @ [pendingMarker]) = Some (File b) \<and> Atoi (TrimSpace b) < 1")
      case True
      then obtain b where b: "files w (slotDir s a @ [pendingMarker]) = Some (File b)" "Atoi (TrimSpace b) < 1" by blast
      with cnt[OF b(1)] have "Atoi (TrimSpace b) = 0" by simp
      then have one: "Itoa (Atoi (TrimSpace b) + 1) = ''1''" by simp
      have second: "wp (BootCheck s) ?Q ?C w'"
        if "all_ok w'" "boot_safe h s w'" "files w' = (files w)(slotDir s a @ [pendingMarker] \<mapsto> File ''1'')" for w'
        by (rule wp_BootCheck_rolled_back[OF that(1,2), where a = a])
          (use that(3) a False in \<open>simp_all add: active_of_def confirmed_def\<close>)
      have "wp (BootCheck s) (\<lambda>_. boot_safe h s) (boot_safe h s) w"
        using boot_safe_keeps(6)[of h s] safe by (simp add: keeps_wp)
      from wp_conj[OF BootCheck_trial[OF ok lay a False b] this] show ?thesis
        unfolding wp_bindp by (rule wp_mono) (auto simp: one intro: second)
    next
      case n: False
      show ?thesis unfolding wp_bindp
        by (rule wp_BootCheck_rolled_back[OF ok safe a False]) (use n not_less in \<open>blast intro: again\<close>)+
    qed
  qed
qed

theorem BootCheck_twice_recovers_witness:
  "wp (bindp (BootCheck demo_slots) (\<lambda>_. BootCheck demo_slots))
    (\<lambda>r w'. (r = (BootNormal, None) \<or> r = (BootRolledBack, None)) \<and> runs_confirmed id demo_slots w') (\<lambda>_. False) demo_world"
  by (rule BootCheck_twice_recovers[OF demo_world_ok(1) demo_world_safe demo_world_ok(2)])
    (simp add: demo_world_def demo_slots_def slotDir_def slot_names)

end
