(* ===== verification/Slot_Trials.thy ===== *)
theory Slot_Trials
  imports Slots
begin

text \<open>
  The slot manager over several operations: a promoted slot is tried once and then committed or
  rolled back, factory initialisation completes on a fresh device and changes nothing on a device
  that already runs, and what an ignored error of \<open>os.Remove\<close> costs.
\<close>

subsection \<open>A trial of a promoted slot\<close>

lemma promoted_facts:
  assumes "files w1 = promoted s a d (files w)" "layout s w" "\<not> confirmed s (other a) w"
  shows "layout s w1" "active_of s w1 = Some (other a)" "\<not> confirmed s (other a) w1"
    "files w1 (slotDir s (other a) @ [pendingMarker]) = Some (File d)"
    "files w1 (slotDir s a @ [n]) = files w (slotDir s a @ [n])"
    "n \<noteq> pendingMarker \<Longrightarrow> files w1 (slotDir s (other a) @ [n]) = files w (slotDir s (other a) @ [n])"
  using assms other_in[of a] other_neq[of a]
  by (auto simp: promoted_def layout_def active_of_def confirmed_def)

lemma wp_PromoteStaged_all_ok:
  "all_ok w \<Longrightarrow> layout s w \<Longrightarrow> active_of s w = Some a \<Longrightarrow>
     (\<And>w1. all_ok w1 \<Longrightarrow> files w1 = promoted s a ''0'' (files w) \<Longrightarrow> Q (Inr (other a)) w1) \<Longrightarrow> wp (PromoteStaged s) Q (\<lambda>_. False) w"
  by (rule wp_mono[OF PromoteStaged_all_ok]) (auto simp: promoted_def)

lemma wp_BootCheck_trial:
  assumes "all_ok w1" "files w1 = promoted s a ''0'' (files w)" "layout s w" "\<not> confirmed s (other a) w"
    and "\<And>w2. all_ok w2 \<Longrightarrow> files w2 = promoted s a ''1'' (files w) \<Longrightarrow> Q (BootTrial, None) w2"
  shows "wp (BootCheck s) Q (\<lambda>_. False) w1"
  by (rule wp_mono[OF BootCheck_trial[OF assms(1) promoted_facts(1-4)[OF assms(2-4)]]])
    (use assms in \<open>auto simp: promoted_def fun_upd_twist\<close>)

lemma wp_BootCheck_expired:
  assumes "all_ok w1" "files w1 = promoted s a ''1'' (files w)" "layout s w" "\<not> confirmed s (other a) w"
    and "\<And>w2. files w2 = (files w1)(slotDir s (other a) @ [pendingMarker] := None,
           currentTmp s := None, currentPath s \<mapsto> Link (''slot'' @ other (other a))) \<Longrightarrow> Q (BootRolledBack, None) w2"
  shows "wp (BootCheck s) Q (\<lambda>_. False) w1"
  by (rule wp_mono[OF BootCheck_rolled_back[OF assms(1) promoted_facts(1-3)[OF assms(2-4)]]])
    (use assms(5) promoted_facts(4)[OF assms(2-4)] in \<open>auto\<close>)

lemma wp_SelfCheck_all_ok:
  "all_ok w \<Longrightarrow> active_of s w = Some a \<Longrightarrow> files w (slotDir s a @ [checksumFile]) = Some (File want)
   \<Longrightarrow> hashes_to h (slotDir s a @ [firmwareFile]) (TrimSpace want) w
   \<Longrightarrow> (\<And>w1. all_ok w1 \<Longrightarrow> files w1 = files w \<Longrightarrow> Q (Inr ()) w1) \<Longrightarrow> wp (SelfCheck h s) Q (\<lambda>_. False) w"
  by (rule wp_mono[OF SelfCheck_all_ok]) auto

lemma wp_VerifyStaged_all_ok:
  "all_ok w \<Longrightarrow> active_of s w = Some a \<Longrightarrow> files w (slotDir s (other a) @ [checksumFile]) = Some (File want)
   \<Longrightarrow> hashes_to h (slotDir s (other a) @ [firmwareFile]) (TrimSpace want) w
   \<Longrightarrow> (\<And>w1. all_ok w1 \<Longrightarrow> files w1 = files w \<Longrightarrow> Q (Inr ()) w1) \<Longrightarrow> wp (VerifyStaged h s) Q (\<lambda>_. False) w"
  by (rule wp_mono[OF VerifyStaged_all_ok]) auto

text \<open>The second half of an upgrade: promote, trial boot, self-check, confirm, and the next boot.\<close>

lemma trial_commits:
  assumes ok: "all_ok w" "layout s w" "active_of s w = Some a" and n: "\<not> confirmed s (other a) w"
    and sum: "files w (slotDir s (other a) @ [checksumFile]) = Some (File checksum)"
      "files w (slotDir s (other a) @ [firmwareFile]) = Some (File data)" "hex_EncodeToString (h data) = TrimSpace checksum"
    and Q: "\<And>w'. all_ok w' \<Longrightarrow> files w' = (promoted s a [] (files w))(slotDir s (other a) @ [confirmedMarker] \<mapsto> File [],
        slotDir s (other a) @ [pendingMarker] := None) \<Longrightarrow> Q (Inr ((BootTrial, None), (BootNormal, None))) w'"
  shows "wp (bindE (PromoteStaged s) (\<lambda>_. bindp (BootCheck s) (\<lambda>b1. bindE (SelfCheck h s) (\<lambda>_. bindE (Confirm s) (\<lambda>_.
       bindp (BootCheck s) (\<lambda>b2. retp (Inr (b1, b2)))))))) Q (\<lambda>_. False) w"
proof -
  have conf: "wp (bindE (Confirm s) (\<lambda>_. bindp (BootCheck s) (\<lambda>b2. retp (Inr ((BootTrial, None), b2))))) Q (\<lambda>_. False) w2"
    if w2: "all_ok w2" "files w2 = promoted s a ''1'' (files w)" for w2
  proof -
    note pf = promoted_facts[OF w2(2) ok(2) n]
    show ?thesis unfolding wp_bindE
    proof (rule wp_mono[OF Confirm_all_ok[OF w2(1) pf(1,2)]], simp add: pf, goal_cases)
      case (1 r w3)
      then have "active_of s w3 = Some (other a)" "confirmed s (other a) w3" using pf(2) by (auto simp: active_of_def confirmed_def)
      moreover have "files w3 = (promoted s a [] (files w))(slotDir s (other a) @ [confirmedMarker] \<mapsto> File [],
          slotDir s (other a) @ [pendingMarker] := None)"
        using 1 w2(2) by (auto simp: promoted_def)
      ultimately show ?case
        using 1 Q by (simp add: wp_bindp) (rule wp_BootCheck_normal, simp_all add: wp_retp)
    qed simp
  qed
  show ?thesis
    unfolding wp_bindE
    apply (rule wp_PromoteStaged_all_ok[OF ok])
    unfolding sum.case wp_bindp
    apply (rule wp_BootCheck_trial[OF _ _ ok(2) n], assumption+)
    unfolding wp_bindE[of "SelfCheck h s"]
    subgoal for w1 w2
      using promoted_facts[of w2 s a "''1''" w, OF _ ok(2) n] conf[of w2] sum
      by (intro wp_SelfCheck_all_ok[of w2 s "other a" checksum]) (auto simp: hashes_to_def intro: conf)
    done
qed

text \<open>One try: an image that was promoted and is never confirmed is started exactly once. The
  first boot after the promotion is its trial, the second rolls back to the slot that was running
  before, which still has all its entries. No call fails here.\<close>

theorem promoted_once_then_rolled_back:
  assumes ok: "all_ok w" "layout s w" "active_of s w = Some a" and n: "\<not> confirmed s (other a) w"
  shows "wp (bindp (PromoteStaged s) (\<lambda>p. bindp (BootCheck s) (\<lambda>b1. bindp (BootCheck s) (\<lambda>b2. retp (p, b1, b2)))))
    (\<lambda>r w'. r = (Inr (other a), (BootTrial, None), (BootRolledBack, None)) \<and> active_of s w' = Some a
       \<and> (\<forall>n. files w' (slotDir s a @ [n]) = files w (slotDir s a @ [n]))) (\<lambda>_. False) w"
proof -
  have a: "a = ''A'' \<or> a = ''B''" using layout_active[OF ok(2)] ok(3) by auto
  show ?thesis
    unfolding wp_bindp
    apply (rule wp_PromoteStaged_all_ok[OF ok])
    apply (rule wp_BootCheck_trial[OF _ _ ok(2) n], assumption+)
    apply (rule wp_BootCheck_expired[OF _ _ ok(2) n], assumption+)
    using a other_neq[of a] by (auto simp: wp_retp active_of_def promoted_def)
qed

theorem promoted_once_then_rolled_back_witness:
  "wp (bindp (PromoteStaged demo_slots) (\<lambda>p. bindp (BootCheck demo_slots) (\<lambda>b1. bindp (BootCheck demo_slots) (\<lambda>b2. retp (p, b1, b2)))))
    (\<lambda>r w'. r = (Inr ''B'', (BootTrial, None), (BootRolledBack, None)) \<and> active_of demo_slots w' = Some ''A''
       \<and> (\<forall>n. files w' (slotDir demo_slots ''A'' @ [n]) = files demo_world (slotDir demo_slots ''A'' @ [n]))) (\<lambda>_. False) demo_world"
proof -
  have "layout demo_slots demo_world" "\<not> confirmed demo_slots ''B'' demo_world"
    using demo_world_safe[of id] by (auto simp: boot_safe_def confirmed_def demo_world_def demo_slots_def slotDir_def slot_names)
  from promoted_once_then_rolled_back[OF demo_world_ok(1) this(1) demo_world_ok(2)] this(2) show ?thesis by simp
qed

text \<open>A successful upgrade commits: staging an image that has the stated digest, verifying,
  promoting, booting on trial, self-checking and confirming all succeed in this order; afterwards
  a boot is normal on the new slot, which holds the image and the version, and the slot that was
  running before is untouched. No call fails here.\<close>

theorem upgrade_commits:
  assumes ok: "all_ok w" "layout s w" "active_of s w = Some a"
    and src: "files w srcPath = Some (File data)" "\<not> in_slot s (other a) srcPath"
    and sum: "hex_EncodeToString (sha256 data) = checksum"
  shows "wp (bindE (Stage s srcPath version checksum) (\<lambda>_. bindE (VerifyStaged sha256 s) (\<lambda>_. bindE (PromoteStaged s) (\<lambda>_.
       bindp (BootCheck s) (\<lambda>b1. bindE (SelfCheck sha256 s) (\<lambda>_. bindE (Confirm s) (\<lambda>_. bindp (BootCheck s) (\<lambda>b2. retp (Inr (b1, b2))))))))))
    (\<lambda>r w'. r = Inr ((BootTrial, None), (BootNormal, None)) \<and> active_of s w' = Some (other a)
       \<and> files w' (slotDir s (other a) @ [firmwareFile]) = Some (File data)
       \<and> files w' (slotDir s (other a) @ [versionFile]) = Some (File version)
       \<and> confirmed s (other a) w' \<and> intact sha256 s (other a) w'
       \<and> (\<forall>n. files w' (slotDir s a @ [n]) = files w (slotDir s a @ [n]))) (\<lambda>_. False) w"
  (is "wp _ ?Q _ w")
proof -
  have a: "a = ''A'' \<or> a = ''B''" using layout_active[OF ok(2)] ok(3) by auto
  have trim: "TrimSpace checksum = checksum" using sum by auto
  let ?x = "other a"
  let ?staged = "\<lambda>w1. files w1 = (files w)(slotDir s ?x @ [confirmedMarker] := None, slotDir s ?x @ [pendingMarker] := None,
       slotDir s ?x @ [firmwareFile] \<mapsto> File data, slotDir s ?x @ [versionFile] \<mapsto> File version, slotDir s ?x @ [checksumFile] \<mapsto> File checksum)"
  have st: "layout s w1" "active_of s w1 = Some a" "\<not> confirmed s ?x w1" "files w1 (slotDir s ?x @ [checksumFile]) = Some (File checksum)"
      "files w1 (slotDir s ?x @ [firmwareFile]) = Some (File data)" "files w1 (slotDir s ?x @ [versionFile]) = Some (File version)"
      "\<And>n. files w1 (slotDir s a @ [n]) = files w (slotDir s a @ [n])" if "?staged w1" for w1
    using that ok other_in[of a] other_neq[of a] by (auto simp: layout_def active_of_def confirmed_def)
  show ?thesis
    unfolding wp_bindE[of "Stage s srcPath version checksum"]
  proof (rule wp_mono[OF Stage_all_ok[OF ok src]], goal_cases)
    case (1 r w1)
    then have w1: "?staged w1" "all_ok w1" by simp_all
    have v: "hashes_to sha256 (slotDir s ?x @ [firmwareFile]) (TrimSpace checksum) w1"
      using st(5)[OF w1(1)] by (simp add: hashes_to_def trim sum)
    have rest: "wp (bindE (PromoteStaged s) (\<lambda>_. bindp (BootCheck s) (\<lambda>b1. bindE (SelfCheck sha256 s) (\<lambda>_. bindE (Confirm s) (\<lambda>_.
       bindp (BootCheck s) (\<lambda>b2. retp (Inr (b1, b2)))))))) ?Q (\<lambda>_. False) w2" if w2: "all_ok w2" "files w2 = files w1" for w2
    proof -
      have f: "?staged w2" using w1(1) w2(2) by simp
      show ?thesis
        by (rule trial_commits[OF w2(1) st(1-5)[OF f]])
          (use st(4-7)[OF f] sum a other_neq[of a] in
            \<open>auto simp: trim promoted_def active_of_def confirmed_def intact_def hashes_to_def\<close>)
    qed
    from 1 show ?case
      unfolding wp_bindE[of "VerifyStaged sha256 s"]
      by (auto intro!: wp_VerifyStaged_all_ok[OF w1(2) st(2,4)[OF w1(1)] v] rest)
  qed simp
qed

theorem upgrade_commits_witness:
  "\<exists>w1. BootCheck demo_slots w1 = (Done (BootNormal, None), advance (advance w1)) \<and> active_of demo_slots w1 = Some ''B''
     \<and> files w1 [''data'', ''slotB'', ''version''] = Some (File ''v2'')"
proof -
  let ?m = "bindE (Stage demo_slots [''data'', ''img''] ''v2'' (hex_EncodeToString ''image'')) (\<lambda>_. bindE (VerifyStaged id demo_slots) (\<lambda>_.
      bindE (PromoteStaged demo_slots) (\<lambda>_. bindp (BootCheck demo_slots) (\<lambda>b1. bindE (SelfCheck id demo_slots) (\<lambda>_.
      bindE (Confirm demo_slots) (\<lambda>_. bindp (BootCheck demo_slots) (\<lambda>b2. retp (Inr (b1, b2)))))))))"
  let ?w = "(snd (?m demo_world))\<lparr>fate_of := \<lambda>_ _. Ok\<rparr>"
  have "layout demo_slots demo_world" using demo_world_safe[of id] by (simp add: boot_safe_def)
  from upgrade_commits[OF demo_world_ok(1) this demo_world_ok(2), of "[''data'', ''img'']" "''image''" id "hex_EncodeToString ''image''" "''v2''"]
  have "wp ?m (\<lambda>_ w'. active_of demo_slots w' = Some ''B'' \<and> confirmed demo_slots ''B'' w' \<and>
      files w' (slotDir demo_slots ''B'' @ [versionFile]) = Some (File ''v2'')) (\<lambda>_. False) demo_world"
    by (simp add: in_slot_def slotDir_def demo_slots_def demo_world_def)
      (erule wp_mono; simp)
  then have "active_of demo_slots ?w = Some ''B'' \<and> confirmed demo_slots ''B'' ?w \<and>
      files ?w [''data'', ''slotB'', ''version''] = Some (File ''v2'')"
    by (auto simp: wp_def active_of_def confirmed_def slotDir_def demo_slots_def slot_names split: prod.splits outcome.splits)
  with BootCheck_normal[of ?w demo_slots "''B''"] show ?thesis by (auto simp: all_ok_def)
qed

subsection \<open>Factory initialisation completes\<close>

lemma all_ok_cong: "fate_of w' = fate_of w \<Longrightarrow> all_ok w' = all_ok w"
  by (simp add: all_ok_def)

lemma wp_MkdirAll_all_ok:
  assumes "all_ok w" "\<And>q. q \<in> set (prefixes p) \<Longrightarrow> files w q \<in> {None, Some Dir}"
    and "\<And>w1. all_ok w1 \<Longrightarrow> files w1 = (\<lambda>q. if q \<in> set (prefixes p) then Some Dir else files w q) \<Longrightarrow> Q (Inr ()) w1"
  shows "wp (os_MkdirAll p) Q C w"
proof -
  have "list_all (\<lambda>q. files w q = None \<or> files w q = Some Dir) (prefixes p)"
    using assms(2) by (auto simp: list_all_iff)
  then show ?thesis using assms(1) assms(3)[of "advance w\<lparr>files := \<lambda>q. if q \<in> set (prefixes p) then Some Dir else files w q\<rparr>"]
      all_ok_cong[of "advance w\<lparr>files := \<lambda>q. if q \<in> set (prefixes p) then Some Dir else files w q\<rparr>" w]
    by (simp add: os_MkdirAll_def wp_atomic_call_all_ok del: in_set_prefixes cong: if_cong)
qed

lemma wp_switchTo_first:
  assumes "all_ok w" "files w (currentTmp s) \<noteq> Some Dir" "files w (currentPath s) = None" "files w (sm_dir s) = Some Dir"
    and "\<And>w1. Q (Inr ()) w1"
  shows "wp (switchTo s x) Q C w"
  unfolding switchTo_def wp_bindp wp_bindE
  by (rule wp_Remove_all_ok[OF assms(1,2)])
    (use assms(3-5) in \<open>auto simp: os_Symlink_def os_Rename_def wp_rules parent_ok_def split: option.splits node.splits\<close>)

lemma unborn_facts:
  assumes "unborn s w"
  shows "files w (currentTmp s) \<noteq> Some Dir" "files w (currentPath s) = None"
    "x = ''A'' \<or> x = ''B'' \<Longrightarrow> q \<in> set (prefixes (slotDir s x)) \<Longrightarrow> files w q \<in> {None, Some Dir}"
    "files w (slotDir s ''A'' @ [n]) = None \<or> is_file (files w (slotDir s ''A'' @ [n]))"
  using assms by (auto simp: unborn_def simp del: in_set_prefixes)

lemma unborn_write_version:
  "unborn s w \<Longrightarrow> files w1 = (files w)(slotDir s ''A'' @ [versionFile] \<mapsto> File d) \<Longrightarrow> unborn s w1"
  by (rule unborn_entry[of s w versionFile "Some (File d)"]) auto

lemma unborn_write_confirmed:
  "unborn s w \<Longrightarrow> files w1 = (files w)(slotDir s ''A'' @ [confirmedMarker] \<mapsto> File d) \<Longrightarrow> unborn s w1"
  by (rule unborn_entry[of s w confirmedMarker "Some (File d)"]) auto

lemma factory_state_returns:
  assumes V: "all_ok w" "unborn s w" "files w (sm_dir s) = Some Dir" "files w (slotDir s ''A'') = Some Dir"
  shows "wp (factory_state s) (\<lambda>r _. r = Inr s) (\<lambda>_. False) w"
  unfolding factory_state_def wp_bindE
proof (rule wp_WriteFile_all_ok[OF V(1)], goal_cases)
  case (3 w2)
  note v = unborn_write_version[OF V(2) 3(1)]
  show ?case unfolding sum.case wp_bindE
  proof (rule wp_WriteFile_all_ok[OF 3(2)], goal_cases)
    case 2 show ?case by (rule unborn_facts[OF v])
  next
    case (3 w3)
    show ?case unfolding sum.case wp_bindE
      using unborn_facts[OF unborn_write_confirmed[OF v 3(1)]] \<open>files w2 = _\<close> 3 V by (intro wp_switchTo_first[OF 3(2)]) (simp_all add: wp_retp)
  qed (use 3 V in \<open>simp add: parent_ok_def\<close>)
qed (use V unborn_facts[OF V(2)] in \<open>simp_all add: parent_ok_def\<close>)

lemma NewSlotManager_returns:
  assumes ok: "all_ok w" and U: "unborn s w" and s: "s = \<lparr>sm_dir = dir\<rparr>"
  shows "wp (NewSlotManager dir) (\<lambda>r _. r = Inr s) (\<lambda>_. False) w"
proof -
  have dirs: "files w' (sm_dir s) = Some Dir" "files w' (slotDir s x) = Some Dir"
    if "files w' = (\<lambda>q. if q \<in> set (prefixes (slotDir s x)) then Some Dir else files w1 q)" for x w' w1
    using that by (simp_all add: slotDir_prefixes del: in_set_prefixes)
  have keepA: "files w' (slotDir s ''A'') = Some Dir"
    if "files w' = (\<lambda>q. if q \<in> set (prefixes (slotDir s ''B'')) then Some Dir else files w1 q)" "files w1 (slotDir s ''A'') = Some Dir" for w' w1
    using that by (simp add: slotDir_prefixes del: in_set_prefixes)
  have look: "wp (bindp (os_Lstat (currentPath s)) (\<lambda>r. if r = Inl NotExist then factory_state s else retp (Inr s))) (\<lambda>r _. r = Inr s) (\<lambda>_. False) w1"
    if "all_ok w1" "unborn s w1" "files w1 (sm_dir s) = Some Dir" "files w1 (slotDir s ''A'') = Some Dir" for w1
    using that factory_state_returns[of "advance w1" s] unborn_cong[of "advance w1" w1 s]
    unfolding wp_bindp os_Lstat_def
    by (simp add: wp_atomic_call_all_ok unborn_facts(2))
  show ?thesis
    unfolding NewSlotManager_def Let_def s[symmetric] wp_bindE[of "os_MkdirAll _"]
    apply (rule wp_MkdirAll_all_ok[OF ok], erule unborn_facts(3)[OF U disjI1[OF refl]])
    subgoal premises p for w1
      unfolding sum.case
      apply (rule wp_MkdirAll_all_ok[OF p(1)], erule unborn_facts(3)[OF unborn_MkdirAll[OF U disjI1[OF refl] p(2)] disjI2[OF refl]])
      subgoal premises q for w2
        unfolding sum.case
        by (rule look[OF q(1) unborn_MkdirAll[OF unborn_MkdirAll[OF U _ p(2)] _ q(2)] dirs(1)[OF q(2)] keepA[OF q(2) dirs(2)[OF p(2)]]]) simp_all
      done
    done
qed

lemma grown_mkdir:
  assumes lay: "layout s w" and g: "grown s w w2" and x: "x = ''A'' \<or> x = ''B''"
    and ok: "list_all (\<lambda>q. files w2 q = None \<or> files w2 q = Some Dir) (prefixes (slotDir s x))"
  shows "grown s w (w2\<lparr>files := \<lambda>q. if q \<in> set (prefixes (slotDir s x)) then Some Dir else files w2 q\<rparr>)"
proof -
  have "Some Dir = files w q \<or> files w q = None \<and> prefix q (sm_dir s)" if q: "prefix q (slotDir s x)" for q
  proof (cases "q = slotDir s x")
    case True
    then show ?thesis using lay x by (auto simp: layout_def)
  next
    case False
    then have "prefix q (sm_dir s)" using q by (simp add: slotDir_def)
    moreover have "files w2 q = None \<or> files w2 q = Some Dir" using ok q by (simp add: list_all_iff)
    ultimately show ?thesis using g unfolding grown_def by metis
  qed
  with g show ?thesis by (simp add: grown_def)
qed

lemma NewSlotManager_again:
  assumes "layout s w" "s = \<lparr>sm_dir = dir\<rparr>"
  shows "wp (NewSlotManager dir) (\<lambda>r w'. grown s w w')
    (\<lambda>w'. grown s w w') w"
  (is "wp _ ?Q ?C w")
proof -
  let ?I = "\<lambda>w'. grown s w w' \<and> fate_of w' = fate_of w"
  have mk: "wp (bindE (os_MkdirAll (slotDir s x)) f) ?Q ?C w1"
    if "?I w1" "x = ''A'' \<or> x = ''B''" "\<And>w2. ?I w2 \<Longrightarrow> wp (f ()) ?Q ?C w2" for f :: "unit \<Rightarrow> (go_error + SlotManager) prog" and w1 x
    unfolding wp_bindE os_MkdirAll_def
  proof (rule wp_atomic_call, goal_cases)
    case (1 w2)
    then have I2: "?I w2" using that(1) by (simp add: grown_def)
    show ?case
    proof (cases "list_all (\<lambda>q. files w2 q = None \<or> files w2 q = Some Dir) (prefixes (slotDir s x))")
      case True
      then have "?I (w2\<lparr>files := \<lambda>q. if q \<in> set (prefixes (slotDir s x)) then Some Dir else files w2 q\<rparr>)"
        using grown_mkdir[OF assms(1) _ that(2)] I2 by simp
      with True that(3) show ?thesis by (simp del: in_set_prefixes)
    qed (use I2 in auto)
  qed (use that in \<open>auto simp: grown_def\<close>)
  have cur: "files w (currentPath s) \<noteq> None" using assms(1) by (auto simp: layout_def)
  show ?thesis
    unfolding NewSlotManager_def Let_def assms(2)[symmetric]
  proof (intro mk)
    fix w1 :: world assume w1: "?I w1"
    then have "files w1 (currentPath s) \<noteq> None" using cur by (metis grown_def)
    with w1 show "wp (bindp (os_Lstat (currentPath s)) (\<lambda>r. if r = Inl NotExist then factory_state s else retp (Inr s))) ?Q ?C w1"
      unfolding wp_bindp by (intro wp_Lstat) (simp_all add: wp_retp grown_def)
  qed (simp_all add: grown_def)
qed

lemma grown_boot_safe:
  assumes "grown s w w'" "boot_safe h s w"
  shows "boot_safe h s w'"
proof -
  have lay: "layout s w" using assms(2) by (simp add: boot_safe_def)
  have deep: "files w' p = files w p" if "length (sm_dir s) < length p" for p
    using assms(1) that unfolding grown_def by (metis leD prefix_length_le)
  have "files w' (sm_dir s) = files w (sm_dir s)" using assms(1) lay unfolding grown_def layout_def by (metis option.distinct(1))
  with deep lay have "layout s w'" by (simp add: layout_def slotDir_def currentPath_def currentTmp_def)
  then show ?thesis by (rule boot_safe_core[OF assms(2)]) (simp add: slot_core_def deep slotDir_def)
qed

lemma NewSlotManager_boot_safe:
  assumes "boot_safe h s w" "s = \<lparr>sm_dir = dir\<rparr>"
  shows "boot_safe h s (snd (NewSlotManager dir w))"
proof -
  have "layout s w" using assms(1) by (simp add: boot_safe_def)
  from NewSlotManager_again[OF this assms(2)] have "grown s w (snd (NewSlotManager dir w))" by (simp add: wp_snd)
  then show ?thesis by (rule grown_boot_safe[OF _ assms(1)])
qed

text \<open>Factory initialisation is crash-safe and completes: starting from a data directory that was
  never initialised (or whose initialisation was cut short), any outcome leaves either such a
  directory again or a boot-safe device running slot A; success means the latter; and where no
  call fails \<open>NewSlotManager\<close> does succeed.\<close>

theorem NewSlotManager_factory:
  assumes "unborn s w" "reads_ok w" "no_rot w" "s = \<lparr>sm_dir = dir\<rparr>"
  shows "wp (NewSlotManager dir)
     (\<lambda>r w'. (unborn s w' \<or> boot_safe h s w') \<and> (r = Inr s \<longrightarrow> boot_safe h s w' \<and> active_of s w' = Some ''A''))
     (\<lambda>w'. unborn s w' \<or> boot_safe h s w') w
   \<and> (all_ok w \<longrightarrow> fst (NewSlotManager dir w) = Done (Inr s))"
  using NewSlotManager_unborn[OF assms] NewSlotManager_returns[OF _ assms(1,4)]
  by (auto simp: wp_def split: prod.splits outcome.splits)

theorem NewSlotManager_factory_witness:
  "fst (NewSlotManager [''data''] \<lparr>files = Map.empty, tick = 0, fate_of = \<lambda>_ _. Ok\<rparr>) = Done (Inr demo_slots)"
proof -
  let ?w = "\<lparr>files = Map.empty, tick = 0, fate_of = \<lambda>_ _. Ok\<rparr> :: world"
  have "unborn demo_slots ?w" "reads_ok ?w" "no_rot ?w" "all_ok ?w" "demo_slots = \<lparr>sm_dir = [''data'']\<rparr>"
    by (simp_all add: unborn_def reads_ok_def no_rot_def all_ok_def demo_slots_def)
  with NewSlotManager_factory[OF this(1,2,3,5), THEN conjunct2] show ?thesis by blast
qed

text \<open>Restarting on an initialised device: whatever the outcome, \<open>NewSlotManager\<close> changes no
  file, directory or link that exists.\<close>

theorem NewSlotManager_keeps_device:
  assumes "layout \<lparr>sm_dir = dir\<rparr> w" "files w p \<noteq> None"
  shows "files (snd (NewSlotManager dir w)) p = files w p"
  using NewSlotManager_again[OF assms(1) refl, unfolded wp_snd] assms(2) unfolding grown_def by metis

theorem NewSlotManager_keeps_device_witness:
  "files (snd (NewSlotManager [''data''] demo_world)) [''data'', ''current''] = Some (Link ''slotA'')"
  using NewSlotManager_keeps_device[of "[''data'']" demo_world "[''data'', ''current'']"] demo_world_safe[of id]
  by (simp add: boot_safe_def demo_slots_def) (simp add: demo_world_def)

text \<open>The errors of the two \<open>os.Remove\<close> calls of \<open>Stage\<close> are dropped. Where unlinking fails and the
  process dies in the copy, a slot stays marked confirmed although it holds a torn image: the
  boot-safety invariant is lost. The comment above the calls says the opposite.\<close>

theorem Stage_ignored_unlink_loses_safety:
  "boot_safe id demo_slots worn_world \<and>
   (let w' = snd (Stage demo_slots [''data'', ''img''] ''v2'' (hex_EncodeToString ''image'') worn_world) in
      confirmed demo_slots ''B'' w' \<and> \<not> intact id demo_slots ''B'' w' \<and> \<not> boot_safe id demo_slots w')"
proof -
  have safe: "boot_safe id demo_slots worn_world"
    by (simp add: boot_safe_def layout_def intact_def hashes_to_def active_of_def confirmed_def worn_world_def demo_world_def demo_slots_def
      slotDir_def currentPath_def currentTmp_def slot_names)
  define w' where "w' = snd (Stage demo_slots [''data'', ''img''] ''v2'' (hex_EncodeToString ''image'') worn_world)"
  have f: "files w' [''data'', ''slotB'', ''.confirmed''] = Some (File []) \<and> files w' [''data'', ''slotB'', ''firmware.bin''] = Some (File ''i'')
     \<and> files w' [''data'', ''slotB'', ''checksum''] = Some (File (hex_EncodeToString ''old''))"
    unfolding w'_def Stage_def
    by (simp add: Active_def os_defs bindE_def bindp_def atomic_call_def write_call_def fate_def advance_def set_node_def retp_def
      worn_world_def demo_world_def demo_slots_def slotDir_def currentPath_def slot_names parent_ok_def Base_def TrimPrefix_def HasPrefix_def
      Let_def other_def)
  have differ: "hex_EncodeToString ''i'' \<noteq> hex_EncodeToString ''old''" by (simp add: hex_EncodeToString_def)
  have "confirmed demo_slots ''B'' w'" "\<not> intact id demo_slots ''B'' w'"
    using f differ by (simp_all add: confirmed_def intact_def hashes_to_def slotDir_def demo_slots_def slot_names)
  with safe show ?thesis unfolding w'_def[symmetric] Let_def by (auto simp: boot_safe_def)
qed

end
