(* ===== verification/Slot_FailStop.thy ===== *)
theory Slot_FailStop
  imports Slot_Trials
begin

text \<open>
  The slot manager in a fail-stop environment, and contracts of its operations in terms of two
  levels of safety of the store: \<open>boot_safe\<close>, which every operation keeps on every outcome, and
  \<open>safe_up\<close> (in addition the running slot is confirmed), which the boot check, the rollback and
  the confirmation re-establish when they return. The agent's proofs use these contracts only.
\<close>

text \<open>What \<open>BootCheck\<close> promises: a trial is of an unconfirmed slot with its marker written, any other result
  leaves the device on a confirmed slot.\<close>

abbreviation boot_post :: "digest \<Rightarrow> SlotManager \<Rightarrow> world \<Rightarrow> BootResult \<times> go_error option \<Rightarrow> world \<Rightarrow> bool" where
  "boot_post h s w \<equiv> \<lambda>r w'. snd r = None \<and> fate_of w' = fate_of w \<and> boot_safe h s w' \<and>
      (fst r = BootTrial \<longrightarrow> (\<exists>a. active_of s w' = Some a \<and> \<not> confirmed s a w' \<and> is_file (files w' (slotDir s a @ [pendingMarker])))) \<and>
      (fst r \<noteq> BootTrial \<longrightarrow> safe_up h s w')"

subsection \<open>Fail-stop environments\<close>

lemma fail_stop_cong: "fate_of w' = fate_of w \<Longrightarrow> fail_stop w' = fail_stop w"
  by (simp add: fail_stop_def)

lemma fail_stop_ok: "fail_stop w \<Longrightarrow> reads_ok w" "fail_stop w \<Longrightarrow> unlinks_ok w"
  by (simp_all add: fail_stop_def reads_ok_def unlinks_ok_def)

lemma all_ok_fail_stop: "all_ok w \<Longrightarrow> fail_stop w"
  by (simp add: all_ok_def fail_stop_def)

lemma fail_stop_fate: "fail_stop w \<Longrightarrow> critical c \<Longrightarrow> \<not> spurious (fate c w)"
  by (simp add: fail_stop_def fate_def)

lemma wp_WriteFile_fail_stop:
  assumes "fail_stop w" "parent_ok p w" "files w p = None \<or> is_file (files w p)"
    and "\<And>w1 d. files w1 = (files w)(p \<mapsto> File d) \<Longrightarrow> fate_of w1 = fate_of w \<Longrightarrow> Q (Inr ()) w1"
    and "\<And>w1 n. files w1 = (files w)(p := n) \<Longrightarrow> fate_of w1 = fate_of w \<Longrightarrow> n = files w p \<or> is_file n \<Longrightarrow> C w1"
  shows "wp (os_WriteFile p data) Q C w"
  using assms(2,3) fail_stop_fate[OF assms(1), of "SysWriteFile p"] assms(4)[of "set_node p _ (advance w)"]
    assms(5)[of "advance w" "files w p"] assms(5)[of "set_node p _ (advance w)"]
  by (auto simp: wp_def os_WriteFile_def atomic_call_def write_call_def split: fault.splits option.splits node.splits)

lemma wp_Symlink_fail_stop:
  assumes "fail_stop w" "parent_ok p w" "files w p = None"
    and "\<And>w1. files w1 = (files w)(p \<mapsto> Link t) \<Longrightarrow> fate_of w1 = fate_of w \<Longrightarrow> Q (Inr ()) w1"
    and "\<And>w1. files w1 = files w \<Longrightarrow> fate_of w1 = fate_of w \<Longrightarrow> C w1"
  shows "wp (os_Symlink t p) Q C w"
  using assms(2,3) fail_stop_fate[OF assms(1), of "SysSymlink p"] unfolding os_Symlink_def
  by (intro wp_atomic_call) (auto intro!: assms(4,5) simp: parent_ok_def)

lemma wp_Rename_fail_stop:
  assumes "fail_stop w" "parent_ok q w" "files w p = Some (Link t)" "files w q \<noteq> Some Dir"
    and "\<And>w1. files w1 = (files w)(q \<mapsto> Link t, p := None) \<Longrightarrow> fate_of w1 = fate_of w \<Longrightarrow> Q (Inr ()) w1"
    and "\<And>w1. files w1 = files w \<Longrightarrow> fate_of w1 = fate_of w \<Longrightarrow> C w1"
  shows "wp (os_Rename p q) Q C w"
  using assms(2-4) fail_stop_fate[OF assms(1), of "SysRename p q"] unfolding os_Rename_def
  by (intro wp_atomic_call) (auto intro!: assms(5,6) simp: parent_ok_def split: option.splits node.splits)

lemma switchTo_fail_stop:
  assumes "fail_stop w" "layout s w" and x: "x = ''A'' \<or> x = ''B''"
  shows "wp (switchTo s x) (\<lambda>r w'. r = Inr () \<and> switched s x w w' \<and> active_of s w' = Some x) (switched s x w) w"
proof -
  have tmp: "files w (currentTmp s) \<noteq> Some Dir" and cur: "files w (currentPath s) \<noteq> Some Dir"
    and dir: "files w (sm_dir s) = Some Dir"
    using assms(2) by (auto simp: layout_def)
  have "wp (switchTo s x) (\<lambda>r _. r = Inr ()) (\<lambda>_. True) w"
    unfolding switchTo_def wp_bindp wp_bindE
    by (rule wp_Remove)
      (use tmp cur dir fail_stop_ok(2)[OF assms(1)] in \<open>auto intro!: wp_Symlink_fail_stop wp_Rename_fail_stop
         simp: parent_ok_def fail_stop_cong[of _ w] assms(1)\<close>)
  moreover have "wp (switchTo s x) (\<lambda>r w'. switched s x w w' \<and> (r = Inr () \<longrightarrow> active_of s w' = Some x)) (switched s x w) w"
    by (rule wp_mono[OF switchTo_wp]) (use x in \<open>auto simp: switched_def active_of_def\<close>)
  ultimately show ?thesis by (rule wp_mono[OF wp_conj]) auto
qed

lemma safe_upI: "boot_safe h s w \<Longrightarrow> active_of s w = Some a \<Longrightarrow> confirmed s a w \<Longrightarrow> safe_up h s w"
  by (simp add: safe_up_def)

lemma safe_up_runs: "safe_up h s w \<Longrightarrow> runs_confirmed h s w"
  by (auto simp: safe_up_def intro: runs_confirmedI)

lemma boot_safe_switched:
  assumes "boot_safe h s w" "x = ''A'' \<or> x = ''B''" "switched s x w w'"
  shows "boot_safe h s w'"
proof (rule boot_safe_core[OF assms(1)])
  show "layout s w'" using assms layout_switched by (auto simp: boot_safe_def)
  show "slot_core s y w' = slot_core s y w" for y using switched_entries[OF assms(3)] by (simp add: slot_core_def)
qed

lemma boot_safe_pending:
  assumes "boot_safe h s w" "x = ''A'' \<or> x = ''B''" "files w' = (files w)(slotDir s x @ [pendingMarker] := n)" "n = None \<or> is_file n"
  shows "boot_safe h s w'"
proof (rule boot_safe_core[OF assms(1)])
  show "layout s w'" using assms by (auto simp: boot_safe_def intro: all_ok_layout_step)
  show "slot_core s y w' = slot_core s y w" for y using assms(3) by (simp add: slot_core_def)
qed

text \<open>Rolling back from a slot that is not confirmed lands on one that is.\<close>

lemma rollback_fail_stop:
  assumes fs: "fail_stop w" and safe: "boot_safe h s w" and x: "x = ''A'' \<or> x = ''B''" and c: "confirmed s (other x) w"
  shows "wp (rollback s x) (\<lambda>r w'. r = Inr () \<and> safe_up h s w' \<and> fate_of w' = fate_of w) (boot_safe h s) w"
proof -
  have lay: "layout s w" using safe by (simp add: boot_safe_def)
  have "wp (switchTo s (other x)) (\<lambda>r w'. r = Inr () \<and> safe_up h s w' \<and> fate_of w' = fate_of w) (boot_safe h s) w1"
    if w1: "files w1 = (files w)(slotDir s x @ [pendingMarker] := n)" "fate_of w1 = fate_of w" "n = None \<or> n = files w (slotDir s x @ [pendingMarker])" for w1 n
  proof -
    have n: "n = None \<or> is_file n" using w1(3) layout_slot_file[OF lay x] by auto
    have safe1: "boot_safe h s w1" by (rule boot_safe_pending[OF safe x w1(1) n])
    then have lay1: "layout s w1" by (simp add: boot_safe_def)
    have c1: "confirmed s (other x) w1" using c w1(1) other_neq[of x] by (simp add: confirmed_def)
    show ?thesis
    proof (rule wp_mono[OF switchTo_fail_stop[OF _ lay1 other_in]], goal_cases)
      case 1
      then show ?case using fs w1(2) by (simp add: fail_stop_def)
    next
      case (2 r w')
      have "boot_safe h s w'" using boot_safe_switched[OF safe1 other_in] 2 by blast
      moreover have "confirmed s (other x) w'" using c1 switched_entries[of s "other x" w1 w'] 2 by (simp add: confirmed_def)
      ultimately show ?case using 2 w1(2) safe_upI by (auto simp: switched_def frame_def)
    next
      case (3 w')
      then show ?case using boot_safe_switched[OF safe1 other_in] by blast
    qed
  qed note sw = this
  show ?thesis
    unfolding rollback_def wp_bindp
  proof (rule wp_Remove, goal_cases)
    case (1 w1)
    then show ?case by (intro sw[of w1 None]) simp_all
  next
    case (2 w1 e)
    then show ?case by (intro sw[of w1 "files w (slotDir s x @ [pendingMarker])"]) simp_all
  next
    case (3 w1)
    with safe show ?case using boot_safe_cong by blast
  qed
qed

lemma boot_rolls_back:
  assumes "fail_stop w" "boot_safe h s w" "active_of s w = Some a" "a = ''A'' \<or> a = ''B''" "\<not> confirmed s a w"
    and w1: "files w1 = files w" "fate_of w1 = fate_of w"
  shows "wp (rollback s a) (\<lambda>r. wp (retp (BootRolledBack, err_of r)) (boot_post h s w) (boot_safe h s)) (boot_safe h s) w1"
proof -
  have "confirmed s (other a) w" using assms(2,3,5) by (auto simp: boot_safe_def)
  then have "confirmed s (other a) w1" using w1(1) by (simp add: confirmed_def)
  then show ?thesis
    using boot_safe_cong[OF w1(1)] assms(1,2) w1(2) fail_stop_cong[OF w1(2)]
    by (intro wp_mono[OF rollback_fail_stop[OF _ _ assms(4)]]) (auto simp: wp_retp safe_up_def)
qed

lemma boot_tries:
  assumes fs: "fail_stop w" and safe: "boot_safe h s w" and a: "active_of s w = Some a" "a = ''A'' \<or> a = ''B''" "\<not> confirmed s a w"
    and w1: "files w1 = files w" "fate_of w1 = fate_of w"
  shows "wp (os_WriteFile (slotDir s a @ [pendingMarker]) d)
    (\<lambda>r. wp (case r of Inl e \<Rightarrow> retp (BootNone, Some e) | Inr _ \<Rightarrow> retp (BootTrial, None)) (boot_post h s w) (boot_safe h s)) (boot_safe h s) w1"
proof -
  have lay: "layout s w" using safe by (simp add: boot_safe_def)
  show ?thesis
  proof (rule wp_WriteFile_fail_stop, goal_cases)
    case 1 then show ?case using fs fail_stop_cong[OF w1(2)] by simp
  next
    case 2 then show ?case by (rule parent_ok_slot[OF lay a(2)]) (simp add: w1)
  next
    case 3 then show ?case using layout_slot_file[OF lay a(2)] w1(1) by simp
  next
    case (4 w2 d')
    then have "boot_safe h s w2" by (intro boot_safe_pending[OF safe a(2), of w2 "Some (File d')"]) (simp_all add: w1)
    moreover have "active_of s w2 = Some a" "\<not> confirmed s a w2" "is_file (files w2 (slotDir s a @ [pendingMarker]))" using 4 w1 a by (simp_all add: active_of_def confirmed_def)
    ultimately show ?case using 4 w1 by (simp add: wp_retp)
  next
    case (5 w2 n)
    have "n = None \<or> is_file n" using 5(3) layout_slot_file[OF lay a(2), of pendingMarker] w1(1) by auto
    with 5 w1 show ?case by (intro boot_safe_pending[OF safe a(2), of w2 n]) simp_all
  qed
qed

lemma BootCheck_fail_stop:
  assumes fs: "fail_stop w" and safe: "boot_safe h s w"
  shows "wp (BootCheck s) (boot_post h s w) (boot_safe h s) w"
proof -
  have lay: "layout s w" using safe by (simp add: boot_safe_def)
  obtain a where a: "active_of s w = Some a" "a = ''A'' \<or> a = ''B''" using layout_active[OF lay] by blast
  have ro: "reads_ok w'" if "fate_of w' = fate_of w" for w' :: world using fail_stop_ok(1) fs that by (simp add: reads_ok_def)
  have bs: "boot_safe h s w'" if "files w' = files w" for w' using safe boot_safe_cong[OF that] by blast
  have reg: "files w (slotDir s a @ [confirmedMarker]) \<noteq> Some Dir" using layout_slot_file[OF lay a(2), of confirmedMarker] by auto
  have up: "safe_up h s w'" if "files w' = files w" "confirmed s a w" for w'
    using safe a(1) that boot_safe_cong[OF that(1), of h s] by (auto simp: safe_up_def active_of_def confirmed_def)
  show ?thesis
    unfolding BootCheck_def wp_bindp Let_def
  proof (rule wp_Active, goal_cases)
    case (1 w1 a')
    with a have [simp]: "a' = a" by simp
    note w1 = 1
    show ?case
      unfolding sum.case wp_bindp \<open>a' = a\<close>
    proof (rule wp_Stat, goal_cases)
      case (1 w2 n)
      with reg w1 have "confirmed s a w" by (simp add: confirmed_def)
      with 1 w1 show ?case by (simp add: wp_retp bs up)
    next
      case (2 w2 e)
      then have c: "\<not> confirmed s a w" "files w2 = files w" "fate_of w2 = fate_of w" using ro[of w1] w1 by (auto simp: confirmed_def)
      show ?case unfolding sum.case wp_bindp
        by (rule wp_ReadFile) (use c in \<open>auto simp: wp_bindp intro!: bs boot_rolls_back[OF assms a] boot_tries[OF assms a]\<close>)
    next
      case (3 w2)
      with w1 show ?case by (simp add: bs)
    qed
  next
    case (2 w1 e)
    then show ?case using ro[of w] a by simp
  next
    case (3 w1)
    then show ?case by (simp add: bs)
  qed
qed

lemma Rollback_fail_stop:
  assumes fs: "fail_stop w" and safe: "boot_safe h s w" and a: "active_of s w = Some a" "\<not> confirmed s a w"
  shows "wp (Rollback s) (\<lambda>r w'. r = Inr () \<and> safe_up h s w' \<and> fate_of w' = fate_of w) (boot_safe h s) w"
  unfolding Rollback_def
proof (rule wp_bindE_Active, goal_cases)
  case (1 w1 a')
  have "a = ''A'' \<or> a = ''B''" using safe layout_active[of s w] a(1) by (auto simp: boot_safe_def)
  moreover have "confirmed s (other a) w1" using safe a 1 by (auto simp: boot_safe_def confirmed_def)
  ultimately show ?case
    using 1 a(1) safe fs boot_safe_cong[OF 1(1), of h s] fail_stop_cong[OF 1(2)]
    by (intro wp_mono[OF rollback_fail_stop[of w1 h s a']]) auto
next
  case (2 w1 e)
  then show ?case using a(1) fail_stop_ok(1)[OF fs] by simp
next
  case (3 w1)
  then show ?case using safe boot_safe_cong by blast
qed

lemma Confirm_fail_stop:
  assumes fs: "fail_stop w" and safe: "boot_safe h s w" and a: "active_of s w = Some a" "intact h s a w"
  shows "wp (Confirm s) (\<lambda>r w'. safe_up h s w' \<and> fate_of w' = fate_of w \<and>
      (is_file (files w (slotDir s a @ [pendingMarker])) \<longrightarrow> r = Inr ())) (boot_safe h s) w"
proof -
  have lay: "layout s w" using safe by (simp add: boot_safe_def)
  have x: "a = ''A'' \<or> a = ''B''" using layout_active[OF lay] a(1) by auto
  have "wp (Confirm s) (\<lambda>r w'. active_of s w' = Some a \<and> confirmed s a w' \<and> fate_of w' = fate_of w \<and>
      (is_file (files w (slotDir s a @ [pendingMarker])) \<longrightarrow> r = Inr ())) (\<lambda>_. True) w"
    unfolding Confirm_def Let_def
  proof (rule wp_bindE_Active, goal_cases)
    case (1 w1 a')
    with a have [simp]: "a' = a" by simp
    show ?case unfolding wp_bindE
    proof (rule wp_WriteFile_fail_stop, goal_cases)
      case 1 show ?case using fs fail_stop_cong[OF \<open>fate_of w1 = fate_of w\<close>] by simp
    next
      case 2 show ?case unfolding \<open>a' = a\<close> by (rule parent_ok_slot[OF lay x]) (simp add: \<open>files w1 = files w\<close>)
    next
      case 3 show ?case using layout_slot_file[OF lay x] \<open>files w1 = files w\<close> by simp
    next
      case (4 w2 d)
      have "unlinks_ok w2" using 4(2) \<open>fate_of w1 = fate_of w\<close> fail_stop_ok(2)[OF fs] by (simp add: unlinks_ok_def)
      with 4 show ?case unfolding sum.case
        by (intro wp_Remove) (use a \<open>files w1 = files w\<close> \<open>fate_of w1 = fate_of w\<close> in \<open>auto simp: active_of_def confirmed_def\<close>)
    qed simp
  next
    case (2 w1 e)
    then show ?case using a(1) fail_stop_ok(1)[OF fs] by simp
  qed simp
  moreover have "wp (Confirm s) (\<lambda>_. boot_safe h s) (boot_safe h s) w"
    using Confirm_boot_safe[OF safe a] by (simp add: wp_snd)
  ultimately show ?thesis by (rule wp_mono[OF wp_conj]) (auto intro: safe_upI)
qed

text \<open>A failed promotion has not moved the link (this needs no fail-stop environment).\<close>

lemma switchTo_error:
  "wp (switchTo s x) (\<lambda>r w'. \<forall>e. r = Inl e \<longrightarrow> files w' (currentPath s) = files w (currentPath s)) (\<lambda>_. True) w"
  unfolding switchTo_def wp_bindp wp_bindE
  by (rule wp_Remove) (auto intro!: wp_Symlink wp_Rename)

lemma PromoteStaged_safe:
  assumes up: "safe_up h s w"
  shows "wp (PromoteStaged s) (\<lambda>r w'. boot_safe h s w' \<and> fate_of w' = fate_of w \<and> (\<forall>e. r = Inl e \<longrightarrow> safe_up h s w')) (boot_safe h s) w"
proof -
  from up obtain a where safe: "boot_safe h s w" and a: "active_of s w = Some a" "confirmed s a w" by (auto simp: safe_up_def)
  have 1: "wp (PromoteStaged s) (\<lambda>_. boot_safe h s) (boot_safe h s) w"
    using keepsD[OF boot_safe_keeps(2) safe] by (simp add: wp_snd)
  have 2: "wp (PromoteStaged s) (\<lambda>r w'. \<forall>e. r = Inl e \<longrightarrow> files w' (currentPath s) = files w (currentPath s)) (\<lambda>_. True) w"
    unfolding PromoteStaged_def Let_def
  proof (rule wp_bindE_Active, goal_cases)
    case (1 w1 b)
    then show ?case unfolding wp_bindE
    proof (intro wp_WriteFile, goal_cases)
      case (1 w2 d)
      then show ?case unfolding sum.case wp_bindE by (intro wp_mono[OF switchTo_error]) (auto simp: wp_retp split: sum.splits)
    qed auto
  qed auto
  let ?F = "frame (\<lambda>p. marker_path s p) (files w) (fate_of w)"
  have 3: "wp (PromoteStaged s) (\<lambda>_. ?F) ?F w" using keepsD[OF keeps_markers(2), of s "files w" "fate_of w" w] by (simp add: wp_snd)
  have up': "safe_up h s w'" if "boot_safe h s w'" "?F w'" "files w' (currentPath s) = files w (currentPath s)" for w'
    using that a by (intro safe_upI[of h s w' a]) (auto simp: active_of_def confirmed_def frame_def)
  from wp_conj[OF wp_conj[OF 1 2] 3] show ?thesis by (rule wp_mono) (auto intro: up' simp: frame_def)
qed

lemma Stage_safe_up:
  assumes up: "safe_up h s w" and ul: "unlinks_ok w"
  shows "safe_up h s (snd (Stage s src v c w))"
proof -
  from up obtain a where safe: "boot_safe h s w" and a: "active_of s w = Some a" "confirmed s a w" by (auto simp: safe_up_def)
  have "active_of s (snd (Stage s src v c w)) = Some a" "confirmed s a (snd (Stage s src v c w))"
    using frame_outside[OF Stage_frame[OF a(1)]] a other_neq[of a] by (simp_all add: active_of_def confirmed_def)
  with Stage_boot_safe[OF safe a ul] show ?thesis by (auto intro: safe_upI)
qed

lemma safe_up_cong: "files w' = files w \<Longrightarrow> safe_up h s w' = safe_up h s w"
  using boot_safe_cong[of w' w h s] by (simp add: safe_up_def active_of_def confirmed_def)

lemma VerifyStaged_reads: "wp (VerifyStaged h s) (\<lambda>_ w'. files w' = files w \<and> fate_of w' = fate_of w) (\<lambda>w'. files w' = files w \<and> fate_of w' = fate_of w) w"
  unfolding VerifyStaged_def Let_def wp_bindE
  by (rule wp_Active) (auto intro!: wp_ReadFile wp_VerifySHA256 simp: wp_bindE)

lemma Active_reads: "wp (Active s) (\<lambda>_ w'. files w' = files w \<and> fate_of w' = fate_of w) (\<lambda>w'. files w' = files w \<and> fate_of w' = fate_of w) w"
  by (rule wp_Active) auto

lemma ActiveVersion_reads: "wp (ActiveVersion s) (\<lambda>_ w'. files w' = files w \<and> fate_of w' = fate_of w) (\<lambda>w'. files w' = files w \<and> fate_of w' = fate_of w) w"
  unfolding ActiveVersion_def wp_bindp
  by (rule wp_Active) (auto intro!: wp_ReadFile simp: wp_bindp wp_retp)

end
