(* ===== verification/Device_FSM.thy ===== *)
theory Device_FSM
  imports Fleet_Prelude
begin

text \<open>
  The upgrade state machine of \<open>internal/agent/fsm.go\<close>. The transition graph is data, as in the
  source; the observability hook is modelled by the log of its invocations.
\<close>

datatype State = StateIdle | StateDownloading | StateVerifying | StateFlashing | StateConfirming | StateFailed

fun validTransitions :: "State \<Rightarrow> State list" where
  "validTransitions StateIdle = [StateDownloading]"
| "validTransitions StateDownloading = [StateVerifying, StateFailed]"
| "validTransitions StateVerifying = [StateFlashing, StateFailed]"
| "validTransitions StateFlashing = [StateConfirming, StateFailed]"
| "validTransitions StateConfirming = [StateIdle, StateFailed]"
| "validTransitions StateFailed = [StateDownloading]"

datatype fsm_error = IllegalTransition State State

record FSM =
  fsm_state :: State
  fsm_hook :: bool
  fsm_fired :: "(State \<times> State) list"

definition NewFSM :: "bool \<Rightarrow> FSM" where
  "NewFSM onTransition = \<lparr>fsm_state = StateIdle, fsm_hook = onTransition, fsm_fired = []\<rparr>"

fun To_loop :: "FSM \<Rightarrow> State \<Rightarrow> State list \<Rightarrow> fsm_error option \<times> FSM" where
  "To_loop f next [] = (Some (IllegalTransition (fsm_state f) next), f)"
| "To_loop f next (allowed # rest) =
     (if next = allowed then
        (None, f\<lparr>fsm_fired := (if fsm_hook f then fsm_fired f @ [(fsm_state f, next)] else fsm_fired f),
                 fsm_state := next\<rparr>)
      else To_loop f next rest)"

definition To :: "State \<Rightarrow> FSM \<Rightarrow> fsm_error option \<times> FSM" where
  "To next f = To_loop f next (validTransitions (fsm_state f))"

text \<open>A caller that requests the states \<open>ss\<close> one after the other and ignores the errors.\<close>

fun drive :: "State list \<Rightarrow> FSM \<Rightarrow> FSM" where
  "drive [] f = f"
| "drive (x # xs) f = drive xs (snd (To x f))"

text \<open>A log that starts in \<open>a\<close>, ends in \<open>b\<close> and only takes edges of the transition table.\<close>

fun legal_log :: "State \<Rightarrow> (State \<times> State) list \<Rightarrow> State \<Rightarrow> bool" where
  "legal_log a [] b \<longleftrightarrow> a = b"
| "legal_log a ((x, y) # es) b \<longleftrightarrow> x = a \<and> y \<in> set (validTransitions x) \<and> legal_log y es b"

section \<open>Lemmas\<close>

lemma To_loop_eq:
  "To_loop f next xs =
     (if next \<in> set xs
      then (None, f\<lparr>fsm_fired := (if fsm_hook f then fsm_fired f @ [(fsm_state f, next)] else fsm_fired f), fsm_state := next\<rparr>)
      else (Some (IllegalTransition (fsm_state f) next), f))"
  by (induction xs) auto

lemma To_valid [simp]:
  "next \<in> set (validTransitions (fsm_state f)) \<Longrightarrow>
     To next f = (None, f\<lparr>fsm_fired := (if fsm_hook f then fsm_fired f @ [(fsm_state f, next)] else fsm_fired f), fsm_state := next\<rparr>)"
  by (simp add: To_def To_loop_eq)

lemma To_invalid [simp]:
  "next \<notin> set (validTransitions (fsm_state f)) \<Longrightarrow> To next f = (Some (IllegalTransition (fsm_state f) next), f)"
  by (simp add: To_def To_loop_eq)

lemma fsm_hook_To [simp]: "fsm_hook (snd (To x f)) = fsm_hook f"
  by (cases "x \<in> set (validTransitions (fsm_state f))") auto

lemma legal_log_append: "legal_log a (xs @ ys) b \<longleftrightarrow> (\<exists>c. legal_log a xs c \<and> legal_log c ys b)"
  by (induction xs arbitrary: a) auto

lemma legal_log_To:
  assumes "legal_log a (fsm_fired f) (fsm_state f)" "fsm_hook f"
  shows "legal_log a (fsm_fired (snd (To x f))) (fsm_state (snd (To x f)))"
  using assms by (cases "x \<in> set (validTransitions (fsm_state f))") (auto simp: legal_log_append)

lemma legal_log_drive:
  "legal_log a (fsm_fired f) (fsm_state f) \<Longrightarrow> fsm_hook f \<Longrightarrow>
     legal_log a (fsm_fired (drive ss f)) (fsm_state (drive ss f))"
proof (induction ss arbitrary: f)
  case (Cons x ss)
  then show ?case using legal_log_To[of a f x] by simp
qed simp

lemma legal_log_edge: "legal_log a es b \<Longrightarrow> (x, y) \<in> set es \<Longrightarrow> y \<in> set (validTransitions x)"
  by (induction es arbitrary: a) auto

lemma into_state:
  "StateFlashing \<in> set (validTransitions x) \<longleftrightarrow> x = StateVerifying"
  "StateConfirming \<in> set (validTransitions x) \<longleftrightarrow> x = StateFlashing"
  "StateVerifying \<in> set (validTransitions x) \<longleftrightarrow> x = StateDownloading"
  "StateIdle \<in> set (validTransitions x) \<longleftrightarrow> x = StateConfirming"
  "StateDownloading \<in> set (validTransitions x) \<longleftrightarrow> x = StateIdle \<or> x = StateFailed"
  by (cases x; simp)+

text \<open>Every visit to a state \<open>y\<close> in a legal log is directly preceded by the move that entered it.\<close>

lemma legal_log_preceded:
  assumes "legal_log a (es @ (x, y) # rest) b" "a \<noteq> x"
  shows "\<exists>es' z. es = es' @ [(z, x)]"
proof (cases es rule: rev_cases)
  case Nil
  with assms show ?thesis by simp
next
  case (snoc es' e)
  obtain z u where "e = (z, u)" by (cases e)
  with snoc assms show ?thesis by (auto simp: legal_log_append)
qed

section \<open>Properties\<close>

text \<open>Whatever states a caller requests of a fresh machine, in whatever order, the hook log is
  a path of the transition table from Idle to the machine's state: no request can jump an edge,
  and an illegal request changes nothing.\<close>

theorem fsm_log_legal:
  "legal_log StateIdle (fsm_fired (drive ss (NewFSM True))) (fsm_state (drive ss (NewFSM True)))"
  by (rule legal_log_drive) (simp_all add: NewFSM_def)

text \<open>The flash step is always reached through verification of a finished download: in the log
  of any caller, a move into Flashing is immediately preceded by Downloading to Verifying.\<close>

theorem fsm_no_flash_without_verify:
  assumes "fsm_fired (drive ss (NewFSM True)) = es @ (x, StateFlashing) # rest"
  shows "x = StateVerifying \<and> (\<exists>es'. es = es' @ [(StateDownloading, StateVerifying)])"
proof -
  have log: "legal_log StateIdle (es @ (x, StateFlashing) # rest) (fsm_state (drive ss (NewFSM True)))"
    using legal_log_drive[of StateIdle "NewFSM True" ss] assms by (simp add: NewFSM_def)
  then have x: "x = StateVerifying"
    using into_state(1) by (auto simp: legal_log_append)
  from legal_log_preceded[OF log] x obtain es' z where es: "es = es' @ [(z, StateVerifying)]" by auto
  with log have "StateVerifying \<in> set (validTransitions z)" by (auto simp: legal_log_append)
  with x es show ?thesis using into_state(3) by auto
qed

theorem fsm_no_flash_without_verify_witness:
  "StateVerifying = StateVerifying \<and>
    (\<exists>es'. [(StateIdle, StateDownloading), (StateDownloading, StateVerifying)] = es' @ [(StateDownloading, StateVerifying)])"
  by (rule fsm_no_flash_without_verify[of "[StateDownloading, StateFlashing, StateVerifying, StateFlashing]" _ _ "[]"])
    (simp add: NewFSM_def To_def)

end
