(* ===== verification/Conditions.thy ===== *)
theory Conditions
  imports Fleet_Prelude
begin

text \<open>
  Status conditions. \<open>SetCondition\<close> is the agent's upsert of \<open>internal/agent/kube.go\<close>. The
  operator uses \<open>meta.FindStatusCondition\<close> and \<open>meta.SetStatusCondition\<close> of the Kubernetes API
  machinery instead; their contract, as that package documents it, is the locale
  \<open>condition_api\<close>: an upsert overwrites every field of the condition of its type, moves the
  transition time only when the status value flips, and leaves the other types alone. The locale
  is interpreted on the agent's own \<open>SetCondition\<close>, which its source claims has the same
  contract. The type of times is a parameter: the agent keeps RFC 3339 strings, the operator
  instants.
\<close>

record 't Condition =
  c_Type :: string
  c_Status :: string
  c_ObservedGeneration :: int
  c_LastTransitionTime :: 't
  c_Reason :: string
  c_Message :: string

definition CondFirmwareSynced :: string where "CondFirmwareSynced = ''FirmwareSynced''"
definition CondTrue :: string where "CondTrue = ''True''"
definition CondFalse :: string where "CondFalse = ''False''"

fun SetCondition :: "'t \<Rightarrow> 't Condition list \<Rightarrow> string \<Rightarrow> string \<Rightarrow> string \<Rightarrow> string \<Rightarrow> int \<Rightarrow> 't Condition list" where
  "SetCondition now [] ctype status reason message gen =
     [\<lparr>c_Type = ctype, c_Status = status, c_ObservedGeneration = gen, c_LastTransitionTime = now,
       c_Reason = reason, c_Message = message\<rparr>]"
| "SetCondition now (c # cs) ctype status reason message gen =
     (if c_Type c = ctype then
        c\<lparr>c_LastTransitionTime := (if c_Status c \<noteq> status then now else c_LastTransitionTime c),
          c_Status := status, c_Reason := reason, c_Message := message, c_ObservedGeneration := gen\<rparr> # cs
      else c # SetCondition now cs ctype status reason message gen)"

text \<open>The first condition of a type, and \<open>SetCondition\<close> with its arguments as one condition value.\<close>

definition find_type :: "'t Condition list \<Rightarrow> string \<Rightarrow> 't Condition option" where
  "find_type cs t = List.find (\<lambda>c. c_Type c = t) cs"

definition upsert :: "'t \<Rightarrow> 't Condition \<Rightarrow> 't Condition list \<Rightarrow> 't Condition list" where
  "upsert now c cs = SetCondition now cs (c_Type c) (c_Status c) (c_Reason c) (c_Message c) (c_ObservedGeneration c)"

locale condition_api =
  fixes find_c :: "'t Condition list \<Rightarrow> string \<Rightarrow> 't Condition option"
    and set_c :: "'t \<Rightarrow> 't Condition \<Rightarrow> 't Condition list \<Rightarrow> 't Condition list"
  assumes find_set_same:
      "find_c (set_c now c cs) (c_Type c) =
         Some (c\<lparr>c_LastTransitionTime :=
           (case find_c cs (c_Type c) of
              Some old \<Rightarrow> if c_Status old = c_Status c then c_LastTransitionTime old else now
            | None \<Rightarrow> now)\<rparr>)"
    and find_set_other: "t \<noteq> c_Type c \<Longrightarrow> find_c (set_c now c cs) t = find_c cs t"
begin

lemma find_set:
  "find_c (set_c now c cs) t =
     (if t = c_Type c then Some (c\<lparr>c_LastTransitionTime :=
           (case find_c cs t of
              Some old \<Rightarrow> if c_Status old = c_Status c then c_LastTransitionTime old else now
            | None \<Rightarrow> now)\<rparr>) else find_c cs t)"
  using find_set_same find_set_other by simp

text \<open>Repeating an upsert later moves no transition time.\<close>

lemma find_set_twice: "find_c (set_c later c (set_c now c cs)) t = find_c (set_c now c cs) t"
  by (simp add: find_set)

text \<open>Upserts of different types commute, as seen by any reader.\<close>

lemma find_set_commute:
  "c_Type c \<noteq> c_Type d \<Longrightarrow> find_c (set_c now c (set_c now' d cs)) t = find_c (set_c now' d (set_c now c cs)) t"
  by (simp add: find_set)

end

section \<open>Lemmas\<close>

lemma find_type_Nil [simp]: "find_type [] t = None"
  by (simp add: find_type_def)

lemma find_type_Cons [simp]: "find_type (c # cs) t = (if c_Type c = t then Some c else find_type cs t)"
  by (simp add: find_type_def)

lemma find_type_SetCondition:
  "find_type (SetCondition now cs ctype status reason message gen) t =
     (if t = ctype then Some \<lparr>c_Type = ctype, c_Status = status, c_ObservedGeneration = gen,
        c_LastTransitionTime = (case find_type cs ctype of
            Some old \<Rightarrow> if c_Status old = status then c_LastTransitionTime old else now | None \<Rightarrow> now),
        c_Reason = reason, c_Message = message\<rparr>
      else find_type cs t)"
  by (induction cs) auto

interpretation agent_conditions: condition_api find_type upsert
  by unfold_locales (simp_all add: upsert_def find_type_SetCondition)

lemma SetCondition_types:
  "map c_Type (SetCondition now cs ctype status reason message gen) =
     (if ctype \<in> set (map c_Type cs) then map c_Type cs else map c_Type cs @ [ctype])"
  by (induction cs) auto

lemma distinct_SetCondition:
  "distinct (map c_Type cs) \<Longrightarrow> distinct (map c_Type (SetCondition now cs ctype status reason message gen))"
  by (auto simp: SetCondition_types simp del: map_eq_Cons_conv)

section \<open>Properties\<close>

text \<open>The agent's upsert meets the contract of the Kubernetes condition helpers, as its comment
  claims: reading back any type after \<open>SetCondition\<close> gives the written status, reason, message
  and generation for that type, with the old transition time exactly when the status did not
  flip, and gives every other type unchanged.\<close>

theorem SetCondition_contract: "condition_api find_type upsert"
  by (rule agent_conditions.condition_api_axioms)

text \<open>The condition list stays a map keyed by type (the CRD declares \<open>listMapKey=type\<close>): the
  agent never adds a second condition of a type and never drops one.\<close>

theorem SetCondition_listmap:
  assumes "distinct (map c_Type cs)"
  shows "distinct (map c_Type (SetCondition now cs ctype status reason message gen)) \<and>
    set (map c_Type (SetCondition now cs ctype status reason message gen)) = insert ctype (set (map c_Type cs))"
  using distinct_SetCondition[OF assms] by (auto simp: SetCondition_types simp del: set_map)

theorem SetCondition_listmap_witness:
  "let cs = [\<lparr>c_Type = ''Healthy'', c_Status = ''True'', c_ObservedGeneration = 1, c_LastTransitionTime = 0 :: int,
     c_Reason = ''HeartbeatFresh'', c_Message = []\<rparr>]
   in distinct (map c_Type (SetCondition 7 cs ''FirmwareSynced'' ''False'' ''DownloadFailed'' [] 2)) \<and>
      set (map c_Type (SetCondition 7 cs ''FirmwareSynced'' ''False'' ''DownloadFailed'' [] 2)) =
        insert ''FirmwareSynced'' (set (map c_Type cs))"
  unfolding Let_def by (rule SetCondition_listmap) simp

end
