(* ===== verification/Kube_Client.thy ===== *)
theory Kube_Client
  imports Go_OS Conditions
begin

text \<open>
  The agent's Kubernetes client (\<open>internal/agent/kube.go\<close>): the lean view of the custom
  resource, GET, PUT on the status subresource, and the read-modify-write loop around it.

  The API server is not part of the repository, so it is an argument: a function from method,
  URL and body to a reply, over a state of its own. The wire format is taken at the level of the
  decoded struct; an undecodable body is \<open>None\<close>. What the client relies on is the locale
  \<open>optimistic_server\<close>: the documented resourceVersion precondition of the Kubernetes API. It is
  interpreted on the fake API server of the repository's own tests
  (\<open>internal/agent/kube_test.go\<close>), extended by a script of writes that other clients make
  between two requests.
\<close>

record ObjectMeta =
  m_Name :: string
  m_Namespace :: string
  m_ResourceVersion :: string
  m_Generation :: int
  m_UID :: string

record DeviceSpec =
  sp_DesiredFirmwareVersion :: string
  sp_FirmwareURL :: string
  sp_ChecksumSHA256 :: string
  sp_Region :: string
  sp_DeviceLabels :: "string \<rightharpoonup> string"
  sp_RolloutPaused :: bool

record DeviceStatus =
  st_Phase :: string
  st_Conditions :: "string Condition list"
  st_CurrentFirmwareVersion :: string
  st_ActiveSlot :: string
  st_LastHeartbeat :: string
  st_ObservedGeneration :: int

record Device =
  d_APIVersion :: string
  d_Kind :: string
  d_Metadata :: ObjectMeta
  d_Spec :: DeviceSpec
  d_Status :: DeviceStatus

abbreviation rv :: "Device \<Rightarrow> string" where
  "rv d \<equiv> m_ResourceVersion (d_Metadata d)"

definition set_rv :: "string \<Rightarrow> Device \<Rightarrow> Device" where
  "set_rv v d = d\<lparr>d_Metadata := (d_Metadata d)\<lparr>m_ResourceVersion := v\<rparr>\<rparr>"

record KubeClient =
  kc_base :: string
  kc_namespace :: string
  kc_name :: string

datatype http_reply = Transport go_error | Reply int "Device option"

type_synonym 's server = "string \<Rightarrow> string \<Rightarrow> Device option \<Rightarrow> 's \<Rightarrow> http_reply \<times> 's"

definition url :: "KubeClient \<Rightarrow> string \<Rightarrow> string" where
  "url c sub = TrimSuffix (kc_base c) ''/'' @ ''/apis/edge.example.com/v1alpha1/namespaces/'' @ kc_namespace c
     @ ''/edgedevices/'' @ kc_name c @ sub"

definition Get :: "KubeClient \<Rightarrow> 's server \<Rightarrow> 's \<Rightarrow> (go_error + Device) \<times> 's" where
  "Get c http s =
     (case http ''GET'' (url c []) None s of
        (Transport e, s') \<Rightarrow> (Inl e, s')
      | (Reply code body, s') \<Rightarrow>
          if code \<noteq> 200 then (Inl (Message (''GET '' @ url c [])), s')
          else (case body of None \<Rightarrow> (Inl (Message ''decode''), s') | Some dev \<Rightarrow> (Inr dev, s')))"

text \<open>\<open>PutStatus\<close> stamps API version and kind into the caller's object; the stamped object is returned.\<close>

definition PutStatus :: "KubeClient \<Rightarrow> 's server \<Rightarrow> Device \<Rightarrow> 's \<Rightarrow> go_error option \<times> Device \<times> 's" where
  "PutStatus c http dev s =
     (let dev' = dev\<lparr>d_APIVersion := ''edge.example.com/v1alpha1'', d_Kind := ''EdgeDevice''\<rparr> in
      case http ''PUT'' (url c ''/status'') (Some dev') s of
        (Transport e, s') \<Rightarrow> (Some e, dev', s')
      | (Reply code body, s') \<Rightarrow>
          if code = 409 then (Some ErrConflict, dev', s')
          else if code \<ge> 300 then (Some (Message ''PUT status''), dev', s')
          else (None, dev', s'))"

text \<open>
  The loop of \<open>UpdateStatus\<close>. \<open>mutate\<close> takes the attempt number because the closure it stands for
  reads the clock and the last seen generation anew at every attempt.
\<close>

fun UpdateStatus_loop ::
  "KubeClient \<Rightarrow> 's server \<Rightarrow> (nat \<Rightarrow> Device \<Rightarrow> Device) \<Rightarrow> go_error option \<Rightarrow> nat \<Rightarrow> nat \<Rightarrow> 's \<Rightarrow> (go_error + Device) \<times> 's" where
  "UpdateStatus_loop c http mutate lastErr attempt 0 s =
     (Inl (Wrapped ''giving up after repeated conflicts'' lastErr), s)"
| "UpdateStatus_loop c http mutate lastErr attempt (Suc left) s =
     (case Get c http s of
        (Inl e, s1) \<Rightarrow> (Inl e, s1)
      | (Inr dev, s1) \<Rightarrow>
          (case PutStatus c http (mutate attempt dev) s1 of
             (None, dev', s2) \<Rightarrow> (Inr dev', s2)
           | (Some e, dev', s2) \<Rightarrow>
               if e = ErrConflict then UpdateStatus_loop c http mutate (Some e) (Suc attempt) left s2
               else (Inl e, s2)))"

definition UpdateStatus :: "KubeClient \<Rightarrow> 's server \<Rightarrow> (nat \<Rightarrow> Device \<Rightarrow> Device) \<Rightarrow> 's \<Rightarrow> (go_error + Device) \<times> 's" where
  "UpdateStatus c http mutate s = UpdateStatus_loop c http mutate None 0 5 s"

subsection \<open>The fake API server of the tests\<close>

text \<open>
  \<open>fa_script\<close> lists, for each coming request, the desired versions that other writers set just
  before it is served; \<open>fa_history\<close> records every stored version of the object.
\<close>

record fakeAPI =
  fa_dev :: Device
  fa_rv :: int
  fa_gets :: nat
  fa_puts :: nat
  fa_c409 :: nat
  fa_script :: "string list list"
  fa_history :: "Device list"

definition bumpSpecExternally :: "string \<Rightarrow> fakeAPI \<Rightarrow> fakeAPI" where
  "bumpSpecExternally version f =
     (let dev = fa_dev f;
          dev' = dev\<lparr>d_Spec := (d_Spec dev)\<lparr>sp_DesiredFirmwareVersion := version\<rparr>,
                     d_Metadata := (d_Metadata dev)\<lparr>m_Generation := m_Generation (d_Metadata dev) + 1\<rparr>\<rparr>;
          r = fa_rv f + 1
      in f\<lparr>fa_dev := dev', fa_rv := r, fa_history := fa_history f @ [set_rv (Itoa r) dev']\<rparr>)"

definition interfere :: "fakeAPI \<Rightarrow> fakeAPI" where
  "interfere f = (case fa_script f of [] \<Rightarrow> f | vs # rest \<Rightarrow> fold bumpSpecExternally vs (f\<lparr>fa_script := rest\<rparr>))"

definition handler :: "string \<Rightarrow> Device option \<Rightarrow> fakeAPI \<Rightarrow> http_reply \<times> fakeAPI" where
  "handler method body f =
     (if method = ''GET'' then
        (let dev = set_rv (Itoa (fa_rv f)) (fa_dev f)
         in (Reply 200 (Some dev), f\<lparr>fa_gets := fa_gets f + 1, fa_dev := dev\<rparr>))
      else if method = ''PUT'' then
        (case body of
           None \<Rightarrow> (Reply 409 None, f\<lparr>fa_puts := fa_puts f + 1, fa_c409 := fa_c409 f + 1\<rparr>)
         | Some inp \<Rightarrow>
             if rv inp \<noteq> Itoa (fa_rv f) then (Reply 409 None, f\<lparr>fa_puts := fa_puts f + 1, fa_c409 := fa_c409 f + 1\<rparr>)
             else
               let r = fa_rv f + 1; dev = set_rv (Itoa r) ((fa_dev f)\<lparr>d_Status := d_Status inp\<rparr>)
               in (Reply 200 (Some dev),
                   f\<lparr>fa_puts := fa_puts f + 1, fa_rv := r, fa_dev := dev, fa_history := fa_history f @ [dev]\<rparr>))
      else (Reply 200 None, f))"

definition fake_http :: "fakeAPI server" where
  "fake_http method u body f = handler method body (interfere f)"

definition fake_invar :: "fakeAPI \<Rightarrow> bool" where
  "fake_invar f \<longleftrightarrow> fa_history f \<noteq> [] \<and> last (fa_history f) = set_rv (Itoa (fa_rv f)) (fa_dev f) \<and>
     distinct (map rv (fa_history f)) \<and> (\<forall>v \<in> set (fa_history f). \<exists>i \<le> fa_rv f. rv v = Itoa i)"

definition newFakeAPI :: "string list list \<Rightarrow> fakeAPI" where
  "newFakeAPI script =
     (let dev = \<lparr>d_APIVersion = [], d_Kind = [],
        d_Metadata = \<lparr>m_Name = ''dev-0'', m_Namespace = ''default'', m_ResourceVersion = [], m_Generation = 1, m_UID = []\<rparr>,
        d_Spec = \<lparr>sp_DesiredFirmwareVersion = ''1.0.0'', sp_FirmwareURL = [], sp_ChecksumSHA256 = [], sp_Region = [],
                  sp_DeviceLabels = Map.empty, sp_RolloutPaused = False\<rparr>,
        d_Status = \<lparr>st_Phase = [], st_Conditions = [], st_CurrentFirmwareVersion = [], st_ActiveSlot = [],
                    st_LastHeartbeat = [], st_ObservedGeneration = 0\<rparr>\<rparr>
      in \<lparr>fa_dev = dev, fa_rv = 100, fa_gets = 0, fa_puts = 0, fa_c409 = 0, fa_script = script,
          fa_history = [set_rv (Itoa 100) dev]\<rparr>)"

subsection \<open>What the client relies on\<close>

text \<open>
  \<open>versions s\<close> is the sequence of versions of the object that the server has stored, the current
  one last. A request may be served after other writers added versions.
\<close>

locale optimistic_server =
  fixes http :: "'s server" and versions :: "'s \<Rightarrow> Device list" and invar :: "'s \<Rightarrow> bool"
  assumes invar_http: "invar s \<Longrightarrow> http m u b s = (r, s') \<Longrightarrow> invar s'"
    and stored: "invar s \<Longrightarrow> versions s \<noteq> []"
    and rv_distinct: "invar s \<Longrightarrow> distinct (map rv (versions s))"
    and append_only: "invar s \<Longrightarrow> http m u b s = (r, s') \<Longrightarrow> \<exists>vs. versions s' = versions s @ vs"
    and get_current: "invar s \<Longrightarrow> http ''GET'' u None s = (Reply 200 (Some d), s') \<Longrightarrow> d = last (versions s')"
    and put_precondition: "invar s \<Longrightarrow> http ''PUT'' u (Some d) s = (Reply code b, s') \<Longrightarrow> code < 300 \<Longrightarrow>
          \<exists>vs v'. versions s' = versions s @ vs @ [set_rv v' ((last (versions s @ vs))\<lparr>d_Status := d_Status d\<rparr>)]
            \<and> rv (last (versions s @ vs)) = rv d"
begin

lemma Get_current:
  assumes "invar s" "Get c http s = (Inr d, s')"
  shows "invar s' \<and> d = last (versions s') \<and> (\<exists>vs. versions s' = versions s @ vs)"
  using assms invar_http[of s] append_only[of s] get_current[of s]
  by (auto simp: Get_def split: prod.splits http_reply.splits if_splits option.splits)

text \<open>
  An accepted PUT of an object derived from the version \<open>d\<close> found \<open>d\<close> still current: the new
  version is \<open>d\<close> with the status replaced, stored right after \<open>d\<close>.
\<close>

lemma PutStatus_on_current:
  assumes inv: "invar s" and put: "PutStatus c http d' s = (None, d'', s')"
    and d: "d = last (versions s)" "rv d' = rv d"
  shows "invar s' \<and> d_Status d'' = d_Status d' \<and> (\<exists>v'. versions s' = versions s @ [set_rv v' (d\<lparr>d_Status := d_Status d'\<rparr>)])"
proof -
  let ?p = "d'\<lparr>d_APIVersion := ''edge.example.com/v1alpha1'', d_Kind := ''EdgeDevice''\<rparr>"
  from put obtain code b where h: "http ''PUT'' (url c ''/status'') (Some ?p) s = (Reply code b, s')"
    and code: "code < 300" and d'': "d'' = ?p"
    by (auto simp: PutStatus_def Let_def split: prod.splits http_reply.splits if_splits)
  from put_precondition[OF inv h code] obtain vs v'
    where v: "versions s' = versions s @ vs @ [set_rv v' ((last (versions s @ vs))\<lparr>d_Status := d_Status d'\<rparr>)]"
      and rv: "rv (last (versions s @ vs)) = rv d" using d by auto
  have "invar s'" by (rule invar_http[OF inv h])
  have "vs = []"
  proof (rule ccontr)
    assume "vs \<noteq> []"
    then have "rv (last vs) = rv (last (versions s))" using rv d by simp
    moreover have "distinct (map rv (versions s @ vs))"
      using rv_distinct[OF \<open>invar s'\<close>] v by simp
    ultimately show False using \<open>vs \<noteq> []\<close> stored[OF inv]
      by (auto simp: disjoint_iff) (metis imageI last_in_set)
  qed
  with v d \<open>invar s'\<close> d'' show ?thesis by auto
qed

lemma PutStatus_invar:
  "invar s \<Longrightarrow> PutStatus c http d s = (r, d', s') \<Longrightarrow> invar s' \<and> (\<exists>vs. versions s' = versions s @ vs)"
  using invar_http[of s] append_only[of s]
  by (auto simp: PutStatus_def Let_def split: prod.splits http_reply.splits if_splits)

lemma UpdateStatus_loop_no_lost_update:
  assumes "invar s" "UpdateStatus_loop c http mutate lastErr k n s = (Inr d'', s')"
    and "\<And>i d. rv (mutate i d) = rv d"
  shows "\<exists>i vs v'. d_Status d'' = d_Status (mutate i (last (versions s @ vs))) \<and>
     versions s' = versions s @ vs @ [set_rv v' ((last (versions s @ vs))\<lparr>d_Status := d_Status d''\<rparr>)]"
  using assms(1,2)
proof (induction n arbitrary: s lastErr k)
  case (Suc n)
  obtain r s1 where g: "Get c http s = (r, s1)" by (cases "Get c http s")
  with Suc.prems obtain dev where r: "r = Inr dev" by (cases r) auto
  from Get_current[OF Suc.prems(1)] g r obtain vs
    where s1: "invar s1" "dev = last (versions s1)" "versions s1 = versions s @ vs" by blast
  obtain e dev' s2 where p: "PutStatus c http (mutate k dev) s1 = (e, dev', s2)"
    by (cases "PutStatus c http (mutate k dev) s1") auto
  show ?case
  proof (cases e)
    case None
    with p Suc.prems g r have "d'' = dev'" "s' = s2" by auto
    with PutStatus_on_current[OF s1(1) p[unfolded None] s1(2) assms(3)] s1 show ?thesis by fastforce
  next
    case (Some err)
    with p Suc.prems(2) g r have "UpdateStatus_loop c http mutate (Some err) (Suc k) n s2 = (Inr d'', s')"
      by (auto split: if_splits)
    moreover from PutStatus_invar[OF s1(1) p] obtain ws where "invar s2" "versions s2 = versions s1 @ ws" by blast
    ultimately show ?thesis using Suc.IH[of s2] s1(3) by (metis append.assoc)
  qed
qed simp

end

text \<open>A server that is up: it answers every read with the object, and refuses a write only for its
  resourceVersion.\<close>

locale available_server = optimistic_server +
  assumes get_answers: "invar s \<Longrightarrow> \<exists>d s'. http ''GET'' u None s = (Reply 200 (Some d), s')"
    and put_answers: "invar s \<Longrightarrow> http ''PUT'' u (Some d) s = (r, s') \<Longrightarrow>
          \<exists>code b. r = Reply code b \<and> (code < 300 \<or> code = 409 \<and> rv (last (versions s')) \<noteq> rv d)"
begin

lemma Get_answers: "invar s \<Longrightarrow> \<exists>d s'. Get c http s = (Inr d, s')"
  using get_answers[of s "url c []"] by (auto simp: Get_def)

lemma PutStatus_beaten:
  assumes "invar s" "PutStatus c http d s = (Some e, d', s')" "rv d = rv (last (versions s))"
  shows "e = ErrConflict \<and> length (versions s) < length (versions s')"
proof -
  let ?p = "d\<lparr>d_APIVersion := ''edge.example.com/v1alpha1'', d_Kind := ''EdgeDevice''\<rparr>"
  obtain r s1 where h: "http ''PUT'' (url c ''/status'') (Some ?p) s = (r, s1)" by force
  from put_answers[OF assms(1) h] obtain code b where r: "r = Reply code b" "code < 300 \<or> code = 409 \<and> rv (last (versions s1)) \<noteq> rv d" by auto
  with h assms(2) have c: "code = 409" "e = ErrConflict" "s1 = s'" by (auto simp: PutStatus_def Let_def split: if_splits)
  obtain vs where "versions s' = versions s @ vs" using append_only[OF assms(1) h] c(3) by blast
  with c r(2) assms(3) show ?thesis by (cases vs) auto
qed

lemma UpdateStatus_loop_beaten:
  assumes "invar s" "UpdateStatus_loop c http mutate lastErr k n s = (Inl e, s')" "\<And>i d. rv (mutate i d) = rv d"
  shows "length (versions s) + n \<le> length (versions s')"
  using assms(1,2)
proof (induction n arbitrary: s lastErr k)
  case (Suc n)
  obtain dev s1 where g: "Get c http s = (Inr dev, s1)" using Get_answers[OF Suc.prems(1)] by blast
  from Get_current[OF Suc.prems(1) g] obtain vs where s1: "invar s1" "dev = last (versions s1)" "versions s1 = versions s @ vs" by blast
  obtain err dev' s2 where p: "PutStatus c http (mutate k dev) s1 = (err, dev', s2)" by (metis prod_cases3)
  with g Suc.prems(2) obtain e' where e: "err = Some e'" by (cases err) auto
  from PutStatus_beaten[OF s1(1) p[unfolded e]] assms(3) s1(2) have b: "e' = ErrConflict" "length (versions s1) < length (versions s2)" by auto
  with g p e Suc.prems(2) have "UpdateStatus_loop c http mutate (Some ErrConflict) (Suc k) n s2 = (Inl e, s')" by simp
  from Suc.IH[OF _ this] PutStatus_invar[OF s1(1) p] b(2) s1(3) show ?case by auto
qed simp

end

text \<open>A server that counts the GET and PUT requests it is sent.\<close>

definition counting :: "'s server \<Rightarrow> ('s \<times> nat \<times> nat) server" where
  "counting http m u b = (\<lambda>(s, gets, puts). case http m u b s of
     (r, s') \<Rightarrow> (r, s', if m = ''GET'' then Suc gets else gets, if m = ''PUT'' then Suc puts else puts))"

section \<open>Lemmas\<close>

lemma set_rv_simps [simp]:
  "rv (set_rv v d) = v" "d_Status (set_rv v d) = d_Status d" "d_Spec (set_rv v d) = d_Spec d"
  "set_rv v (set_rv w d) = set_rv v d" "set_rv v (d_Status_update f (set_rv w d)) = set_rv v (d_Status_update f d)"
  by (simp_all add: set_rv_def)

lemma nat_digits_inj: "nat_digits m = nat_digits n \<Longrightarrow> m = n"
  by (metis digits_val_nat_digits)

lemma Itoa_inj [simp]: "Itoa i = Itoa j \<longleftrightarrow> i = j"
proof -
  have "nat_digits n \<noteq> CHR ''-'' # xs" for xs n
    using nat_digits_all_digit[of n] is_digit_not_sign[of "CHR ''-''"] by (metis list.pred_inject(2))
  from this this[symmetric] show ?thesis
    by (auto simp: Itoa_def dest: nat_digits_inj split: if_splits)
qed

lemma fake_invar_step:
  assumes "fake_invar f" "fa_rv f' = fa_rv f + 1" "fa_history f' = fa_history f @ [set_rv (Itoa (fa_rv f + 1)) (fa_dev f')]"
  shows "fake_invar f'"
  using assms by (force simp: fake_invar_def)

lemma fake_invar_bump: "fake_invar f \<Longrightarrow> fake_invar (bumpSpecExternally v f)"
  by (rule fake_invar_step[of f]) (simp_all add: bumpSpecExternally_def Let_def)

lemma fold_bump:
  "fake_invar f \<Longrightarrow> fake_invar (fold bumpSpecExternally vs f) \<and> (\<exists>h. fa_history (fold bumpSpecExternally vs f) = fa_history f @ h)"
proof (induction vs arbitrary: f)
  case (Cons v vs)
  from Cons.IH[OF fake_invar_bump[OF Cons.prems, of v]] show ?case
    by (auto simp: bumpSpecExternally_def Let_def)
qed simp

lemma interfere_invar: "fake_invar f \<Longrightarrow> fake_invar (interfere f) \<and> (\<exists>h. fa_history (interfere f) = fa_history f @ h)"
  using fold_bump[of "f\<lparr>fa_script := _\<rparr>"] by (auto simp: interfere_def fake_invar_def split: list.splits)

lemma handler_invar:
  "fake_invar f \<Longrightarrow> handler m b f = (r, f') \<Longrightarrow> fake_invar f' \<and> (\<exists>h. fa_history f' = fa_history f @ h)"
  using fake_invar_step[of f f']
  by (auto simp: handler_def Let_def fake_invar_def split: if_splits option.splits)

lemma handler_GET: "fake_invar f \<Longrightarrow> handler ''GET'' b f = (Reply c (Some d), f') \<Longrightarrow> d = last (fa_history f')"
  by (auto simp: handler_def Let_def fake_invar_def)

lemma handler_PUT:
  "fake_invar f \<Longrightarrow> handler ''PUT'' (Some d) f = (Reply code b, f') \<Longrightarrow> code < 300 \<Longrightarrow>
     \<exists>v'. fa_history f' = fa_history f @ [set_rv v' ((last (fa_history f))\<lparr>d_Status := d_Status d\<rparr>)] \<and> rv (last (fa_history f)) = rv d"
  by (auto simp: handler_def Let_def fake_invar_def split: if_splits)

interpretation fake: optimistic_server fake_http fa_history fake_invar
proof (unfold_locales, goal_cases)
  case (1 s m u b r s')
  then show ?case using interfere_invar[of s] handler_invar[of "interfere s" m b r s'] by (simp add: fake_http_def)
next
  case (4 s m u b r s')
  then show ?case using interfere_invar[of s] handler_invar[of "interfere s" m b r s'] by (auto simp: fake_http_def)
next
  case (5 s u d s')
  then show ?case using interfere_invar[of s] handler_GET[of "interfere s" None 200 d s'] by (simp add: fake_http_def)
next
  case (6 s u d code b s')
  from interfere_invar[OF 6(1)] obtain h where h: "fake_invar (interfere s)" "fa_history (interfere s) = fa_history s @ h" by blast
  from handler_PUT[OF h(1) 6(2)[unfolded fake_http_def] 6(3)] h(2) show ?case by (metis append.assoc)
qed (simp_all add: fake_invar_def)

lemma newFakeAPI_invar: "fake_invar (newFakeAPI script)"
  by (auto simp: newFakeAPI_def fake_invar_def Let_def)

interpretation fake: available_server fake_http fa_history fake_invar
proof (unfold_locales, goal_cases)
  case (1 s u)
  then show ?case by (simp add: fake_http_def handler_def Let_def)
next
  case (2 s u d r s')
  then have "fake_invar (interfere s)" "handler ''PUT'' (Some d) (interfere s) = (r, s')" using interfere_invar[of s] by (auto simp: fake_http_def)
  then show ?case by (auto simp: handler_def Let_def fake_invar_def split: if_splits)
qed

section \<open>Properties\<close>

text \<open>C10. No lost update. Against any server that keeps the documented resourceVersion precondition,
  when \<open>UpdateStatus\<close> succeeds the version it stored is the version that was current at that
  moment with only the status replaced, the status is the mutation of exactly that version, and
  everything other writers stored before is still in the history. So a conflicting write is
  re-applied to the winner and never overwrites it.\<close>

theorem UpdateStatus_no_lost_update:
  assumes "optimistic_server http versions invar" and "invar s"
    and "UpdateStatus c http mutate s = (Inr d, s')"
    and "\<And>i d. rv (mutate i d) = rv d"
  shows "\<exists>i vs v'. d_Status d = d_Status (mutate i (last (versions s @ vs))) \<and>
     versions s' = versions s @ vs @ [set_rv v' ((last (versions s @ vs))\<lparr>d_Status := d_Status d\<rparr>)]"
  by (rule optimistic_server.UpdateStatus_loop_no_lost_update[OF assms(1,2) assms(3)[unfolded UpdateStatus_def] assms(4)])

theorem UpdateStatus_no_lost_update_witness:
  "let mut = (\<lambda>i d. d\<lparr>d_Status := (d_Status d)\<lparr>st_CurrentFirmwareVersion := ''1.0.0''\<rparr>\<rparr>);
       c = \<lparr>kc_base = ''http://h/'', kc_namespace = ''default'', kc_name = ''dev-0''\<rparr>;
       s = newFakeAPI [[], [''2.0.0'']];
       (r, s') = UpdateStatus c fake_http mut s;
       d = projr r
   in r = Inr d \<and> sp_DesiredFirmwareVersion (d_Spec d) = ''2.0.0'' \<and> fa_c409 s' = 1 \<and>
     (\<exists>i vs v'. d_Status d = d_Status (mut i (last (fa_history s @ vs))) \<and>
     fa_history s' = fa_history s @ vs @ [set_rv v' ((last (fa_history s @ vs))\<lparr>d_Status := d_Status d\<rparr>)])"
proof -
  let ?mut = "\<lambda>(i :: nat) d. d\<lparr>d_Status := (d_Status d)\<lparr>st_CurrentFirmwareVersion := ''1.0.0''\<rparr>\<rparr>"
  let ?c = "\<lparr>kc_base = ''http://h/'', kc_namespace = ''default'', kc_name = ''dev-0''\<rparr>"
  let ?s = "newFakeAPI [[], [''2.0.0'']]"
  let ?u = "UpdateStatus ?c fake_http ?mut ?s"
  have ev: "fst ?u = Inr (projr (fst ?u)) \<and> sp_DesiredFirmwareVersion (d_Spec (projr (fst ?u))) = ''2.0.0'' \<and> fa_c409 (snd ?u) = 1"
    by (simp add: UpdateStatus_def numeral_eq_Suc Get_def PutStatus_def fake_http_def interfere_def newFakeAPI_def
       bumpSpecExternally_def handler_def Let_def)
  then have "?u = (Inr (projr (fst ?u)), snd ?u)" by (metis prod.collapse)
  from UpdateStatus_no_lost_update[OF fake.optimistic_server_axioms newFakeAPI_invar this] ev
  show ?thesis unfolding Let_def by (simp add: case_prod_beta)
qed

text \<open>C33. Only other writers can make a status report fail, and only by persistence: against any API server
  that is up (it keeps the resourceVersion precondition, answers every read with the object, and
  refuses a write only when its resourceVersion is not the current one), \<open>UpdateStatus\<close> succeeds
  unless at least five versions of the object were stored by others while it ran.\<close>

theorem UpdateStatus_wins:
  assumes "available_server http versions invar" "invar s" "\<And>i d. rv (mutate i d) = rv d"
    and "UpdateStatus c http mutate s = (r, s')"
  shows "(\<exists>d. r = Inr d) \<or> length (versions s) + 5 \<le> length (versions s')"
  using available_server.UpdateStatus_loop_beaten[OF assms(1,2) _ assms(3)] assms(4) unfolding UpdateStatus_def by (cases r) auto

theorem UpdateStatus_wins_witness:
  "let u = UpdateStatus \<lparr>kc_base = ''http://h'', kc_namespace = ''n'', kc_name = ''d''\<rparr> fake_http (\<lambda>i d. d)
     (newFakeAPI [[''a''], [''b''], [], [''c'']]) in fa_c409 (snd u) = 2 \<and> (\<exists>d. fst u = Inr d)"
proof -
  let ?s = "newFakeAPI [[''a''], [''b''], [], [''c'']]" and ?c = "\<lparr>kc_base = ''http://h'', kc_namespace = ''n'', kc_name = ''d''\<rparr>"
  let ?u = "UpdateStatus ?c fake_http (\<lambda>i d. d) ?s"
  have ev: "length (fa_history ?s) = 1 \<and> length (fa_history (snd ?u)) = 5 \<and> fa_c409 (snd ?u) = 2"
    by (simp add: UpdateStatus_def numeral_eq_Suc Get_def PutStatus_def fake_http_def interfere_def newFakeAPI_def
       bumpSpecExternally_def handler_def Let_def)
  from UpdateStatus_wins[OF fake.available_server_axioms newFakeAPI_invar[of "[[''a''], [''b''], [], [''c'']]"], where mutate = "\<lambda>i d. d" and c = ?c and r = "fst ?u" and s' = "snd ?u"] ev show ?thesis
    by (auto simp: Let_def)
qed

lemma Get_counting: "Get c (counting http) (s, g, p) = (case Get c http s of (r, s') \<Rightarrow> (r, s', Suc g, p))"
  by (auto simp: Get_def counting_def split: prod.splits http_reply.splits if_splits option.splits)

lemma PutStatus_counting: "PutStatus c (counting http) d (s, g, p) = (case PutStatus c http d s of (e, d', s') \<Rightarrow> (e, d', s', g, Suc p))"
  by (auto simp: PutStatus_def counting_def Let_def split: prod.splits http_reply.splits if_splits)

lemma UpdateStatus_loop_counting:
  "\<exists>g' p'. UpdateStatus_loop c (counting http) mutate e i n (s, g, p) =
      (fst (UpdateStatus_loop c http mutate e i n s), snd (UpdateStatus_loop c http mutate e i n s), g + g', p + p') \<and>
    g' \<le> n \<and> (g' = p' \<or> g' = Suc p' \<and> (\<exists>err. fst (UpdateStatus_loop c http mutate e i n s) = Inl err)) \<and>
    ((\<exists>d. fst (UpdateStatus_loop c http mutate e i n s) = Inr d) \<longrightarrow> 0 < p')"
proof (induction n arbitrary: e i s g p)
  case (Suc n)
  obtain r s1 where get: "Get c http s = (r, s1)" by force
  show ?case
  proof (cases r)
    case (Inl err)
    with get show ?thesis by (intro exI[of _ 1] exI[of _ 0]) (simp add: Get_counting)
  next
    case (Inr dev)
    obtain err d' s2 where put: "PutStatus c http (mutate i dev) s1 = (err, d', s2)" by (metis prod_cases3)
    show ?thesis
    proof (cases "err = Some ErrConflict")
      case True
      from Suc.IH[of "Some ErrConflict" "Suc i" s2 "Suc g" "Suc p"] obtain g' p' where
        "UpdateStatus_loop c (counting http) mutate (Some ErrConflict) (Suc i) n (s2, Suc g, Suc p) =
          (fst (UpdateStatus_loop c http mutate (Some ErrConflict) (Suc i) n s2), snd (UpdateStatus_loop c http mutate (Some ErrConflict) (Suc i) n s2), Suc g + g', Suc p + p')"
        "g' \<le> n" "g' = p' \<or> g' = Suc p' \<and> (\<exists>err. fst (UpdateStatus_loop c http mutate (Some ErrConflict) (Suc i) n s2) = Inl err)" by blast
      with get Inr put True show ?thesis by (intro exI[of _ "Suc g'"] exI[of _ "Suc p'"]) (simp add: Get_counting PutStatus_counting)
    next
      case False
      with get Inr put show ?thesis by (intro exI[of _ 1] exI[of _ 1]) (cases err; simp add: Get_counting PutStatus_counting)
    qed
  qed
qed simp

text \<open>C28. A status report ends: against any server, however it answers, \<open>UpdateStatus\<close> returns after at
  most five rounds, a GET and a PUT each (the last PUT is missing when a GET failed), and counting
  its requests does not change what it does. Success means at least one PUT.\<close>

theorem UpdateStatus_bounded:
  "\<exists>gets puts. UpdateStatus c (counting http) mutate (s, 0, 0) =
      (fst (UpdateStatus c http mutate s), snd (UpdateStatus c http mutate s), gets, puts) \<and>
    gets \<le> 5 \<and> (gets = puts \<or> gets = Suc puts \<and> (\<exists>err. fst (UpdateStatus c http mutate s) = Inl err)) \<and>
    ((\<exists>d. fst (UpdateStatus c http mutate s) = Inr d) \<longrightarrow> 0 < puts)"
  using UpdateStatus_loop_counting[of c http mutate None 0 5 s 0 0] by (simp add: UpdateStatus_def)

theorem UpdateStatus_bounded_witness:
  "\<exists>gets puts. UpdateStatus \<lparr>kc_base = [], kc_namespace = [], kc_name = []\<rparr> (counting fake_http) (\<lambda>_ d. d) (newFakeAPI [], 0, 0) =
      (fst (UpdateStatus \<lparr>kc_base = [], kc_namespace = [], kc_name = []\<rparr> fake_http (\<lambda>_ d. d) (newFakeAPI [])), snd (UpdateStatus \<lparr>kc_base = [], kc_namespace = [], kc_name = []\<rparr> fake_http (\<lambda>_ d. d) (newFakeAPI [])), gets, puts) \<and> gets \<le> 5"
  using UpdateStatus_bounded[of "\<lparr>kc_base = [], kc_namespace = [], kc_name = []\<rparr>" fake_http "\<lambda>_ d. d" "newFakeAPI []"] by blast

end
