(* ===== verification/Download.thy ===== *)
theory Download
  imports Digest
begin

text \<open>
  The resumable download of \<open>internal/agent/download.go\<close>. The firmware server is an argument: its
  reply to the \<open>i\<close>-th attempt, given the URL and the offset of the Range header (0 stands for no
  header). A reply carries the bytes that arrived and whether the body broke off. Waiting is not
  modelled, only whether the context is cancelled while the \<open>i\<close>-th wait lasts; the backoff that
  is waited for is computed in 64-bit arithmetic, because \<open>rand.N\<close> panics on a value that is not
  positive.
\<close>

record DownloadOptions =
  do_MaxAttempts :: int
  do_BaseBackoff :: int
  do_MaxBackoff :: int
  do_AttemptTimeout :: int

definition withDefaults :: "DownloadOptions \<Rightarrow> DownloadOptions" where
  "withDefaults o' =
     \<lparr>do_MaxAttempts = (if do_MaxAttempts o' = 0 then 5 else do_MaxAttempts o'),
      do_BaseBackoff = (if do_BaseBackoff o' = 0 then 500000000 else do_BaseBackoff o'),
      do_MaxBackoff = (if do_MaxBackoff o' = 0 then 15000000000 else do_MaxBackoff o'),
      do_AttemptTimeout = (if do_AttemptTimeout o' = 0 then 120000000000 else do_AttemptTimeout o')\<rparr>"

datatype dl_reply = DlTransport go_error | DlReply int string bool

type_synonym firmware_server = "nat \<Rightarrow> string \<Rightarrow> nat \<Rightarrow> dl_reply"

definition http_get :: "firmware_server \<Rightarrow> nat \<Rightarrow> string \<Rightarrow> nat \<Rightarrow> dl_reply prog" where
  "http_get net attempt url offset w =
     (case fate (SysHttp url) w of
        Loss \<Rightarrow> (Died, advance w)
      | LossAfter _ \<Rightarrow> (Died, advance w)
      | _ \<Rightarrow> (Done (net attempt url offset), advance w))"

definition copy_body :: "path \<Rightarrow> string \<Rightarrow> bool \<Rightarrow> (go_error + unit) prog" where
  "copy_body dest body interrupted =
     bindp (os_Append dest body) (\<lambda>r. case r of
       Inl e \<Rightarrow> retp (Inl (Wrapped ''transfer interrupted'' (Some e)))
     | Inr _ \<Rightarrow> if interrupted then retp (Inl (Wrapped ''transfer interrupted'' None)) else retp (Inr ()))"

definition store_reply :: "path \<Rightarrow> dl_reply \<Rightarrow> (go_error + unit) prog" where
  "store_reply dest resp = (case resp of
     DlTransport e \<Rightarrow> retp (Inl e)
   | DlReply code body interrupted \<Rightarrow>
       if code = 206 then bindE (os_OpenAppend dest) (\<lambda>_. copy_body dest body interrupted)
       else if code = 200 then bindE (os_Create dest) (\<lambda>_. copy_body dest body interrupted)
       else if code = 416 then
         bindp (os_Remove dest) (\<lambda>_. retp (Inl (Message ''server rejected range, restarting'')))
       else retp (Inl (Message ''unexpected status'')))"

definition downloadOnce :: "firmware_server \<Rightarrow> nat \<Rightarrow> string \<Rightarrow> path \<Rightarrow> (go_error + unit) prog" where
  "downloadOnce net attempt url dest =
     bindp (os_Stat dest) (\<lambda>st.
       let offset = (case st of Inr sz \<Rightarrow> sz | Inl _ \<Rightarrow> 0) in
       bindp (http_get net attempt url offset) (store_reply dest))"

lemmas downloadOnce_defs = downloadOnce_def store_reply_def[abs_def]

text \<open>\<open>min(o.BaseBackoff<<(attempt-1), o.MaxBackoff)\<close>\<close>

definition backoff :: "DownloadOptions \<Rightarrow> nat \<Rightarrow> int" where
  "backoff o' attempt = min (wrap64 (do_BaseBackoff o' * 2 ^ (attempt - 1))) (do_MaxBackoff o')"

text \<open>The slept time for a drawn random number \<open>r\<close> below the backoff; Go's division truncates, the backoff is positive.\<close>

definition sleep_time :: "int \<Rightarrow> int \<Rightarrow> int" where
  "sleep_time b r = b div 2 + r"

fun download_loop ::
  "firmware_server \<Rightarrow> (nat \<Rightarrow> bool) \<Rightarrow> string \<Rightarrow> path \<Rightarrow> DownloadOptions \<Rightarrow> go_error option \<Rightarrow> nat \<Rightarrow> nat \<Rightarrow> (go_error + unit) prog" where
  "download_loop net cancelled url dest o' lastErr attempt 0 =
     retp (Inl (Wrapped ''download failed'' lastErr))"
| "download_loop net cancelled url dest o' lastErr attempt (Suc left) =
     (let try = bindp (downloadOnce net attempt url dest) (\<lambda>r. case r of
                  Inl e \<Rightarrow> download_loop net cancelled url dest o' (Some e) (Suc attempt) left
                | Inr _ \<Rightarrow> retp (Inr ()))
      in if attempt > 0 then
           (if backoff o' attempt \<le> 0 then panicp
            else if cancelled attempt then retp (Inl (Message ''context canceled''))
            else try)
         else try)"

definition DownloadWithResume ::
  "firmware_server \<Rightarrow> (nat \<Rightarrow> bool) \<Rightarrow> string \<Rightarrow> path \<Rightarrow> DownloadOptions \<Rightarrow> (go_error + unit) prog" where
  "DownloadWithResume net cancelled url dest opts =
     (let o' = withDefaults opts
      in download_loop net cancelled url dest o' None 0 (nat (do_MaxAttempts o')))"

text \<open>
  A server that serves the image \<open>F\<close>: a 200 body is a prefix of \<open>F\<close>, all of it when the body does
  not break off; a 206 answers a Range header and carries a prefix of the bytes from the offset on.
\<close>

definition serves :: "firmware_server \<Rightarrow> string \<Rightarrow> string \<Rightarrow> bool" where
  "serves net url F \<longleftrightarrow> (\<forall>i off. case net i url off of
      DlTransport _ \<Rightarrow> True
    | DlReply code body intr \<Rightarrow>
        (code = 200 \<longrightarrow> prefix body F \<and> (\<not> intr \<longrightarrow> body = F)) \<and>
        (code = 206 \<longrightarrow> off > 0 \<and> prefix body (drop off F) \<and> (\<not> intr \<longrightarrow> body = drop off F)))"

text \<open>The destination holds an initial piece of \<open>F\<close>, or does not exist.\<close>

definition partial_of :: "string \<Rightarrow> path \<Rightarrow> world \<Rightarrow> bool" where
  "partial_of F dest w \<longleftrightarrow> (case files w dest of None \<Rightarrow> True | Some (File c) \<Rightarrow> prefix c F | _ \<Rightarrow> False)"

text \<open>The reply carries everything that was asked for.\<close>

definition delivers :: "dl_reply \<Rightarrow> bool" where
  "delivers r \<longleftrightarrow> (case r of DlTransport _ \<Rightarrow> False | DlReply code _ intr \<Rightarrow> (code = 200 \<or> code = 206) \<and> \<not> intr)"

text \<open>
  An attempt is answered: everything asked for arrives, or a range that starts at the end of the
  image is refused (416), as RFC 9110 asks of a server.
\<close>

definition answers :: "firmware_server \<Rightarrow> string \<Rightarrow> string \<Rightarrow> nat \<Rightarrow> bool" where
  "answers net url F i \<longleftrightarrow> (\<forall>off \<le> length F. case net i url off of
      DlTransport _ \<Rightarrow> False
    | DlReply code body intr \<Rightarrow> \<not> intr \<and> (code = 200 \<or> code = 206) \<or> code = 416 \<and> 0 < off \<and> off = length F)"

text \<open>
  Among the first \<open>n\<close> attempts one delivers whatever is asked for, or two in a row are answered: a
  complete file left by an earlier run is refused and removed in the first and fetched again in the second.
\<close>

definition responsive :: "firmware_server \<Rightarrow> string \<Rightarrow> string \<Rightarrow> nat \<Rightarrow> nat \<Rightarrow> bool" where
  "responsive net url F a n \<longleftrightarrow>
     (\<exists>i. a \<le> i \<and> i < a + n \<and> (\<forall>off. delivers (net i url off))) \<or>
     (\<exists>i. a \<le> i \<and> Suc i < a + n \<and> answers net url F i \<and> answers net url F (Suc i))"

text \<open>A server that drops the connection after two bytes of the image on the first attempt.\<close>

definition flaky_server :: firmware_server where
  "flaky_server attempt url off =
     (if attempt = 0 then DlReply 200 ''im'' True
      else if off = 0 then DlReply 200 ''image1'' False else DlReply 206 (drop off ''image1'') False)"

definition download_world :: world where
  "download_world = \<lparr>files = [[] \<mapsto> Dir, [''d''] \<mapsto> Dir], tick = 0, fate_of = (\<lambda>_ _. Ok)\<rparr>"

definition default_options :: DownloadOptions where
  "default_options = \<lparr>do_MaxAttempts = 0, do_BaseBackoff = 0, do_MaxBackoff = 0, do_AttemptTimeout = 0\<rparr>"

section \<open>Lemmas\<close>

lemma wp_http_get:
  assumes "\<And>w1. files w1 = files w \<Longrightarrow> fate_of w1 = fate_of w \<Longrightarrow> Q (net i url off) w1"
    and "\<And>w1. files w1 = files w \<Longrightarrow> fate_of w1 = fate_of w \<Longrightarrow> C w1"
  shows "wp (http_get net i url off) Q C w"
  using assms[of "advance w"] by (auto simp: wp_def http_get_def split: fault.splits)

lemma wp_Append:
  assumes "files w p = Some (File old)" "no_rot w"
    and "\<And>w1. files w1 = (files w)(p \<mapsto> File (old @ data)) \<Longrightarrow> fate_of w1 = fate_of w \<Longrightarrow> Q (Inr ()) w1"
    and "\<And>w1 e k. files w1 = (files w)(p \<mapsto> File (old @ take k data)) \<Longrightarrow> fate_of w1 = fate_of w \<Longrightarrow> Q (Inl e) w1"
    and "\<And>w1 k. files w1 = (files w)(p \<mapsto> File (old @ take k data)) \<Longrightarrow> fate_of w1 = fate_of w \<Longrightarrow> C w1"
  shows "wp (os_Append p data) Q C w"
proof -
  have same: "files (advance w) = (files w)(p \<mapsto> File (old @ take 0 data))" using assms(1) by auto
  show ?thesis
    using assms(1,2) assms(3)[of "set_node p (Some (File (old @ data))) (advance w)"]
      assms(4)[OF same] assms(5)[OF same] assms(4)[of "set_node p _ (advance w)"] assms(5)[of "set_node p _ (advance w)"]
    by (auto simp: wp_def os_Append_def no_rot_def fate_def split: fault.splits)
qed

lemma wp_Open_writable:
  assumes "\<And>w1. files w1 = (files w)(p \<mapsto> File (case files w p of Some (File c) \<Rightarrow> c | _ \<Rightarrow> [])) \<Longrightarrow> fate_of w1 = fate_of w \<Longrightarrow> Q (Inr ()) w1"
    and "\<And>w1 e. files w1 = files w \<Longrightarrow> fate_of w1 = fate_of w \<Longrightarrow> Q (Inl e) w1"
    and "\<And>w1. files w1 = files w \<Longrightarrow> fate_of w1 = fate_of w \<Longrightarrow> C w1"
  shows "wp (os_OpenAppend p) Q C w"
  unfolding os_OpenAppend_def
  by (rule wp_atomic_call) (auto intro!: assms simp: fun_upd_idem split: option.splits node.splits)

lemma wp_Create:
  assumes "\<And>w1. files w1 = (files w)(p \<mapsto> File []) \<Longrightarrow> fate_of w1 = fate_of w \<Longrightarrow> Q (Inr ()) w1"
    and "\<And>w1 e. files w1 = files w \<Longrightarrow> fate_of w1 = fate_of w \<Longrightarrow> Q (Inl e) w1"
    and "\<And>w1. files w1 = files w \<Longrightarrow> fate_of w1 = fate_of w \<Longrightarrow> C w1"
  shows "wp (os_Create p) Q C w"
  unfolding os_Create_def
  by (rule wp_atomic_call) (auto intro!: assms split: option.splits node.splits)

lemma wp_Stat_size:
  assumes "\<And>w1. files w1 = files w \<Longrightarrow> fate_of w1 = fate_of w \<Longrightarrow> Q (Inr (case files w p of Some (File c) \<Rightarrow> length c | _ \<Rightarrow> 0)) w1"
    and "\<And>w1 e. files w1 = files w \<Longrightarrow> fate_of w1 = fate_of w \<Longrightarrow> Q (Inl e) w1"
    and "\<And>w1. files w1 = files w \<Longrightarrow> fate_of w1 = fate_of w \<Longrightarrow> C w1"
  shows "wp (os_Stat p) Q C w"
  unfolding os_Stat_def
proof (rule wp_atomic_call, goal_cases)
  case (1 w1)
  with assms(1)[of w1] assms(2)[of w1] show ?case by (auto split: option.splits node.splits)
qed (auto intro: assms)

lemma partial_of_upd: "files w = f(dest \<mapsto> File c) \<Longrightarrow> partial_of F dest w = prefix c F"
  by (simp add: partial_of_def)

lemma wp_copy_body:
  assumes "files w dest = Some (File old)" "no_rot w" "prefix (old @ body) F" "\<not> intr \<Longrightarrow> old @ body = F"
  shows "wp (copy_body dest body intr)
    (\<lambda>r w'. partial_of F dest w' \<and> fate_of w' = fate_of w \<and> (r = Inr () \<longrightarrow> files w' dest = Some (File F)))
    (\<lambda>w'. partial_of F dest w') w"
proof -
  have "prefix (old @ take k body) F" for k
    using assms(3) by (metis prefix_order.trans same_prefix_prefix take_is_prefix)
  with assms show ?thesis
    unfolding copy_body_def wp_bindp
    by (intro wp_Append[OF assms(1,2)]) (auto simp: wp_retp partial_of_upd)
qed

text \<open>A continued body fits behind the partial file whose size was asked for.\<close>

lemma resumed_body:
  assumes "serves net url F" "net i url (length c) = DlReply 206 b intr" "prefix c F"
  shows "prefix (c @ b) F" "\<not> intr \<longrightarrow> c @ b = F"
proof -
  have b: "prefix b (drop (length c) F)" "\<not> intr \<longrightarrow> b = drop (length c) F"
    using assms(1)[unfolded serves_def, THEN spec, THEN spec, of "length c" i] assms(2) by simp_all
  obtain z where "F = c @ z" using assms(3) by (auto simp: prefix_def)
  with b show "prefix (c @ b) F" "\<not> intr \<longrightarrow> c @ b = F" by simp_all
qed

lemma wp_store_reply:
  assumes net: "serves net url F" and w: "partial_of F dest w" "no_rot w"
    and w1: "files w1 = files w" "fate_of w1 = fate_of w"
    and off: "off > 0 \<Longrightarrow> \<exists>c. files w dest = Some (File c) \<and> length c = off"
  shows "wp (store_reply dest (net i url off))
    (\<lambda>r w'. partial_of F dest w' \<and> fate_of w' = fate_of w \<and> (r = Inr () \<longrightarrow> files w' dest = Some (File F)))
    (\<lambda>w'. partial_of F dest w') w1" (is "wp _ ?Q ?C w1")
proof (cases "net i url off")
  case (DlTransport e)
  with w w1 show ?thesis by (simp add: store_reply_def wp_retp partial_of_def)
next
  case (DlReply code b intr)
  have s: "code = 200 \<longrightarrow> prefix b F \<and> (\<not> intr \<longrightarrow> b = F)" "code = 206 \<longrightarrow> off > 0"
    using net[unfolded serves_def, THEN spec, THEN spec, of off i] DlReply by simp_all
  have rest: "wp (copy_body dest b intr) ?Q ?C w2"
    if "files w2 = (files w)(dest \<mapsto> File old)" "fate_of w2 = fate_of w" "prefix (old @ b) F" "\<not> intr \<longrightarrow> old @ b = F" for w2 old
    using wp_copy_body[of w2 dest old b F intr] that w(2) by (simp add: no_rot_def)
  have p: "partial_of F dest w2" if "files w2 = files w" for w2 using w(1) that by (simp add: partial_of_def)
  have gone: "partial_of F dest w2" if "files w2 = (files w)(dest := None)" for w2 using that by (simp add: partial_of_def)
  consider "code = 206" | "code = 200" | "code = 416" | "code \<notin> {206, 200, 416}" by auto
  then show ?thesis
  proof cases
    case 1
    with s(2) off obtain c where c: "files w dest = Some (File c)" "length c = off" by auto
    with resumed_body[OF net, of i c b intr] DlReply 1 w(1) have "prefix (c @ b) F" "\<not> intr \<longrightarrow> c @ b = F" by (simp_all add: partial_of_def)
    then have "wp (bindE (os_OpenAppend dest) (\<lambda>_. copy_body dest b intr)) ?Q ?C w1"
      unfolding wp_bindE by (intro wp_Open_writable) (simp_all add: c w1 p rest[of _ c])
    with 1 DlReply show ?thesis by (simp add: store_reply_def)
  next
    case 2
    with s(1) have b: "prefix ([] @ b) F" "\<not> intr \<longrightarrow> [] @ b = F" by simp_all
    have "wp (bindE (os_Create dest) (\<lambda>_. copy_body dest b intr)) ?Q ?C w1"
      unfolding wp_bindE by (rule wp_Create) (use b in \<open>simp_all add: w1 p rest[of _ "[]"]\<close>)
    with 2 DlReply show ?thesis by (simp add: store_reply_def)
  next
    case 3
    have "wp (bindp (os_Remove dest) (\<lambda>_. retp (Inl (Message ''server rejected range, restarting'')))) ?Q ?C w1"
      unfolding wp_bindp by (rule wp_Remove) (use w1 p gone in \<open>auto simp: wp_retp\<close>)
    with 3 DlReply show ?thesis by (simp add: store_reply_def)
  next
    case 4
    with DlReply w1 p show ?thesis by (simp add: store_reply_def wp_retp)
  qed
qed

lemma downloadOnce_wp:
  assumes net: "serves net url F" and w: "partial_of F dest w" "no_rot w"
  shows "wp (downloadOnce net i url dest)
    (\<lambda>r w'. partial_of F dest w' \<and> fate_of w' = fate_of w \<and> (r = Inr () \<longrightarrow> files w' dest = Some (File F)))
    (\<lambda>w'. partial_of F dest w') w"
  unfolding downloadOnce_def wp_bindp Let_def
proof (rule wp_Stat_size, goal_cases)
  case (1 w1)
  show ?case
    by (rule wp_http_get; (rule wp_store_reply[OF assms])?)
      (use 1 w(1) in \<open>auto simp: partial_of_def split: option.splits node.splits\<close>)
next
  case (2 w1 e)
  show ?case by (rule wp_http_get; (rule wp_store_reply[OF assms])?) (use 2 w(1) in \<open>auto simp: partial_of_def\<close>)
next
  case (3 w1)
  with w(1) show ?case by (simp add: partial_of_def)
qed

subsection \<open>The retry loop\<close>

lemma download_loop_wp:
  assumes net: "serves net url F"
  shows "partial_of F dest w \<Longrightarrow> no_rot w \<Longrightarrow> wp (download_loop net cancelled url dest o' e a n)
    (\<lambda>r w'. partial_of F dest w' \<and> (r = Inr () \<longrightarrow> files w' dest = Some (File F)))
    (\<lambda>w'. partial_of F dest w') w"
proof (induction n arbitrary: w e a)
  case 0
  then show ?case by (simp add: wp_retp)
next
  case (Suc n)
  have nr: "no_rot w'" if "fate_of w' = fate_of w" for w' :: world using Suc.prems that by (simp add: no_rot_def)
  have "wp (bindp (downloadOnce net a url dest) (\<lambda>r. case r of
              Inl e \<Rightarrow> download_loop net cancelled url dest o' (Some e) (Suc a) n | Inr _ \<Rightarrow> retp (Inr ())))
      (\<lambda>r w'. partial_of F dest w' \<and> (r = Inr () \<longrightarrow> files w' dest = Some (File F)))
      (\<lambda>w'. partial_of F dest w') w"
    unfolding wp_bindp
    by (rule wp_mono[OF downloadOnce_wp[OF net Suc.prems]]) (auto simp: wp_retp nr intro: Suc.IH split: sum.splits)
  with Suc.prems show ?case by (cases "a = 0") (auto simp: wp_retp wp_panicp Let_def)
qed

lemma wp_copy_body_all_ok:
  assumes "all_ok w" "files w dest = Some (File c)" "parent_ok dest w"
  shows "wp (copy_body dest b t) (\<lambda>r w'. all_ok w' \<and> parent_ok dest w' \<and> is_file (files w' dest) \<and> (\<not> t \<longrightarrow> r = Inr ())) (\<lambda>_. False) w"
proof -
  have "butlast dest \<noteq> dest" using assms(3) by (metis append_butlast_last_id not_Cons_self2 append_self_conv parent_ok_def)
  with assms show ?thesis by (simp add: wp_def copy_body_def bindp_def os_Append_def retp_def parent_ok_def)
qed

text \<open>One attempt where no local operation fails: the next attempt can follow, and a full answer succeeds.\<close>

lemma downloadOnce_all_ok:
  assumes "all_ok w" "parent_ok dest w" "files w dest = None \<or> is_file (files w dest)"
  shows "wp (downloadOnce net i url dest)
    (\<lambda>r w'. all_ok w' \<and> parent_ok dest w' \<and> (files w' dest = None \<or> is_file (files w' dest)) \<and>
      ((\<forall>off. delivers (net i url off)) \<longrightarrow> r = Inr ())) (\<lambda>_. False) w"
  (is "wp _ ?Q ?C w")
proof -
  have ne: "butlast dest \<noteq> dest" using assms(2) by (metis append_butlast_last_id not_Cons_self2 append_self_conv parent_ok_def)
  have P: "parent_ok dest (set_node dest n w1) = parent_ok dest w1" for n w1 using ne by (simp add: parent_ok_def)
  have cb: "wp (copy_body dest b t) ?Q ?C w1"
    if "all_ok w1" "files w1 dest = Some (File c)" "parent_ok dest w1" "(\<forall>off. delivers (net i url off)) \<Longrightarrow> \<not> t" for w1 b t c
    by (rule wp_mono[OF wp_copy_body_all_ok[OF that(1-3)]]) (use that(4) in auto)
  obtain off where st: "wp (os_Stat dest) Q C w = Q off (advance w)" for Q C
    using assms by (cases "files w dest" rule: is_file.cases) (auto simp: os_Stat_def wp_atomic_call_all_ok)
  let ?off = "case off of Inr sz \<Rightarrow> sz | Inl _ \<Rightarrow> 0"
  have d: "delivers (net i url ?off)" if "\<forall>off. delivers (net i url off)" using that by blast
  show ?thesis
  proof (cases "net i url ?off")
    case (DlTransport e)
    with d have "\<not> (\<forall>off. delivers (net i url off))" by (auto simp: delivers_def)
    then show ?thesis
      using assms DlTransport unfolding downloadOnce_defs wp_bindp st Let_def
      by (simp add: wp_def[of "http_get _ _ _ _"] http_get_def wp_retp)
  next
    case (DlReply code b t)
    with d have t: "(\<forall>off. delivers (net i url off)) \<Longrightarrow> \<not> t \<and> (code = 200 \<or> code = 206)" by (auto simp: delivers_def)
    show ?thesis
      using assms DlReply unfolding downloadOnce_defs wp_bindp st Let_def
      by (auto simp: wp_def[of "http_get _ _ _ _"] http_get_def wp_bindE os_OpenAppend_def os_Create_def os_Remove_def wp_rules P
          split: option.splits node.splits intro!: cb dest: t)
        (use t in fastforce)+
  qed
qed

lemma stat_offset:
  assumes "all_ok w" "partial_of F dest w"
  shows "\<exists>r. (\<forall>Q C. wp (os_Stat dest) Q C w = Q r (advance w)) \<and>
    (case r of Inr sz \<Rightarrow> sz | Inl _ \<Rightarrow> 0) = (case files w dest of Some (File c) \<Rightarrow> length c | _ \<Rightarrow> 0)"
  using assms by (cases "files w dest" rule: is_file.cases) (auto simp: os_Stat_def wp_atomic_call_all_ok partial_of_def)

lemma downloadOnce_answers:
  assumes w: "all_ok w" "parent_ok dest w" "partial_of F dest w" and ans: "answers net url F i"
  shows "wp (downloadOnce net i url dest)
    (\<lambda>r w'. all_ok w' \<and> parent_ok dest w' \<and> (r = Inr () \<or> files w' dest = None \<and> files w dest \<noteq> None)) (\<lambda>_. False) w"
  (is "wp _ ?Q ?C w")
proof -
  have ne: "butlast dest \<noteq> dest" using w(2) by (metis append_butlast_last_id not_Cons_self2 append_self_conv parent_ok_def)
  have P: "parent_ok dest (set_node dest n w1) = parent_ok dest w1" for n w1 using ne by (simp add: parent_ok_def)
  have cb: "wp (copy_body dest b False) (\<lambda>r w'. all_ok w' \<and> parent_ok dest w' \<and> R r w') ?C w1"
    if "all_ok w1" "files w1 dest = Some (File c)" "parent_ok dest w1" "\<And>w'. R (Inr ()) w'" for w1 b c R
    by (rule wp_mono[OF wp_copy_body_all_ok[OF that(1-3)]]) (use that(4) in auto)
  obtain r where st: "\<And>Q C. wp (os_Stat dest) Q C w = Q r (advance w)"
    and off: "(case r of Inr sz \<Rightarrow> sz | Inl _ \<Rightarrow> 0) = (case files w dest of Some (File c) \<Rightarrow> length c | _ \<Rightarrow> 0)"
    using stat_offset[OF w(1,3)] by blast
  let ?off = "case files w dest of Some (File c) \<Rightarrow> length c | _ \<Rightarrow> 0"
  have "?off \<le> length F" using w(3) by (auto simp: partial_of_def prefix_length_le split: option.splits node.splits)
  with ans have a: "case net i url ?off of DlTransport _ \<Rightarrow> False
    | DlReply code body intr \<Rightarrow> \<not> intr \<and> (code = 200 \<or> code = 206) \<or> code = 416 \<and> 0 < ?off \<and> ?off = length F" unfolding answers_def by blast
  then obtain code b t where n: "net i url ?off = DlReply code b t" "\<not> t \<and> (code = 200 \<or> code = 206) \<or> code = 416 \<and> 0 < ?off"
    by (cases "net i url ?off") auto
  show ?thesis
    using w n unfolding downloadOnce_defs wp_bindp st Let_def off
    by (auto simp: wp_def[of "http_get _ _ _ _"] http_get_def wp_bindE os_OpenAppend_def os_Create_def os_Remove_def wp_rules P partial_of_def
        split: option.splits node.splits intro!: cb)
qed


lemma responsive_step:
  assumes "responsive net url F a (Suc n)"
  shows "(\<forall>off. delivers (net a url off)) \<or> answers net url F a \<and> answers net url F (Suc a) \<and> 0 < n \<or> responsive net url F (Suc a) n"
  using assms unfolding responsive_def by (metis (no_types, lifting) Suc_leI add_Suc_shift add_0_right less_add_same_cancel1 not_less_eq order_le_imp_less_or_eq)

lemma download_loop_responsive:
  assumes net: "serves net url F" and res: "responsive net url F a n \<or> 0 < n \<and> answers net url F a \<and> files w dest = None"
    and bo: "\<And>i. a \<le> i \<Longrightarrow> 0 < i \<Longrightarrow> i < a + n \<Longrightarrow> backoff o' i > 0" and nc: "\<And>i. \<not> cancelled i"
    and w: "all_ok w" "parent_ok dest w" "partial_of F dest w"
  shows "wp (download_loop net cancelled url dest o' e a n) (\<lambda>r w'. r = Inr ()) (\<lambda>_. False) w"
  using res bo w
proof (induction n arbitrary: w e a)
  case (Suc n)
  let ?goal = "wp (bindp (downloadOnce net a url dest) (\<lambda>r. case r of
      Inl e \<Rightarrow> download_loop net cancelled url dest o' (Some e) (Suc a) n | Inr _ \<Rightarrow> retp (Inr ()))) (\<lambda>r w'. r = Inr ()) (\<lambda>_. False) w"
  have f: "files w dest = None \<or> is_file (files w dest)" using Suc.prems(5) by (auto simp: partial_of_def split: option.splits node.splits)
  have nr: "no_rot w" using Suc.prems(3) by (simp add: all_ok_def no_rot_def)
  have IH: "wp (download_loop net cancelled url dest o' e' (Suc a) n) (\<lambda>r w'. r = Inr ()) (\<lambda>_. False) w'"
    if "responsive net url F (Suc a) n \<or> 0 < n \<and> answers net url F (Suc a) \<and> files w' dest = None"
      "all_ok w'" "parent_ok dest w'" "partial_of F dest w'" for w' e'
    by (rule Suc.IH[OF that(1) _ that(2-4)]) (use Suc.prems(2) in auto)
  have one: ?goal if "answers net url F a" "files w dest = None \<or> 0 < n \<and> answers net url F (Suc a)"
    unfolding wp_bindp
    by (rule wp_mono[OF downloadOnce_answers[OF Suc.prems(3-5) that(1)]])
      (use that(2) in \<open>auto simp: wp_retp partial_of_def split: sum.splits intro!: IH\<close>)
  have two: ?goal if "(\<forall>off. delivers (net a url off)) \<or> responsive net url F (Suc a) n"
    unfolding wp_bindp
    by (rule wp_mono[OF wp_conj[OF downloadOnce_all_ok[OF Suc.prems(3,4) f] downloadOnce_wp[OF net Suc.prems(5) nr]]])
      (use that in \<open>auto simp: wp_retp split: sum.splits intro!: IH\<close>)
  have ?goal using Suc.prems(1) responsive_step[of net url F a n] one two by blast
  moreover have "backoff o' a > 0" if "a > 0" using Suc.prems(2)[of a] that by simp
  ultimately show ?case using nc[of a] by (cases "a = 0") (auto simp: Let_def not_le)
qed (auto simp: responsive_def)

lemma backoff_bounds:
  assumes "0 < do_BaseBackoff o'" "0 < do_MaxBackoff o'" "do_BaseBackoff o' * 2 ^ (i - 1) < 2 ^ 63"
  shows "0 < backoff o' i \<and> backoff o' i \<le> do_MaxBackoff o'"
proof -
  have "0 < do_BaseBackoff o' * 2 ^ (i - 1)" using assms(1) by simp
  moreover from this assms(3) have "wrap64 (do_BaseBackoff o' * 2 ^ (i - 1)) = do_BaseBackoff o' * 2 ^ (i - 1)"
    by (intro wrap64_id) simp_all
  ultimately show ?thesis using assms(2) by (simp add: backoff_def)
qed

lemma backoff_default:
  assumes "do_BaseBackoff opts = 0" "do_MaxBackoff opts = 0" "i \<le> 35"
  shows "0 < backoff (withDefaults opts) i \<and> backoff (withDefaults opts) i \<le> 15000000000"
proof -
  have "(2 :: int) ^ (i - 1) \<le> 2 ^ 34" using assms(3) by (intro power_increasing) auto
  then show ?thesis using backoff_bounds[of "withDefaults opts" i] assms by (simp add: withDefaults_def)
qed

section \<open>Properties\<close>

lemma flaky_server_serves: "serves flaky_server url ''image1''"
  by (auto simp: serves_def flaky_server_def)

text \<open>C22. A resumed download never corrupts: as long as the destination holds an initial piece of the
  image the server serves (or nothing), it holds one after every outcome of
  \<open>DownloadWithResume\<close> (interrupted bodies, refused ranges, write errors, process death, in any
  order), so a later attempt can resume; and success means that it holds exactly the image.\<close>

theorem DownloadWithResume_integrity:
  assumes "serves net url F" "partial_of F dest w" "no_rot w"
  shows "wp (DownloadWithResume net cancelled url dest opts)
    (\<lambda>r w'. partial_of F dest w' \<and> (r = Inr () \<longrightarrow> files w' dest = Some (File F)))
    (\<lambda>w'. partial_of F dest w') w"
  using download_loop_wp[OF assms] by (simp add: DownloadWithResume_def Let_def)

theorem DownloadWithResume_integrity_witness:
  "wp (DownloadWithResume flaky_server (\<lambda>_. False) ''u'' [''d'', ''f''] default_options)
    (\<lambda>r w'. partial_of ''image1'' [''d'', ''f''] w' \<and> (r = Inr () \<longrightarrow> files w' [''d'', ''f''] = Some (File ''image1'')))
    (\<lambda>w'. partial_of ''image1'' [''d'', ''f''] w') download_world"
  by (rule DownloadWithResume_integrity[OF flaky_server_serves])
    (simp_all add: partial_of_def download_world_def no_rot_def)

lemma DownloadWithResume_responsive:
  assumes "serves net url F" "responsive net url F 0 5" and nc: "\<And>j. \<not> cancelled j"
    and w: "all_ok w" "parent_ok dest w" "partial_of F dest w" and d: "opts = default_options"
  shows "wp (DownloadWithResume net cancelled url dest opts) (\<lambda>r w'. r = Inr () \<and> files w' dest = Some (File F)) (\<lambda>_. False) w"
proof -
  have "0 < backoff (withDefaults opts) j" if "j < 5" for j
    using backoff_default[of opts j] that d by (simp add: default_options_def)
  moreover have "nat (do_MaxAttempts (withDefaults opts)) = 5" by (simp add: d withDefaults_def default_options_def)
  ultimately have 1: "wp (DownloadWithResume net cancelled url dest opts) (\<lambda>r w'. r = Inr ()) (\<lambda>_. False) w"
    unfolding DownloadWithResume_def Let_def using assms(2)
    by (intro download_loop_responsive[OF assms(1) _ _ nc w]) auto
  have "no_rot w" using w(1) by (simp add: no_rot_def all_ok_def)
  from wp_conj[OF 1 download_loop_wp[OF assms(1) w(3) this, of cancelled "withDefaults opts" None 0 "nat (do_MaxAttempts (withDefaults opts))",
      folded DownloadWithResume_def[of net cancelled url dest opts, unfolded Let_def]]]
  show ?thesis by (rule wp_mono) auto
qed

text \<open>A resumed download arrives: with the default options and no cancellation, if one of the five
  attempts is answered in full, or two in a row are answered by a server that refuses a range at
  the end of the image, then \<open>DownloadWithResume\<close> returns without an error and the destination
  holds the image, whatever the other attempts met. No local file operation fails here.\<close>

theorem DownloadWithResume_delivers:
  assumes "serves net url F" "responsive net url F 0 5" "\<And>j. \<not> cancelled j"
    and "all_ok w" "parent_ok dest w" "partial_of F dest w" "opts = default_options"
  shows "wp (DownloadWithResume net cancelled url dest opts) (\<lambda>r w'. r = Inr () \<and> files w' dest = Some (File F)) (\<lambda>_. False) w"
  by (rule DownloadWithResume_responsive[OF assms])

theorem DownloadWithResume_delivers_witness:
  "wp (DownloadWithResume flaky_server (\<lambda>_. False) ''u'' [''d'', ''f''] default_options)
     (\<lambda>r w'. r = Inr () \<and> files w' [''d'', ''f''] = Some (File ''image1'')) (\<lambda>_. False) download_world"
proof (rule DownloadWithResume_delivers[OF flaky_server_serves])
  show "responsive flaky_server ''u'' ''image1'' 0 5"
    unfolding responsive_def by (rule disjI1, rule exI[of _ 1]) (simp add: delivers_def flaky_server_def)
qed (simp_all add: download_world_def all_ok_def parent_ok_def partial_of_def)

text \<open>The backoff before attempt \<open>i\<close> is positive and at most the cap, and with any draw of
  \<open>rand.N\<close> the wait lies between half of it and one and a half of it, as long as the shifted base
  fits 64 bits; with the default base that is every attempt up to 35.\<close>

theorem backoff_in_range:
  assumes "0 < do_BaseBackoff o'" "0 < do_MaxBackoff o'" "do_BaseBackoff o' * 2 ^ (i - 1) < 2 ^ 63"
    and "0 \<le> r" "r < backoff o' i"
  shows "0 < backoff o' i \<and> backoff o' i \<le> do_MaxBackoff o' \<and>
    backoff o' i div 2 \<le> sleep_time (backoff o' i) r \<and> 2 * sleep_time (backoff o' i) r < 3 * backoff o' i"
  using backoff_bounds[OF assms(1-3)] assms(4,5) by (simp add: sleep_time_def)

theorem backoff_in_range_witness:
  "sleep_time (backoff (withDefaults default_options) 3) 0 \<ge> 1000000000"
  using backoff_in_range[of "withDefaults default_options" 3 0]
  by (simp add: withDefaults_def default_options_def backoff_def wrap64_def sleep_time_def)

text \<open>The shift overflows: with the default base the 36th wait is computed negative, and
  \<open>rand.N\<close> panics; a caller that raises \<open>MaxAttempts\<close> above 36 can crash the agent with a server
  that stays down.\<close>

theorem backoff_overflow_panics:
  "download_loop net cancelled url dest (withDefaults default_options) e 36 (Suc left) w = (Panicked, w)"
  by (simp add: backoff_def withDefaults_def default_options_def wrap64_def panicp_def)

lemma download_loop_local:
  assumes "\<And>i. a \<le> i \<Longrightarrow> i < a + n \<Longrightarrow> net i = net' i \<and> cancelled i = cancelled' i"
  shows "download_loop net cancelled url dest o' e a n = download_loop net' cancelled' url dest o' e a n"
  using assms
proof (induction n arbitrary: a e)
  case (Suc n)
  have "http_get net a u off = http_get net' a u off" for u off using Suc.prems[of a] by (simp add: http_get_def fun_eq_iff split: fault.split)
  then have "downloadOnce net a url dest = downloadOnce net' a url dest" by (simp add: downloadOnce_def)
  moreover have "download_loop net cancelled url dest o' e' (Suc a) n = download_loop net' cancelled' url dest o' e' (Suc a) n" for e'
    by (rule Suc.IH) (use Suc.prems in simp)
  moreover have "cancelled a = cancelled' a" using Suc.prems[of a] by simp
  ultimately show ?case by (simp add: Let_def)
qed simp

text \<open>A download ends: it makes at most \<open>MaxAttempts\<close> requests (five by default), numbered from 0. Two
  firmware servers that answer these alike (and contexts that are cancelled alike) cannot be told
  apart by it: it returns the same result with the same store, so nothing later is ever asked
  for.\<close>

theorem DownloadWithResume_bounded:
  assumes "\<forall>i < nat (if do_MaxAttempts opts = 0 then 5 else do_MaxAttempts opts). net i = net' i \<and> cancelled i = cancelled' i"
  shows "DownloadWithResume net cancelled url dest opts w = DownloadWithResume net' cancelled' url dest opts w"
proof -
  have "download_loop net cancelled url dest (withDefaults opts) None 0 (nat (do_MaxAttempts (withDefaults opts))) =
      download_loop net' cancelled' url dest (withDefaults opts) None 0 (nat (do_MaxAttempts (withDefaults opts)))"
    by (rule download_loop_local) (use assms in \<open>simp add: withDefaults_def\<close>)
  then show ?thesis by (simp add: DownloadWithResume_def Let_def)
qed

theorem DownloadWithResume_bounded_witness:
  "DownloadWithResume flaky_server (\<lambda>_. False) ''u'' [''d'', ''f''] default_options download_world =
   DownloadWithResume (\<lambda>i. if i < 5 then flaky_server i else (\<lambda>_ _. DlTransport IOError)) (\<lambda>i. 5 \<le> i) ''u'' [''d'', ''f''] default_options download_world"
  by (rule DownloadWithResume_bounded) (simp add: default_options_def)

end
