(* ===== verification/Agent.thy ===== *)
theory Agent
  imports Slot_FailStop Device_FSM Kube_Client Download
begin

text \<open>
  The device agent of \<open>internal/agent/agent.go\<close>: boot sequence, evaluation of the desired state,
  the single-flight guard, the upgrade transaction, the heartbeat and the status reports.

  The agent's state is a record: the store, the upgrade state machine, the guard flag, the key of
  the target that failed last, the last seen generation, the state of the API server, and the
  list of running upgrade goroutines. \<open>runUpgrade\<close> is split at the section comments of its source
  into phases, so that polls and heartbeats interleave with it between phases; \<open>runUpgrade\<close> itself
  is their composition. The relation \<open>agent_step\<close> is the concurrent agent together with power
  losses, reboots and writes of others to the API object.

  What is outside the repository is in the record \<open>Env\<close>: API server, firmware server, digest,
  clock and the rendering of errors. Each step may meet another environment. The checksum of a
  target is taken to have no path separator, as the CRD validation demands.
\<close>

record Config =
  cf_Name :: string
  cf_Namespace :: string
  cf_DataDir :: path
  cf_PollInterval :: int
  cf_HeartbeatInterval :: int
  cf_Download :: DownloadOptions

record 's Env =
  e_cfg :: Config
  e_kube :: KubeClient
  e_slots :: SlotManager
  e_http :: "'s server"
  e_net :: firmware_server
  e_cancelled :: "nat \<Rightarrow> bool"
  e_sha256 :: digest
  e_now :: string
  e_Error :: "go_error \<Rightarrow> string"

datatype phase = PAnnounce | PDownloading | PVerifying | PFlashing | PConfirming | PDone

record 's Agent =
  ag_world :: world
  ag_fsm :: FSM
  ag_upgrading :: bool
  ag_lastFailedKey :: string
  ag_lastSeenGen :: int
  ag_api :: 's
  ag_running :: "(DeviceSpec \<times> int \<times> phase) list"
  ag_up :: bool

type_synonym ('s, 'a) act = "'s Agent \<Rightarrow> 'a outcome \<times> 's Agent"

definition retA :: "'a \<Rightarrow> ('s, 'a) act" where
  "retA x a = (Done x, a)"

definition panicA :: "('s, 'a) act" where
  "panicA a = (Panicked, a)"

definition bindA :: "('s, 'a) act \<Rightarrow> ('a \<Rightarrow> ('s, 'b) act) \<Rightarrow> ('s, 'b) act" where
  "bindA m f a = (case m a of (Done x, a') \<Rightarrow> f x a' | (Died, a') \<Rightarrow> (Died, a') | (Panicked, a') \<Rightarrow> (Panicked, a'))"

definition modA :: "('s Agent \<Rightarrow> 's Agent) \<Rightarrow> ('s, unit) act" where
  "modA f a = (Done (), f a)"

text \<open>A program on the store, run by the agent; a request to the state machine.\<close>

definition liftA :: "'a prog \<Rightarrow> ('s, 'a) act" where
  "liftA m a = (case m (ag_world a) of (r, w) \<Rightarrow> (r, a\<lparr>ag_world := w\<rparr>))"

definition fsm_To :: "State \<Rightarrow> ('s, fsm_error option) act" where
  "fsm_To next a = (case To next (ag_fsm a) of (r, f) \<Rightarrow> (Done r, a\<lparr>ag_fsm := f\<rparr>))"

text \<open>A device that is switched off, with a given store and API server.\<close>

definition initial_agent :: "world \<Rightarrow> 's \<Rightarrow> 's Agent" where
  "initial_agent w api = \<lparr>ag_world = w, ag_fsm = NewFSM True, ag_upgrading = False, ag_lastFailedKey = [], ag_lastSeenGen = 0,
     ag_api = api, ag_running = [], ag_up = False\<rparr>"

definition New :: "Config \<Rightarrow> 's \<Rightarrow> (go_error + SlotManager \<times> 's Agent) prog" where
  "New cfg api = bindE (NewSlotManager (cf_DataDir cfg)) (\<lambda>slots w. (Done (Inr (slots, initial_agent w api)), w))"

definition reportStatus :: "'s Env \<Rightarrow> (DeviceStatus \<Rightarrow> int \<Rightarrow> DeviceStatus) \<Rightarrow> ('s, unit) act" where
  "reportStatus E mutate a =
     (let (_, s') = UpdateStatus (e_kube E) (e_http E)
            (\<lambda>_ dev. let gen = ag_lastSeenGen a in dev\<lparr>d_Status := (mutate (d_Status dev) gen)\<lparr>st_ObservedGeneration := gen\<rparr>\<rparr>) (ag_api a)
      in (Done (), a\<lparr>ag_api := s'\<rparr>))"

definition set_synced :: "'s Env \<Rightarrow> string \<Rightarrow> string \<Rightarrow> string \<Rightarrow> int \<Rightarrow> DeviceStatus \<Rightarrow> DeviceStatus" where
  "set_synced E status reason msg gen st =
     st\<lparr>st_Conditions := SetCondition (e_now E) (st_Conditions st) CondFirmwareSynced status reason msg gen\<rparr>"

definition bootSequence :: "'s Env \<Rightarrow> (go_error + unit) prog" where
  "bootSequence E =
     (let s = e_slots E in
      bindp (BootCheck s) (\<lambda>(result, err). case err of
        Some e \<Rightarrow> retp (Inl e)
      | None \<Rightarrow>
          (let report = bindp (Active s) (\<lambda>_. bindp (ActiveVersion s) (\<lambda>_. retp (Inr ()))) in
           if result = BootTrial then
             bindp (SelfCheck (e_sha256 E) s) (\<lambda>r. case r of
               Inl _ \<Rightarrow> Rollback s
             | Inr _ \<Rightarrow> bindE (Confirm s) (\<lambda>_. report))
           else report)))"

definition slot_or_empty :: "(go_error + string) \<Rightarrow> string" where
  "slot_or_empty r = (case r of Inl _ \<Rightarrow> [] | Inr x \<Rightarrow> x)"

definition syncSteadyStatus :: "'s Env \<Rightarrow> Device \<Rightarrow> string \<Rightarrow> ('s, unit) act" where
  "syncSteadyStatus E dev current =
     bindA (liftA (Active (e_slots E))) (\<lambda>r.
       let slot = slot_or_empty r in
       if st_CurrentFirmwareVersion (d_Status dev) = current \<and> st_ActiveSlot (d_Status dev) = slot then retA ()
       else reportStatus E (\<lambda>st gen.
              set_synced E CondTrue ''Synced'' ''device firmware matches desired version'' gen
                (st\<lparr>st_CurrentFirmwareVersion := current, st_ActiveSlot := slot\<rparr>)))"

definition startUpgrade :: "Device \<Rightarrow> ('s, unit) act" where
  "startUpgrade dev a =
     (if ag_upgrading a then (Done (), a)
      else (Done (), a\<lparr>ag_upgrading := True,
              ag_running := ag_running a @ [(d_Spec dev, m_Generation (d_Metadata dev), PAnnounce)]\<rparr>))"

definition target_key :: "DeviceSpec \<Rightarrow> string" where
  "target_key spec = sp_DesiredFirmwareVersion spec @ ''|'' @ sp_ChecksumSHA256 spec"

definition evaluate :: "'s Env \<Rightarrow> Device \<Rightarrow> ('s, unit) act" where
  "evaluate E dev =
     bindA (modA (\<lambda>a. a\<lparr>ag_lastSeenGen := m_Generation (d_Metadata dev)\<rparr>)) (\<lambda>_.
     bindA (liftA (ActiveVersion (e_slots E))) (\<lambda>current.
       if sp_DesiredFirmwareVersion (d_Spec dev) = current then syncSteadyStatus E dev current
       else if sp_RolloutPaused (d_Spec dev) then retA ()
       else (\<lambda>a. if ag_lastFailedKey a = target_key (d_Spec dev) then (Done (), a) else startUpgrade dev a)))"

text \<open>One round of the loop of \<open>Run\<close>, after the wait.\<close>

definition poll :: "'s Env \<Rightarrow> ('s, unit) act" where
  "poll E a =
     (case Get (e_kube E) (e_http E) (ag_api a) of
        (Inl _, s') \<Rightarrow> (Done (), a\<lparr>ag_api := s'\<rparr>)
      | (Inr dev, s') \<Rightarrow> evaluate E dev (a\<lparr>ag_api := s'\<rparr>))"

text \<open>The wait before a poll, where \<open>r\<close> is the random number below the interval; \<open>rand.N\<close> panics
  (\<open>None\<close>) on an interval that is not positive.\<close>

definition poll_interval :: "Config \<Rightarrow> int \<Rightarrow> int option" where
  "poll_interval cfg r = (if cf_PollInterval cfg \<le> 0 then None else Some (wrap64 (cf_PollInterval cfg div 2 + r)))"

definition heartbeat :: "'s Env \<Rightarrow> ('s, unit) act" where
  "heartbeat E = reportStatus E (\<lambda>st gen. st\<lparr>st_LastHeartbeat := e_now E\<rparr>)"

subsection \<open>The upgrade transaction\<close>

definition fail :: "'s Env \<Rightarrow> DeviceSpec \<Rightarrow> string \<Rightarrow> string \<Rightarrow> ('s, phase option) act" where
  "fail E spec reason msg =
     bindA (fsm_To StateFailed) (\<lambda>_.
     bindA (modA (\<lambda>a. a\<lparr>ag_lastFailedKey := target_key spec\<rparr>)) (\<lambda>_.
     bindA (reportStatus E (\<lambda>st g. set_synced E CondFalse reason msg g st)) (\<lambda>_. retA None)))"

definition staging_path :: "'s Env \<Rightarrow> DeviceSpec \<Rightarrow> path" where
  "staging_path E spec = cf_DataDir (e_cfg E) @ [''staging-'' @ take 12 (sp_ChecksumSHA256 spec) @ ''.bin'']"

text \<open>A phase answers the phase to continue with, or \<open>None\<close> where \<open>runUpgrade\<close> returns.\<close>

definition upgrade_announce :: "'s Env \<Rightarrow> DeviceSpec \<Rightarrow> ('s, phase option) act" where
  "upgrade_announce E spec =
     bindA (reportStatus E (\<lambda>st g. set_synced E CondFalse ''UpgradeInProgress'' (''downloading '' @ sp_DesiredFirmwareVersion spec) g st))
       (\<lambda>_. retA (Some PDownloading))"

definition upgrade_download :: "'s Env \<Rightarrow> DeviceSpec \<Rightarrow> ('s, phase option) act" where
  "upgrade_download E spec =
     bindA (fsm_To StateDownloading) (\<lambda>e. if e \<noteq> None then retA None
     else if length (sp_ChecksumSHA256 spec) < 12 then panicA
     else bindA (liftA (DownloadWithResume (e_net E) (e_cancelled E) (sp_FirmwareURL spec) (staging_path E spec) (cf_Download (e_cfg E)))) (\<lambda>r.
       case r of Inl err \<Rightarrow> fail E spec ''DownloadFailed'' (e_Error E err) | Inr _ \<Rightarrow> retA (Some PVerifying)))"

definition upgrade_verify :: "'s Env \<Rightarrow> DeviceSpec \<Rightarrow> ('s, phase option) act" where
  "upgrade_verify E spec =
     bindA (fsm_To StateVerifying) (\<lambda>e. if e \<noteq> None then retA None
     else bindA (liftA (VerifySHA256 (e_sha256 E) (staging_path E spec) (sp_ChecksumSHA256 spec))) (\<lambda>r.
       case r of
         Inl err \<Rightarrow> bindA (liftA (os_Remove (staging_path E spec))) (\<lambda>_. fail E spec ''ChecksumMismatch'' (e_Error E err))
       | Inr _ \<Rightarrow> retA (Some PFlashing)))"

text \<open>The two phases that touch the slots, step by step.\<close>

definition promote_slot :: "'s Env \<Rightarrow> DeviceSpec \<Rightarrow> ('s, phase option) act" where
  "promote_slot E spec = bindA (liftA (PromoteStaged (e_slots E))) (\<lambda>r.
     case r of Inl err \<Rightarrow> fail E spec ''PromoteFailed'' (e_Error E err) | Inr _ \<Rightarrow> retA (Some PConfirming))"

definition verify_slot :: "'s Env \<Rightarrow> DeviceSpec \<Rightarrow> ('s, phase option) act" where
  "verify_slot E spec = bindA (liftA (VerifyStaged (e_sha256 E) (e_slots E))) (\<lambda>r.
     case r of Inl err \<Rightarrow> fail E spec ''FlashVerifyFailed'' (e_Error E err) | Inr _ \<Rightarrow> promote_slot E spec)"

definition upgrade_flash :: "'s Env \<Rightarrow> DeviceSpec \<Rightarrow> ('s, phase option) act" where
  "upgrade_flash E spec =
     bindA (fsm_To StateFlashing) (\<lambda>e. if e \<noteq> None then retA None
     else bindA (liftA (Stage (e_slots E) (staging_path E spec) (sp_DesiredFirmwareVersion spec) (sp_ChecksumSHA256 spec))) (\<lambda>r.
       case r of Inl err \<Rightarrow> fail E spec ''FlashFailed'' (e_Error E err) | Inr _ \<Rightarrow> verify_slot E spec))"

fun BootResult_string :: "BootResult \<Rightarrow> string" where
  "BootResult_string BootNone = []"
| "BootResult_string BootNormal = ''normal''"
| "BootResult_string BootTrial = ''trial''"
| "BootResult_string BootRolledBack = ''rolled-back''"

definition confirm_slot :: "'s Env \<Rightarrow> DeviceSpec \<Rightarrow> ('s, phase option) act" where
  "confirm_slot E spec = bindA (liftA (Confirm (e_slots E))) (\<lambda>r.
     case r of Inl err \<Rightarrow> fail E spec ''ConfirmFailed'' (e_Error E err)
     | Inr _ \<Rightarrow> bindA (liftA (os_Remove (staging_path E spec))) (\<lambda>_. retA (Some PDone)))"

definition check_slot :: "'s Env \<Rightarrow> DeviceSpec \<Rightarrow> ('s, phase option) act" where
  "check_slot E spec = bindA (liftA (SelfCheck (e_sha256 E) (e_slots E))) (\<lambda>r.
     case r of Inl err \<Rightarrow> bindA (liftA (Rollback (e_slots E))) (\<lambda>_. fail E spec ''SelfCheckFailed'' (e_Error E err))
     | Inr _ \<Rightarrow> confirm_slot E spec)"

definition upgrade_confirm :: "'s Env \<Rightarrow> DeviceSpec \<Rightarrow> ('s, phase option) act" where
  "upgrade_confirm E spec =
     bindA (fsm_To StateConfirming) (\<lambda>e. if e \<noteq> None then retA None
     else bindA (liftA (BootCheck (e_slots E))) (\<lambda>(boot, err).
       if err \<noteq> None \<or> boot \<noteq> BootTrial then fail E spec ''BootFailed'' (''unexpected boot result: '' @ BootResult_string boot)
       else check_slot E spec))"

lemmas upgrade_flash_defs = upgrade_flash_def verify_slot_def promote_slot_def
lemmas upgrade_confirm_defs = upgrade_confirm_def check_slot_def confirm_slot_def

definition upgrade_done :: "'s Env \<Rightarrow> DeviceSpec \<Rightarrow> ('s, phase option) act" where
  "upgrade_done E spec =
     bindA (fsm_To StateIdle) (\<lambda>e. if e \<noteq> None then retA None
     else bindA (liftA (Active (e_slots E))) (\<lambda>r.
       bindA (reportStatus E (\<lambda>st g.
           set_synced E CondTrue ''Synced'' (''upgraded to '' @ sp_DesiredFirmwareVersion spec) g
             (st\<lparr>st_CurrentFirmwareVersion := sp_DesiredFirmwareVersion spec, st_ActiveSlot := slot_or_empty r\<rparr>)))
         (\<lambda>_. retA None)))"

fun run_phase :: "'s Env \<Rightarrow> DeviceSpec \<Rightarrow> phase \<Rightarrow> ('s, phase option) act" where
  "run_phase E spec PAnnounce = upgrade_announce E spec"
| "run_phase E spec PDownloading = upgrade_download E spec"
| "run_phase E spec PVerifying = upgrade_verify E spec"
| "run_phase E spec PFlashing = upgrade_flash E spec"
| "run_phase E spec PConfirming = upgrade_confirm E spec"
| "run_phase E spec PDone = upgrade_done E spec"

definition andThen :: "('s, phase option) act \<Rightarrow> ('s, phase option) act \<Rightarrow> ('s, phase option) act" where
  "andThen m k = bindA m (\<lambda>r. case r of None \<Rightarrow> retA None | Some _ \<Rightarrow> k)"

definition runUpgrade :: "'s Env \<Rightarrow> DeviceSpec \<Rightarrow> ('s, phase option) act" where
  "runUpgrade E spec =
     andThen (upgrade_announce E spec) (andThen (upgrade_download E spec) (andThen (upgrade_verify E spec)
       (andThen (upgrade_flash E spec) (andThen (upgrade_confirm E spec) (upgrade_done E spec)))))"

definition wpA :: "('s, 'a) act \<Rightarrow> ('a \<Rightarrow> 's Agent \<Rightarrow> bool) \<Rightarrow> ('s Agent \<Rightarrow> bool) \<Rightarrow> 's Agent \<Rightarrow> bool" where
  "wpA m Q C a = (case m a of (Done x, a') \<Rightarrow> Q x a' | (Died, a') \<Rightarrow> C a' | (Panicked, a') \<Rightarrow> C a')"

text \<open>Environments that run the same device: slots, data directory and digest are fixed.\<close>

definition fits :: "SlotManager \<Rightarrow> digest \<Rightarrow> 's Env \<Rightarrow> bool" where
  "fits s h E \<longleftrightarrow> e_slots E = s \<and> e_sha256 E = h \<and> cf_DataDir (e_cfg E) = sm_dir s"

definition power_off :: "'s Agent \<Rightarrow> 's Agent" where
  "power_off a = a\<lparr>ag_up := False, ag_fsm := NewFSM True, ag_upgrading := False, ag_running := [],
     ag_lastFailedKey := [], ag_lastSeenGen := 0\<rparr>"

text \<open>
  The concurrent agent. A poll, a heartbeat or a phase of a running upgrade goroutine is one step;
  when the process dies or panics in one, or is killed between two, the device is down with the
  store as it was left; then a new process opens the slots and boots. Others may write the API object and the environment of the
  coming system calls may change, to any fail-stop environment, at any time.
\<close>

inductive agent_step :: "SlotManager \<Rightarrow> digest \<Rightarrow> 's Agent \<Rightarrow> 's Agent \<Rightarrow> bool" for s h where
  step_poll: "ag_up a \<Longrightarrow> fits s h E \<Longrightarrow> poll E a = (Done (), a') \<Longrightarrow> agent_step s h a a'"
| step_heartbeat: "ag_up a \<Longrightarrow> fits s h E \<Longrightarrow> heartbeat E a = (Done (), a') \<Longrightarrow> agent_step s h a a'"
| step_phase: "ag_up a \<Longrightarrow> fits s h E \<Longrightarrow> ag_running a = xs @ (spec, gen, ph) # ys \<Longrightarrow> run_phase E spec ph a = (Done (Some ph'), a')
    \<Longrightarrow> agent_step s h a (a'\<lparr>ag_running := xs @ (spec, gen, ph') # ys\<rparr>)"
| step_return: "ag_up a \<Longrightarrow> fits s h E \<Longrightarrow> ag_running a = xs @ (spec, gen, ph) # ys \<Longrightarrow> run_phase E spec ph a = (Done None, a')
    \<Longrightarrow> agent_step s h a (a'\<lparr>ag_running := xs @ ys, ag_upgrading := False\<rparr>)"
| step_die_poll: "ag_up a \<Longrightarrow> fits s h E \<Longrightarrow> poll E a = (r, a') \<Longrightarrow> r = Died \<or> r = Panicked \<Longrightarrow> agent_step s h a (power_off a')"
| step_die_phase: "ag_up a \<Longrightarrow> fits s h E \<Longrightarrow> (spec, gen, ph) \<in> set (ag_running a) \<Longrightarrow> run_phase E spec ph a = (r, a')
    \<Longrightarrow> r = Died \<or> r = Panicked \<Longrightarrow> agent_step s h a (power_off a')"
| step_kill: "agent_step s h a (power_off a)"
| step_open: "\<not> ag_up a \<Longrightarrow> agent_step s h a (a\<lparr>ag_world := snd (NewSlotManager (sm_dir s) (ag_world a))\<rparr>)"
| step_boot: "\<not> ag_up (a :: 's Agent) \<Longrightarrow> fits s h (E :: 's Env) \<Longrightarrow> fail_stop (ag_world a) \<Longrightarrow> bootSequence E (ag_world a) = (r, w')
    \<Longrightarrow> agent_step s h a (a\<lparr>ag_world := w', ag_up := (r = Done (Inr ()))\<rparr>)"
| step_api: "agent_step s h a (a\<lparr>ag_api := api'\<rparr>)"
| step_weather: "fail_stop (ag_world a\<lparr>fate_of := e\<rparr>) \<Longrightarrow> agent_step s h a (a\<lparr>ag_world := ag_world a\<lparr>fate_of := e\<rparr>\<rparr>)"

text \<open>The state of the machine at the start of a phase, and the safety of the store there.\<close>

fun phase_state :: "phase \<Rightarrow> State \<Rightarrow> bool" where
  "phase_state PAnnounce x \<longleftrightarrow> x \<in> {StateIdle, StateFailed}"
| "phase_state PDownloading x \<longleftrightarrow> x \<in> {StateIdle, StateFailed}"
| "phase_state PVerifying x \<longleftrightarrow> x = StateDownloading"
| "phase_state PFlashing x \<longleftrightarrow> x = StateVerifying"
| "phase_state PConfirming x \<longleftrightarrow> x = StateFlashing"
| "phase_state PDone x \<longleftrightarrow> x = StateConfirming"

definition store_at :: "SlotManager \<Rightarrow> digest \<Rightarrow> phase option \<Rightarrow> world \<Rightarrow> bool" where
  "store_at s h ph w \<longleftrightarrow> fail_stop w \<and> (if ph = Some PConfirming then boot_safe h s w else safe_up h s w)"

definition fsm_at :: "phase option \<Rightarrow> FSM \<Rightarrow> bool" where
  "fsm_at ph f \<longleftrightarrow> (case ph of None \<Rightarrow> fsm_state f \<in> {StateIdle, StateFailed} | Some p \<Rightarrow> phase_state p (fsm_state f))"

definition agent_inv :: "SlotManager \<Rightarrow> digest \<Rightarrow> 's Agent \<Rightarrow> bool" where
  "agent_inv s h a \<longleftrightarrow>
     (if ag_up a then
        (if ag_upgrading a
         then \<exists>spec gen ph. ag_running a = [(spec, gen, ph)] \<and> fsm_at (Some ph) (ag_fsm a) \<and> store_at s h (Some ph) (ag_world a)
         else ag_running a = [] \<and> fsm_at None (ag_fsm a) \<and> store_at s h None (ag_world a))
      else ag_running a = [] \<and> \<not> ag_upgrading a \<and> fsm_at None (ag_fsm a) \<and> boot_safe h s (ag_world a))"

text \<open>What a phase leaves alone:\<close>

definition same_guard :: "'s Agent \<Rightarrow> 's Agent \<Rightarrow> bool" where
  "same_guard a a' \<longleftrightarrow> ag_running a' = ag_running a \<and> ag_upgrading a' = ag_upgrading a \<and> ag_up a' = ag_up a"

definition phase_ok :: "SlotManager \<Rightarrow> digest \<Rightarrow> 's Agent \<Rightarrow> phase option \<Rightarrow> 's Agent \<Rightarrow> bool" where
  "phase_ok s h a r a' \<longleftrightarrow> same_guard a a' \<and> fsm_at r (ag_fsm a') \<and> store_at s h r (ag_world a')"

definition crash_ok :: "SlotManager \<Rightarrow> digest \<Rightarrow> 's Agent \<Rightarrow> bool" where
  "crash_ok s h a \<longleftrightarrow> boot_safe h s (ag_world a)"

text \<open>Between two steps of a phase.\<close>

definition midway :: "SlotManager \<Rightarrow> digest \<Rightarrow> State \<Rightarrow> 's Agent \<Rightarrow> 's Agent \<Rightarrow> bool" where
  "midway s h st a a' \<longleftrightarrow> fsm_state (ag_fsm a') = st \<and> same_guard a a' \<and> fail_stop (ag_world a') \<and> boot_safe h s (ag_world a')"

text \<open>The state that a phase asks the machine for, where it asks for one.\<close>

fun phase_enters :: "phase \<Rightarrow> State option" where
  "phase_enters PAnnounce = None"
| "phase_enters PDownloading = Some StateDownloading"
| "phase_enters PVerifying = Some StateVerifying"
| "phase_enters PFlashing = Some StateFlashing"
| "phase_enters PConfirming = Some StateConfirming"
| "phase_enters PDone = Some StateIdle"

definition demo_env :: "unit Env" where
  "demo_env = \<lparr>e_cfg = \<lparr>cf_Name = ''dev-0'', cf_Namespace = ''default'', cf_DataDir = [''data''], cf_PollInterval = 5000000000,
       cf_HeartbeatInterval = 5000000000, cf_Download = default_options\<rparr>,
     e_kube = \<lparr>kc_base = ''http://h/'', kc_namespace = ''default'', kc_name = ''dev-0''\<rparr>, e_slots = demo_slots,
     e_http = (\<lambda>_ _ _ s. (Transport IOError, s)), e_net = flaky_server, e_cancelled = (\<lambda>_. False), e_sha256 = id,
     e_now = ''2024-01-01T00:00:00Z'', e_Error = (\<lambda>_. ''err'')\<rparr>"

definition demo_dev :: Device where
  "demo_dev = \<lparr>d_APIVersion = [], d_Kind = [],
        d_Metadata = \<lparr>m_Name = ''dev-0'', m_Namespace = ''default'', m_ResourceVersion = [], m_Generation = 2, m_UID = []\<rparr>,
        d_Spec = \<lparr>sp_DesiredFirmwareVersion = ''v2'', sp_FirmwareURL = ''u'', sp_ChecksumSHA256 = hex_EncodeToString ''image1'', sp_Region = [],
                  sp_DeviceLabels = Map.empty, sp_RolloutPaused = False\<rparr>,
        d_Status = \<lparr>st_Phase = [], st_Conditions = [], st_CurrentFirmwareVersion = [], st_ActiveSlot = [],
                    st_LastHeartbeat = [], st_ObservedGeneration = 0\<rparr>\<rparr>"

definition demo_poll_env :: "unit Env" where
  "demo_poll_env = demo_env\<lparr>e_http := \<lambda>m _ _ s. (if m = ''GET'' then Reply 200 (Some demo_dev) else Transport IOError, s)\<rparr>"

definition demo_upgrading :: "unit Agent" where
  "demo_upgrading = (initial_agent (demo_world\<lparr>tick := 7\<rparr>) ())\<lparr>ag_up := True, ag_lastSeenGen := 2, ag_upgrading := True,
     ag_running := [(d_Spec demo_dev, 2, PDownloading)]\<rparr>"

definition degraded_dev :: Device where
  "degraded_dev = demo_dev\<lparr>d_Spec := (d_Spec demo_dev)\<lparr>sp_DesiredFirmwareVersion := ''factory''\<rparr>,
     d_Status := (d_Status demo_dev)\<lparr>st_CurrentFirmwareVersion := ''factory'', st_ActiveSlot := ''A'',
       st_Conditions := SetCondition ''t'' [] CondFirmwareSynced CondFalse ''ChecksumMismatch'' ''m'' 1\<rparr>\<rparr>"

section \<open>Lemmas\<close>

subsection \<open>Weakest preconditions for the agent's programs\<close>

inductive_cases agent_stepE: "agent_step s h a a'"

lemma wpA_retA [wp_rules]: "wpA (retA x) Q C = Q x"
  by (simp add: wpA_def retA_def fun_eq_iff)

lemma wpA_panicA [wp_rules]: "wpA panicA Q C = C"
  by (simp add: wpA_def panicA_def fun_eq_iff)

lemma wpA_modA [wp_rules]: "wpA (modA f) Q C a = Q () (f a)"
  by (simp add: wpA_def modA_def)

lemma wpA_bindA [wp_rules]: "wpA (bindA m f) Q C = wpA m (\<lambda>x. wpA (f x) Q C) C"
  by (auto simp: wpA_def bindA_def fun_eq_iff split: prod.splits outcome.splits)

lemma wpA_liftA [wp_rules]:
  "wpA (liftA m) Q C a = wp m (\<lambda>r w. Q r (a\<lparr>ag_world := w\<rparr>)) (\<lambda>w. C (a\<lparr>ag_world := w\<rparr>)) (ag_world a)"
  by (auto simp: wpA_def liftA_def wp_def split: prod.splits outcome.splits)

lemma wpA_fsm_To [wp_rules]:
  "wpA (fsm_To x) Q C a = Q (fst (To x (ag_fsm a))) (a\<lparr>ag_fsm := snd (To x (ag_fsm a))\<rparr>)"
  by (auto simp: wpA_def fsm_To_def split: prod.splits)

lemma wpA_reportStatus:
  "(\<And>s'. Q () (a\<lparr>ag_api := s'\<rparr>)) \<Longrightarrow> wpA (reportStatus E mutate) Q C a"
  by (auto simp: wpA_def reportStatus_def split: prod.splits)

lemma wpA_mono:
  "wpA m Q C a \<Longrightarrow> (\<And>x a'. Q x a' \<Longrightarrow> Q' x a') \<Longrightarrow> (\<And>a'. C a' \<Longrightarrow> C' a') \<Longrightarrow> wpA m Q' C' a"
  by (auto simp: wpA_def split: prod.splits outcome.splits)

lemma wpA_D:
  assumes "wpA m Q C a"
  shows "m a = (Done x, a') \<Longrightarrow> Q x a'" "m a = (r, a') \<Longrightarrow> r = Died \<or> r = Panicked \<Longrightarrow> C a'"
  using assms by (auto simp: wpA_def)

lemma wpA_fail:
  assumes "StateFailed \<in> set (validTransitions (fsm_state (ag_fsm a)))"
    and "\<And>a'. ag_world a' = ag_world a \<Longrightarrow> fsm_state (ag_fsm a') = StateFailed \<Longrightarrow> ag_up a' = ag_up a \<Longrightarrow> ag_upgrading a' = ag_upgrading a
      \<Longrightarrow> ag_running a' = ag_running a \<Longrightarrow> ag_lastFailedKey a' = target_key spec \<Longrightarrow> Q None a'"
  shows "wpA (fail E spec reason msg) Q C a"
  using assms by (auto simp: fail_def wp_rules intro!: wpA_reportStatus)

lemma wpA_fsm_step:
  assumes "x \<in> set (validTransitions (fsm_state (ag_fsm a)))" "\<And>f. fsm_state f = x \<Longrightarrow> Q None (a\<lparr>ag_fsm := f\<rparr>)"
  shows "wpA (fsm_To x) Q C a"
  using assms by (simp add: wpA_fsm_To)

lemma wpA_fsm_step_bind:
  assumes "x \<in> set (validTransitions (fsm_state (ag_fsm a)))" "\<And>f. fsm_state f = x \<Longrightarrow> wpA m Q C (a\<lparr>ag_fsm := f\<rparr>)"
  shows "wpA (bindA (fsm_To x) (\<lambda>e. if e \<noteq> None then retA None else m)) Q C a"
  unfolding wpA_bindA by (rule wpA_fsm_step) (use assms in auto)

lemma fail_phase_ok:
  assumes "StateFailed \<in> set (validTransitions (fsm_state (ag_fsm a1)))" "same_guard a a1" "fail_stop (ag_world a1)" "safe_up h s (ag_world a1)"
  shows "wpA (fail E spec reason msg) (phase_ok s h a) C a1"
  by (rule wpA_fail[OF assms(1)]) (use assms(2-4) in \<open>simp add: phase_ok_def same_guard_def fsm_at_def store_at_def\<close>)

subsection \<open>The staging file is outside the slots\<close>

lemma keeps_frame_http [keeps_rules]: "keeps (frame S f e) (http_get net i u off)"
  by (auto simp: keeps_def http_get_def split: fault.splits)

lemma keeps_frame_Append [keeps_rules]: "S p \<Longrightarrow> keeps (frame S f e) (os_Append p d)"
  by (auto simp: keeps_def os_Append_def atomic_call_def split: fault.splits option.splits node.splits)

lemma keeps_frame_OpenAppend [keeps_rules]: "S p \<Longrightarrow> keeps (frame S f e) (os_OpenAppend p)"
  by (auto simp: os_OpenAppend_def intro!: keeps_atomic_call split: option.splits node.splits)

lemma keeps_frame_copy_body [keeps_rules]: "S p \<Longrightarrow> keeps (frame S f e) (copy_body p b t)"
  unfolding copy_body_def by (auto intro!: keeps_rules split: sum.splits)

lemma keeps_frame_downloadOnce [keeps_rules]: "S p \<Longrightarrow> keeps (frame S f e) (downloadOnce net i u p)"
  unfolding downloadOnce_defs Let_def by (auto intro!: keeps_rules split: sum.splits dl_reply.splits)

lemma keeps_frame_download_loop [keeps_rules]: "S p \<Longrightarrow> keeps (frame S f e) (download_loop net c u p o' err i n)"
proof (induction n arbitrary: err i)
  case (Suc n)
  then show ?case by (auto simp: Let_def intro!: keeps_rules split: sum.splits)
qed (auto intro!: keeps_rules)

lemma keeps_frame_DownloadWithResume: "S p \<Longrightarrow> keeps (frame S f e) (DownloadWithResume net c u p opts)"
  unfolding DownloadWithResume_def Let_def by (rule keeps_frame_download_loop)

lemma staging_distinct:
  assumes "fits s h E"
  shows "staging_path E spec \<noteq> slotDir s x @ [n]" "staging_path E spec \<noteq> currentPath s" "staging_path E spec \<noteq> currentTmp s"
    "staging_path E spec \<noteq> sm_dir s" "x = ''A'' \<or> x = ''B'' \<Longrightarrow> staging_path E spec \<noteq> slotDir s x"
  using assms by (auto simp: fits_def staging_path_def slotDir_def currentPath_def currentTmp_def slot_names)

lemma staging_frame:
  assumes E: "fits s h E" and fr: "frame (\<lambda>p. p = staging_path E spec) (files w) e w'"
  shows "boot_safe k s w' = boot_safe k s w" "safe_up k s w' = safe_up k s w"
proof -
  note d = staging_distinct[OF E, where spec = spec]
  have f: "files w' p = files w p" if "p \<noteq> staging_path E spec" for p using fr that by (simp add: frame_def)
  have e: "files w' (slotDir s x @ [n]) = files w (slotDir s x @ [n])" for x n using d(1) by (intro f) metis
  have c: "files w' (currentPath s) = files w (currentPath s)" "files w' (currentTmp s) = files w (currentTmp s)" "files w' (sm_dir s) = files w (sm_dir s)"
    using d by (simp_all add: f)
  have "files w' (slotDir s x) = files w (slotDir s x)" if "x = ''A'' \<or> x = ''B''" for x
    using d(5)[OF that] by (intro f) metis
  then have l: "layout s w' = layout s w" by (simp add: layout_def e c)
  have "slot_core s x w' = slot_core s x w" for x by (simp add: slot_core_def e)
  from slot_core_cong[OF this] l show b: "boot_safe k s w' = boot_safe k s w" by (simp add: boot_safe_alt)
  then show "safe_up k s w' = safe_up k s w" by (simp add: safe_up_def active_of_def confirmed_def e c)
qed

lemma wp_staging:
  assumes "fits s h E" "\<And>f e. keeps (frame (\<lambda>p. p = staging_path E spec) f e) m"
  shows "wp m (\<lambda>_ w'. boot_safe h s w' = boot_safe h s w \<and> safe_up h s w' = safe_up h s w \<and> fate_of w' = fate_of w)
    (\<lambda>w'. boot_safe h s w' = boot_safe h s w) w"
proof -
  let ?F = "frame (\<lambda>p. p = staging_path E spec) (files w) (fate_of w)"
  have "wp m (\<lambda>_. ?F) ?F w" using keepsD[OF assms(2)] by (simp add: wp_snd)
  then show ?thesis by (rule wp_mono) (use staging_frame[OF assms(1)] in \<open>auto simp: frame_def\<close>)
qed

subsection \<open>Every phase keeps its contract\<close>

text \<open>Store programs in front of the rest of a phase, by the contract \<open>P\<close> of the program.\<close>

lemma wpA_lift_contract:
  assumes "wp m P C' (ag_world a)" "\<And>r w'. P r w' \<Longrightarrow> wpA (f r) Q C (a\<lparr>ag_world := w'\<rparr>)" "\<And>w'. C' w' \<Longrightarrow> C (a\<lparr>ag_world := w'\<rparr>)"
  shows "wpA (bindA (liftA m) f) Q C a"
  unfolding wpA_bindA wpA_liftA by (rule wp_mono[OF assms(1)]) (auto intro: assms(2,3))

lemma safe_up_boot_safe: "safe_up h s w \<Longrightarrow> boot_safe h s w"
  by (simp add: safe_up_def)

lemma download_phase_ok:
  assumes E: "fits s h E" and f: "fsm_at (Some PDownloading) (ag_fsm a)" and w: "store_at s h (Some PDownloading) (ag_world a)"
  shows "wpA (upgrade_download E spec) (phase_ok s h a) (crash_ok s h) a"
proof -
  have up: "safe_up h s (ag_world a)" "fail_stop (ag_world a)" using w by (simp_all add: store_at_def)
  have go: "wpA (bindA (liftA (DownloadWithResume (e_net E) (e_cancelled E) (sp_FirmwareURL spec) (staging_path E spec) (cf_Download (e_cfg E))))
      (\<lambda>r. case r of Inl err \<Rightarrow> fail E spec ''DownloadFailed'' (e_Error E err) | Inr _ \<Rightarrow> retA (Some PVerifying)))
      (phase_ok s h a) (crash_ok s h) (a\<lparr>ag_fsm := fs\<rparr>)" if "fsm_state fs = StateDownloading" for fs
  proof (rule wpA_lift_contract[OF wp_staging[OF E keeps_frame_DownloadWithResume]], simp, goal_cases)
    case (1 r w')
    then have "fail_stop w'" "safe_up h s w'" using up fail_stop_cong[of w' "ag_world a"] by simp_all
    with that show ?case
      by (cases r) (auto intro!: fail_phase_ok simp: same_guard_def wpA_retA phase_ok_def fsm_at_def store_at_def)
  next
    case (2 w')
    with up show ?case by (simp add: crash_ok_def safe_up_boot_safe)
  qed
  have "StateDownloading \<in> set (validTransitions (fsm_state (ag_fsm a)))" using f by (auto simp: fsm_at_def)
  then show ?thesis
    unfolding upgrade_download_def wpA_bindA[of "fsm_To StateDownloading"]
    by (rule wpA_fsm_step) (use go up in \<open>auto simp: wpA_panicA crash_ok_def safe_up_boot_safe\<close>)
qed

lemma wp_VerifySHA256_reads:
  "wp (VerifySHA256 h p want) (\<lambda>_ w'. files w' = files w \<and> fate_of w' = fate_of w) (\<lambda>w'. files w' = files w \<and> fate_of w' = fate_of w) w"
  by (rule wp_VerifySHA256) auto

lemma verify_phase_ok:
  assumes E: "fits s h E" and f: "fsm_at (Some PVerifying) (ag_fsm a)" and w: "store_at s h (Some PVerifying) (ag_world a)"
  shows "wpA (upgrade_verify E spec) (phase_ok s h a) (crash_ok s h) a"
proof -
  have up: "safe_up h s (ag_world a)" "fail_stop (ag_world a)" using w by (simp_all add: store_at_def)
  have bad: "wpA (bindA (liftA (os_Remove (staging_path E spec))) (\<lambda>_. fail E spec ''ChecksumMismatch'' msg))
      (phase_ok s h a) (crash_ok s h) a1"
    if "fsm_state (ag_fsm a1) = StateVerifying" "same_guard a a1" "safe_up h s (ag_world a1)" "fail_stop (ag_world a1)" for a1 msg
  proof (rule wpA_lift_contract[OF wp_staging[OF E keeps_frame_writes(2)]], simp, goal_cases)
    case (1 r w')
    then have "fail_stop w'" "safe_up h s w'" using that fail_stop_cong[of w' "ag_world a1"] by simp_all
    with that show ?case by (auto intro!: fail_phase_ok simp: same_guard_def)
  next
    case (2 w')
    with that show ?case by (simp add: crash_ok_def safe_up_boot_safe)
  qed
  have go: "wpA (bindA (liftA (VerifySHA256 (e_sha256 E) (staging_path E spec) (sp_ChecksumSHA256 spec))) (\<lambda>r.
       case r of
         Inl err \<Rightarrow> bindA (liftA (os_Remove (staging_path E spec))) (\<lambda>_. fail E spec ''ChecksumMismatch'' (e_Error E err))
       | Inr _ \<Rightarrow> retA (Some PFlashing))) (phase_ok s h a) (crash_ok s h) (a\<lparr>ag_fsm := fs\<rparr>)" if "fsm_state fs = StateVerifying" for fs
  proof (rule wpA_lift_contract[OF wp_VerifySHA256_reads], goal_cases)
    case (1 r w')
    then have "fail_stop w'" "safe_up h s w'" using up fail_stop_cong[of w' "ag_world a"] safe_up_cong[of w' "ag_world a" h s] by simp_all
    with that show ?case
      by (cases r) (auto intro!: bad simp: same_guard_def wpA_retA phase_ok_def fsm_at_def store_at_def)
  next
    case (2 w')
    then show ?case using up safe_up_cong[of w' "ag_world a" h s] by (simp add: crash_ok_def safe_up_boot_safe)
  qed
  have "StateVerifying \<in> set (validTransitions (fsm_state (ag_fsm a)))" using f by (auto simp: fsm_at_def)
  then show ?thesis
    unfolding upgrade_verify_def wpA_bindA[of "fsm_To StateVerifying"]
    by (rule wpA_fsm_step) (use go in auto)
qed

text \<open>The slots in the middle of a phase.\<close>

lemma midway_move:
  assumes "midway s h st a a1" "fate_of w' = fate_of (ag_world a1)" "boot_safe h s w'"
  shows "midway s h st a (a1\<lparr>ag_world := w'\<rparr>)"
  using assms fail_stop_cong[OF assms(2)] by (simp add: midway_def same_guard_def)

lemma midway_fails:
  assumes "midway s h st a a1" "StateFailed \<in> set (validTransitions st)" "safe_up h s (ag_world a1)"
  shows "wpA (fail E spec reason msg) (phase_ok s h a) (crash_ok s h) a1"
  by (rule fail_phase_ok) (use assms in \<open>auto simp: midway_def\<close>)

lemma promote_slot_ok:
  assumes E: "fits s h E" and m: "midway s h StateFlashing a a1" and up: "safe_up h s (ag_world a1)"
  shows "wpA (promote_slot E spec) (phase_ok s h a) (crash_ok s h) a1"
proof -
  have sl: "e_slots E = s" using E by (simp add: fits_def)
  show ?thesis unfolding promote_slot_def sl
  proof (rule wpA_lift_contract[OF PromoteStaged_safe[of h s]], goal_cases)
    case (2 r w')
    then have "midway s h StateFlashing a (a1\<lparr>ag_world := w'\<rparr>)" by (intro midway_move[OF m]) (auto simp: safe_up_boot_safe split: sum.splits)
    with 2 show ?case
      by (cases r) (auto intro!: midway_fails[of s h StateFlashing] simp: wpA_retA phase_ok_def fsm_at_def store_at_def midway_def)
  qed (use m up in \<open>auto simp: midway_def crash_ok_def\<close>)
qed

lemma verify_slot_ok:
  assumes E: "fits s h E" and m: "midway s h StateFlashing a a1" and up: "safe_up h s (ag_world a1)"
  shows "wpA (verify_slot E spec) (phase_ok s h a) (crash_ok s h) a1"
  unfolding verify_slot_def
proof (rule wpA_lift_contract[OF VerifyStaged_reads], goal_cases)
  case (1 r w')
  then have "safe_up h s w'" "midway s h StateFlashing a (a1\<lparr>ag_world := w'\<rparr>)"
    using up safe_up_cong[of w' "ag_world a1" h s] by (auto intro!: midway_move[OF m] simp: safe_up_boot_safe)
  then show ?case by (cases r) (auto intro!: midway_fails[of s h StateFlashing] promote_slot_ok[OF E])
next
  case (2 w') then show ?case using up safe_up_cong[of w' "ag_world a1" h s] by (simp add: crash_ok_def safe_up_boot_safe)
qed

lemma flash_phase_ok:
  assumes E: "fits s h E" and f: "fsm_at (Some PFlashing) (ag_fsm a)" and w: "store_at s h (Some PFlashing) (ag_world a)"
  shows "wpA (upgrade_flash E spec) (phase_ok s h a) (crash_ok s h) a"
proof -
  have sl: "e_slots E = s" using E by (simp add: fits_def)
  have up: "safe_up h s (ag_world a)" "fail_stop (ag_world a)" using w by (simp_all add: store_at_def)
  have stage: "wp (Stage s src v c) (\<lambda>_ w'. safe_up h s w' \<and> fate_of w' = fate_of (ag_world a)) (\<lambda>w'. boot_safe h s w') (ag_world a)" for src v c
  proof -
    have "wp (Stage s src v c) (\<lambda>_ w'. safe_up h s w' \<and> fate_of w' = fate_of (ag_world a)) (\<lambda>w'. safe_up h s w' \<and> fate_of w' = fate_of (ag_world a)) (ag_world a)"
      unfolding wp_snd using Stage_safe_up[OF up(1) fail_stop_ok(2)[OF up(2)]] fate_of_slots(1) by simp
    then show ?thesis by (rule wp_mono) (auto simp: safe_up_boot_safe)
  qed
  have "StateFlashing \<in> set (validTransitions (fsm_state (ag_fsm a)))" using f by (auto simp: fsm_at_def)
  then show ?thesis
    unfolding upgrade_flash_def sl
  proof (rule wpA_fsm_step_bind, goal_cases)
    case (1 fs)
    then have m: "midway s h StateFlashing a (a\<lparr>ag_fsm := fs\<rparr>)" using up by (simp add: midway_def same_guard_def safe_up_boot_safe)
    show ?case
    proof (rule wpA_lift_contract, simp, rule stage, goal_cases)
      case (1 r w')
      then have "midway s h StateFlashing a (a\<lparr>ag_fsm := fs, ag_world := w'\<rparr>)" using midway_move[OF m, of w'] by (simp add: safe_up_boot_safe)
      with 1 show ?case by (cases r) (auto intro!: midway_fails[of s h StateFlashing] verify_slot_ok[OF E])
    qed (simp add: crash_ok_def)
  qed
qed

lemma confirm_slot_ok:
  assumes E: "fits s h E" and m: "midway s h StateConfirming a a1" and x: "active_of s (ag_world a1) = Some x" "intact h s x (ag_world a1)"
  shows "wpA (confirm_slot E spec) (phase_ok s h a) (crash_ok s h) a1"
proof -
  have sl: "e_slots E = s" using E by (simp add: fits_def)
  have clean: "wpA (bindA (liftA (os_Remove (staging_path E spec))) (\<lambda>_. retA (Some PDone))) (phase_ok s h a) (crash_ok s h) a2"
    if "midway s h StateConfirming a a2" "safe_up h s (ag_world a2)" for a2
  proof (rule wpA_lift_contract[OF wp_staging[OF E keeps_frame_writes(2)]], simp, goal_cases)
    case (1 r w')
    with that midway_move[OF that(1), of w'] show ?case
      by (auto simp: wpA_retA phase_ok_def fsm_at_def store_at_def midway_def)
  qed (use that in \<open>simp add: crash_ok_def midway_def\<close>)
  show ?thesis unfolding confirm_slot_def sl
  proof (rule wpA_lift_contract[OF Confirm_fail_stop[OF _ _ x]], goal_cases)
    case (3 r w')
    then have "midway s h StateConfirming a (a1\<lparr>ag_world := w'\<rparr>)" by (intro midway_move[OF m]) (auto simp: safe_up_boot_safe)
    with 3 show ?case by (cases r) (auto intro!: midway_fails[of s h StateConfirming] clean)
  qed (use m in \<open>auto simp: crash_ok_def midway_def\<close>)
qed

lemma check_slot_ok:
  assumes E: "fits s h E" and m: "midway s h StateConfirming a a1" and x: "active_of s (ag_world a1) = Some x" "\<not> confirmed s x (ag_world a1)"
  shows "wpA (check_slot E spec) (phase_ok s h a) (crash_ok s h) a1"
proof -
  have sl: "e_slots E = s" "e_sha256 E = h" using E by (simp_all add: fits_def)
  have undo: "wpA (bindA (liftA (Rollback s)) (\<lambda>_. fail E spec ''SelfCheckFailed'' msg)) (phase_ok s h a) (crash_ok s h) a2"
    if "midway s h StateConfirming a a2" "active_of s (ag_world a2) = Some x" "\<not> confirmed s x (ag_world a2)" for a2 msg
  proof (rule wpA_lift_contract[OF Rollback_fail_stop[where h = h, OF _ _ that(2,3)]], goal_cases)
    case (3 r w')
    with midway_move[OF that(1), of w'] show ?case by (auto intro!: midway_fails[of s h StateConfirming] simp: safe_up_boot_safe)
  qed (use that in \<open>auto simp: crash_ok_def midway_def\<close>)
  show ?thesis unfolding check_slot_def sl
  proof (rule wpA_lift_contract[OF SelfCheck_intact], goal_cases)
    case (1 r w')
    then have "midway s h StateConfirming a (a1\<lparr>ag_world := w'\<rparr>)" "active_of s w' = Some x" "\<not> confirmed s x w'" "r = Inr () \<Longrightarrow> intact h s x w'"
      using m x midway_move[OF m, of w'] boot_safe_cong[of w' "ag_world a1" h s] intact_cong[of w' "ag_world a1" h s x]
      by (simp_all add: active_of_def confirmed_def midway_def)
    then show ?case by (cases r) (auto intro!: undo confirm_slot_ok[OF E])
  next
    case (2 w')
    then show ?case using m boot_safe_cong[of w' "ag_world a1" h s] by (simp add: crash_ok_def midway_def)
  qed
qed

lemma confirm_phase_ok:
  assumes E: "fits s h E" and f: "fsm_at (Some PConfirming) (ag_fsm a)" and w: "store_at s h (Some PConfirming) (ag_world a)"
  shows "wpA (upgrade_confirm E spec) (phase_ok s h a) (crash_ok s h) a"
proof -
  have sl: "e_slots E = s" using E by (simp add: fits_def)
  have up: "boot_safe h s (ag_world a)" "fail_stop (ag_world a)" using w by (simp_all add: store_at_def)
  have "StateConfirming \<in> set (validTransitions (fsm_state (ag_fsm a)))" using f by (auto simp: fsm_at_def)
  then show ?thesis
    unfolding upgrade_confirm_def sl
  proof (rule wpA_fsm_step_bind, goal_cases)
    case (1 fs)
    then have m: "midway s h StateConfirming a (a\<lparr>ag_fsm := fs\<rparr>)" using up by (simp add: midway_def same_guard_def)
    show ?case
    proof (rule wpA_lift_contract, simp, rule BootCheck_fail_stop[OF up(2,1)], goal_cases)
      case (1 r w')
      then have "midway s h StateConfirming a (a\<lparr>ag_fsm := fs, ag_world := w'\<rparr>)" using midway_move[OF m, of w'] by simp
      with 1 show ?case by (auto intro!: midway_fails[of s h StateConfirming] check_slot_ok[OF E] split: prod.splits if_splits)
    qed (simp add: crash_ok_def)
  qed
qed

lemma announce_phase_ok:
  assumes "fsm_at (Some PAnnounce) (ag_fsm a)" "store_at s h (Some PAnnounce) (ag_world a)"
  shows "wpA (upgrade_announce E spec) (phase_ok s h a) (crash_ok s h) a"
  unfolding upgrade_announce_def wpA_bindA
  by (rule wpA_reportStatus) (use assms in \<open>simp add: wpA_retA phase_ok_def same_guard_def fsm_at_def store_at_def\<close>)

lemma done_phase_ok:
  assumes E: "fits s h E" and f: "fsm_at (Some PDone) (ag_fsm a)" and w: "store_at s h (Some PDone) (ag_world a)"
  shows "wpA (upgrade_done E spec) (phase_ok s h a) (crash_ok s h) a"
proof -
  have up: "safe_up h s (ag_world a)" "fail_stop (ag_world a)" using w by (simp_all add: store_at_def)
  have "StateIdle \<in> set (validTransitions (fsm_state (ag_fsm a)))" using f by (auto simp: fsm_at_def)
  then show ?thesis
    unfolding upgrade_done_def wpA_bindA[of "fsm_To StateIdle"]
  proof (rule wpA_fsm_step, goal_cases)
    case (1 fs)
    show ?case
      unfolding simp_thms if_False
    proof (rule wpA_lift_contract[OF Active_reads], goal_cases)
      case (1 r w')
      then have "fail_stop w'" "safe_up h s w'" using up fail_stop_cong[of w' "ag_world a"] safe_up_cong[of w' "ag_world a" h s] by simp_all
      with \<open>fsm_state fs = _\<close> show ?case
        unfolding wpA_bindA by (intro wpA_reportStatus) (simp add: wpA_retA phase_ok_def same_guard_def fsm_at_def store_at_def)
    next
      case (2 w') then show ?case using up safe_up_cong[of w' "ag_world a" h s] by (simp add: crash_ok_def safe_up_boot_safe)
    qed
  qed
qed

lemma run_phase_ok:
  assumes "fits s h E" "fsm_at (Some ph) (ag_fsm a)" "store_at s h (Some ph) (ag_world a)"
  shows "wpA (run_phase E spec ph) (phase_ok s h a) (crash_ok s h) a"
  using assms by (cases ph) (simp_all add: announce_phase_ok download_phase_ok verify_phase_ok flash_phase_ok confirm_phase_ok done_phase_ok)

subsection \<open>Booting, polling, and the invariant\<close>

lemma bootSequence_ok:
  assumes E: "fits s h E" and w: "fail_stop w" "boot_safe h s w"
  shows "wp (bootSequence E) (\<lambda>r w'. r = Inr () \<and> safe_up h s w' \<and> fate_of w' = fate_of w) (boot_safe h s) w"
  (is "wp _ ?Q _ w")
proof -
  have sl: "e_slots E = s" "e_sha256 E = h" using E by (simp_all add: fits_def)
  have report: "wp (bindp (Active s) (\<lambda>_. bindp (ActiveVersion s) (\<lambda>_. retp (Inr ())))) ?Q (boot_safe h s) w1"
    if "safe_up h s w1" "fate_of w1 = fate_of w" for w1
    unfolding wp_bindp
  proof (rule wp_mono[OF Active_reads], goal_cases)
    case (1 r w2)
    have up: "safe_up h s w3" if "files w3 = files w1" for w3 using safe_up_cong[OF that] \<open>safe_up h s w1\<close> by simp
    show ?case
      by (rule wp_mono[OF ActiveVersion_reads]) (use 1 that(2) in \<open>simp_all add: wp_retp up safe_up_boot_safe\<close>)
  next
    case (2 w2) then show ?case using that boot_safe_cong[of w2 w1 h s] by (simp add: safe_up_boot_safe)
  qed
  have conf: "wp (bindE (Confirm s) (\<lambda>_. bindp (Active s) (\<lambda>_. bindp (ActiveVersion s) (\<lambda>_. retp (Inr ()))))) ?Q (boot_safe h s) w1"
    if "fail_stop w1" "fate_of w1 = fate_of w" "boot_safe h s w1" "active_of s w1 = Some x" "intact h s x w1"
      "is_file (files w1 (slotDir s x @ [pendingMarker]))" for w1 x
    unfolding wp_bindE
    by (rule wp_mono[OF Confirm_fail_stop[OF that(1,3-5)]]) (use that(2,6) in \<open>auto intro: report split: sum.splits\<close>)
  have trial: "wp (bindp (SelfCheck h s) (\<lambda>r. case r of Inl _ \<Rightarrow> Rollback s
             | Inr _ \<Rightarrow> bindE (Confirm s) (\<lambda>_. bindp (Active s) (\<lambda>_. bindp (ActiveVersion s) (\<lambda>_. retp (Inr ())))))) ?Q (boot_safe h s) w1"
    if w1: "fate_of w1 = fate_of w" "boot_safe h s w1" "active_of s w1 = Some x" "\<not> confirmed s x w1"
      "is_file (files w1 (slotDir s x @ [pendingMarker]))" for w1 x
    unfolding wp_bindp[of "SelfCheck h s"]
  proof (rule wp_mono[OF SelfCheck_intact], goal_cases)
    case (1 r w2)
    have w2: "fail_stop w2" "fate_of w2 = fate_of w" "boot_safe h s w2" "active_of s w2 = Some x" "\<not> confirmed s x w2" "r = Inr () \<Longrightarrow> intact h s x w2"
      "is_file (files w2 (slotDir s x @ [pendingMarker]))"
      using 1 w1 w(1) fail_stop_cong[of w2 w] boot_safe_cong[of w2 w1 h s] intact_cong[of w2 w1 h s x]
      by (simp_all add: active_of_def confirmed_def)
    then show ?case
      by (cases r) (auto intro!: wp_mono[OF Rollback_fail_stop[where h = h]] conf)
  next
    case (2 w2) then show ?case using w1 boot_safe_cong[of w2 w1 h s] by simp
  qed
  show ?thesis
    unfolding bootSequence_def sl Let_def wp_bindp[of "BootCheck s"]
    by (rule wp_mono[OF BootCheck_fail_stop[OF w]]) (auto intro: report trial split: option.splits)
qed

text \<open>Polls and heartbeats only read the store.\<close>

lemma evaluate_ok:
  "wpA (evaluate E dev) (\<lambda>_ a'. files (ag_world a') = files (ag_world a) \<and> fate_of (ag_world a') = fate_of (ag_world a) \<and> ag_fsm a' = ag_fsm a
      \<and> ag_up a' = ag_up a \<and> (ag_running a' = ag_running a \<and> ag_upgrading a' = ag_upgrading a \<or>
        \<not> ag_upgrading a \<and> ag_upgrading a' \<and> (\<exists>gen. ag_running a' = ag_running a @ [(d_Spec dev, gen, PAnnounce)])))
    (\<lambda>a'. files (ag_world a') = files (ag_world a)) a"
  (is "wpA _ ?Q ?C a")
proof -
  have sync: "wpA (syncSteadyStatus E dev cur) ?Q ?C a1"
    if "files (ag_world a1) = files (ag_world a)" "fate_of (ag_world a1) = fate_of (ag_world a)" "ag_fsm a1 = ag_fsm a" "ag_up a1 = ag_up a"
      "ag_running a1 = ag_running a" "ag_upgrading a1 = ag_upgrading a" for a1 cur
    unfolding syncSteadyStatus_def
    by (rule wpA_lift_contract[OF Active_reads]) (use that in \<open>auto simp: Let_def wpA_retA intro!: wpA_reportStatus\<close>)
  have start: "wpA (\<lambda>a. if ag_lastFailedKey a = k then (Done (), a) else startUpgrade dev a) ?Q ?C a1"
    if "files (ag_world a1) = files (ag_world a)" "fate_of (ag_world a1) = fate_of (ag_world a)" "ag_fsm a1 = ag_fsm a" "ag_up a1 = ag_up a"
      "ag_running a1 = ag_running a" "ag_upgrading a1 = ag_upgrading a" for a1 k
    using that by (simp add: wpA_def startUpgrade_def)
  show ?thesis
    unfolding evaluate_def wpA_bindA[of "modA _"] wpA_modA
    by (rule wpA_lift_contract[OF ActiveVersion_reads]) (auto intro!: sync start simp: wpA_retA)
qed

lemma poll_ok:
  "wpA (poll E) (\<lambda>_ a'. files (ag_world a') = files (ag_world a) \<and> fate_of (ag_world a') = fate_of (ag_world a) \<and> ag_fsm a' = ag_fsm a
      \<and> ag_up a' = ag_up a \<and> (ag_running a' = ag_running a \<and> ag_upgrading a' = ag_upgrading a \<or>
        \<not> ag_upgrading a \<and> ag_upgrading a' \<and> (\<exists>spec gen. ag_running a' = ag_running a @ [(spec, gen, PAnnounce)])))
    (\<lambda>a'. files (ag_world a') = files (ag_world a)) a"
proof (cases "Get (e_kube E) (e_http E) (ag_api a)")
  case (Pair r s')
  show ?thesis
  proof (cases r)
    case (Inr dev)
    with Pair have "poll E a = evaluate E dev (a\<lparr>ag_api := s'\<rparr>)" by (simp add: poll_def)
    with evaluate_ok[of E dev "a\<lparr>ag_api := s'\<rparr>"] show ?thesis by (auto simp: wpA_def split: prod.splits outcome.splits)
  qed (use Pair in \<open>simp add: poll_def wpA_def\<close>)
qed

lemma store_at_cong: "files w' = files w \<Longrightarrow> fate_of w' = fate_of w \<Longrightarrow> store_at s h ph w' = store_at s h ph w"
  using boot_safe_cong[of w' w h s] safe_up_cong[of w' w h s] fail_stop_cong[of w' w] by (simp add: store_at_def)

lemma store_at_boot_safe: "store_at s h ph w \<Longrightarrow> boot_safe h s w"
  by (auto simp: store_at_def safe_up_boot_safe split: if_splits)

lemma agent_inv_boot_safe: "agent_inv s h a \<Longrightarrow> boot_safe h s (ag_world a)"
  by (auto simp: agent_inv_def store_at_boot_safe split: if_splits)

lemma agent_inv_power_off: "boot_safe h s (ag_world a) \<Longrightarrow> agent_inv s h (power_off a)"
  by (simp add: agent_inv_def power_off_def fsm_at_def NewFSM_def)

lemma agent_inv_running:
  assumes "agent_inv s h a" "ag_up a" "ag_running a = xs @ (spec, gen, ph) # ys"
  shows "xs = [] \<and> ys = [] \<and> ag_upgrading a \<and> fsm_at (Some ph) (ag_fsm a) \<and> store_at s h (Some ph) (ag_world a)"
  using assms by (auto simp: agent_inv_def append_eq_Cons_conv split: if_splits)

lemma at_announce: "store_at s h None w \<Longrightarrow> store_at s h (Some PAnnounce) w" "fsm_at None f \<Longrightarrow> fsm_at (Some PAnnounce) f"
  by (simp_all add: store_at_def fsm_at_def)

lemma agent_step_inv:
  assumes "agent_step s h a a'" "agent_inv s h a"
  shows "agent_inv s h a'"
  using assms(1)
proof cases
  case (step_poll E)
  from wpA_D(1)[OF poll_ok step_poll(3)] assms(2) step_poll(1) store_at_cong[of "ag_world a'" "ag_world a" s h]
  show ?thesis using at_announce by (simp add: agent_inv_def split: if_splits) fastforce+
next
  case (step_heartbeat E)
  then obtain api where "a' = a\<lparr>ag_api := api\<rparr>" by (auto simp: heartbeat_def reportStatus_def split: prod.splits)
  with assms(2) show ?thesis by (simp add: agent_inv_def)
next
  case (step_phase E xs spec gen ph ys ph' a1)
  note r = agent_inv_running[OF assms(2) step_phase(2,4)]
  have "phase_ok s h a (Some ph') a1" using wpA_D(1)[OF run_phase_ok step_phase(5)] r step_phase(3) by blast
  with r step_phase show ?thesis by (auto simp: agent_inv_def phase_ok_def same_guard_def)
next
  case (step_return E xs spec gen ph ys a1)
  note r = agent_inv_running[OF assms(2) step_return(2,4)]
  have "phase_ok s h a None a1" using wpA_D(1)[OF run_phase_ok step_return(5)] r step_return(3) by blast
  with r step_return show ?thesis by (auto simp: agent_inv_def phase_ok_def same_guard_def)
next
  case (step_die_poll E r a1)
  have "files (ag_world a1) = files (ag_world a)" using wpA_D(2)[OF poll_ok step_die_poll(4,5)] .
  from boot_safe_cong[OF this, of h s] agent_inv_boot_safe[OF assms(2)] have "boot_safe h s (ag_world a1)" by simp
  then show ?thesis unfolding step_die_poll(1) by (rule agent_inv_power_off)
next
  case (step_die_phase E spec gen ph r a1)
  from step_die_phase(4) obtain xs ys where "ag_running a = xs @ (spec, gen, ph) # ys" by (meson split_list)
  note r = agent_inv_running[OF assms(2) step_die_phase(2) this]
  have "crash_ok s h a1" using wpA_D(2)[OF run_phase_ok step_die_phase(5,6)] r step_die_phase(3) by blast
  then show ?thesis unfolding step_die_phase(1) by (intro agent_inv_power_off) (simp add: crash_ok_def)
next
  case step_kill
  then show ?thesis using agent_inv_boot_safe[OF assms(2)] by (simp add: agent_inv_power_off)
next
  case step_open
  have "boot_safe h s (snd (NewSlotManager (sm_dir s) (ag_world a)))"
    using NewSlotManager_boot_safe[OF agent_inv_boot_safe[OF assms(2)], of "sm_dir s"] by simp
  with step_open assms(2) show ?thesis by (simp add: agent_inv_def)
next
  case (step_boot E r w')
  have safe: "boot_safe h s (ag_world a)" by (rule agent_inv_boot_safe[OF assms(2)])
  have "r = Done (Inr ()) \<Longrightarrow> safe_up h s w' \<and> fate_of w' = fate_of (ag_world a)" "boot_safe h s w'"
    using bootSequence_ok[OF step_boot(3,4) safe] step_boot(5) by (auto simp: wp_def safe_up_boot_safe split: outcome.splits)
  with step_boot assms(2) fail_stop_cong[of w' "ag_world a"] show ?thesis by (auto simp: agent_inv_def store_at_def)
next
  case (step_api api')
  with assms(2) show ?thesis by (simp add: agent_inv_def)
next
  case (step_weather e)
  with assms(2) safe_up_cong[of "ag_world a\<lparr>fate_of := e\<rparr>" "ag_world a" h s] boot_safe_cong[of "ag_world a\<lparr>fate_of := e\<rparr>" "ag_world a" h s]
  show ?thesis by (auto simp: agent_inv_def store_at_def split: if_splits)
qed

lemma demo_env_fits: "fits demo_slots id demo_env"
  by (simp add: fits_def demo_env_def demo_slots_def)

lemma initial_agent_inv: "boot_safe h s w \<Longrightarrow> agent_inv s h (initial_agent w api)"
  by (simp add: agent_inv_def initial_agent_def fsm_at_def NewFSM_def)

lemma agent_life_inv:
  "(agent_step s h)\<^sup>*\<^sup>* a a' \<Longrightarrow> agent_inv s h a \<Longrightarrow> agent_inv s h a'"
  by (induction rule: rtranclp_induct) (auto intro: agent_step_inv)

lemmas agent_life = agent_life_inv[OF _ initial_agent_inv]

section \<open>Properties\<close>





text \<open>C27. The upgrade transaction never meets an illegal transition: at every moment of a fail-stop life that
  starts on a boot-safe store, when a goroutine is about to run a phase, the machine is in a state from which the state the phase asks for is reachable by one
  edge, so none of the early returns on a state machine error is ever taken.\<close>

theorem upgrade_transitions_legal:
  assumes "(agent_step s h)\<^sup>*\<^sup>* (initial_agent w api) a" "boot_safe h s w"
    and "ag_up a" "(spec, gen, ph) \<in> set (ag_running a)" "phase_enters ph = Some x"
  shows "fst (To x (ag_fsm a)) = None"
proof -
  from assms(4) obtain xs ys where "ag_running a = xs @ (spec, gen, ph) # ys" by (meson split_list)
  from agent_inv_running[OF agent_life[OF assms(1,2)] assms(3) this] have "fsm_at (Some ph) (ag_fsm a)" by blast
  with assms(5) show ?thesis by (cases ph) (auto simp: fsm_at_def)
qed

lemma demo_version: "ActiveVersion demo_slots (demo_world\<lparr>tick := n\<rparr>) = (Done ''factory'', demo_world\<lparr>tick := Suc (Suc n)\<rparr>)"
  by (simp add: ActiveVersion_def Active_def os_defs bindE_def bindp_def atomic_call_def fate_def advance_def retp_def
      demo_world_def demo_slots_def slotDir_def currentPath_def slot_names Base_def TrimPrefix_def HasPrefix_def TrimSpace_def is_space_def)

lemma demo_active: "Active demo_slots (demo_world\<lparr>tick := n\<rparr>) = (Done (Inr ''A''), demo_world\<lparr>tick := Suc n\<rparr>)"
  by (simp add: Active_def os_defs bindE_def bindp_def atomic_call_def fate_def advance_def retp_def
      demo_world_def demo_slots_def slotDir_def currentPath_def slot_names Base_def TrimPrefix_def HasPrefix_def)

lemma demo_boot: "bootSequence demo_env demo_world = (Done (Inr ()), demo_world\<lparr>tick := 5\<rparr>)"
proof -
  have bc: "BootCheck demo_slots demo_world = (Done (BootNormal, None), demo_world\<lparr>tick := 2\<rparr>)"
    using BootCheck_normal[OF demo_world_ok(1-3)] by (simp add: advance_def demo_world_def)
  show ?thesis
    using demo_version[of 3] demo_active[of 2] by (simp add: bootSequence_def demo_env_def bindp_def bc retp_def Let_def)
qed

lemma evaluate_starts:
  assumes "ActiveVersion (e_slots E) (ag_world a) = (Done cur, w')" "sp_DesiredFirmwareVersion (d_Spec dev) \<noteq> cur"
    "\<not> sp_RolloutPaused (d_Spec dev)" "ag_lastFailedKey a \<noteq> target_key (d_Spec dev)" "\<not> ag_upgrading a"
  shows "evaluate E dev a = (Done (), a\<lparr>ag_lastSeenGen := m_Generation (d_Metadata dev), ag_world := w', ag_upgrading := True,
     ag_running := ag_running a @ [(d_Spec dev, m_Generation (d_Metadata dev), PAnnounce)]\<rparr>)"
  using assms by (simp add: evaluate_def bindA_def modA_def liftA_def startUpgrade_def)

lemma evaluate_holds:
  assumes "ActiveVersion (e_slots E) (ag_world a) = (Done cur, w')"
    and "sp_DesiredFirmwareVersion (d_Spec dev) = cur \<or> sp_RolloutPaused (d_Spec dev) \<or> ag_lastFailedKey a = target_key (d_Spec dev) \<or> ag_upgrading a"
    and "evaluate E dev a = (Done (), a')"
  shows "ag_running a' = ag_running a \<and> ag_upgrading a' = ag_upgrading a"
  using assms
  by (auto simp: evaluate_def syncSteadyStatus_def bindA_def modA_def liftA_def startUpgrade_def retA_def reportStatus_def Let_def
      split: if_splits prod.splits outcome.splits)

lemma demo_upgrading_reachable: "(agent_step demo_slots id)\<^sup>*\<^sup>* (initial_agent demo_world ()) demo_upgrading"
proof -
  let ?a0 = "initial_agent demo_world ()"
  let ?a1 = "?a0\<lparr>ag_world := demo_world\<lparr>tick := 5\<rparr>, ag_up := True\<rparr>"
  let ?a2 = "?a1\<lparr>ag_lastSeenGen := 2, ag_world := demo_world\<lparr>tick := 7\<rparr>, ag_upgrading := True, ag_running := [(d_Spec demo_dev, 2, PAnnounce)]\<rparr>"
  have s1: "agent_step demo_slots id ?a0 ?a1"
    using step_boot[of ?a0 demo_slots id demo_env, OF _ demo_env_fits _, of "Done (Inr ())" "demo_world\<lparr>tick := 5\<rparr>"]
      demo_boot all_ok_fail_stop[OF demo_world_ok(1)] by (simp add: initial_agent_def)
  have fits: "fits demo_slots id demo_poll_env" using demo_env_fits by (simp add: fits_def demo_poll_env_def)
  have "evaluate demo_poll_env demo_dev ?a1 = (Done (), ?a2)"
    using evaluate_starts[of demo_poll_env ?a1 "''factory''" "demo_world\<lparr>tick := 7\<rparr>" demo_dev] demo_version[of 5]
    by (simp add: demo_poll_env_def demo_env_def demo_dev_def target_key_def initial_agent_def)
  then have "poll demo_poll_env ?a1 = (Done (), ?a2)"
    by (simp add: poll_def Get_def demo_poll_env_def initial_agent_def)
  then have s2: "agent_step demo_slots id ?a1 ?a2" using step_poll[of ?a1 demo_slots id demo_poll_env ?a2] fits by simp
  have "run_phase demo_env (d_Spec demo_dev) PAnnounce ?a2 = (Done (Some PDownloading), ?a2)"
    by (simp add: upgrade_announce_def bindA_def reportStatus_def UpdateStatus_def Get_def demo_env_def retA_def initial_agent_def eval_nat_numeral)
  from step_phase[OF _ demo_env_fits _ this, of "[]" 2 "[]"]
  have s3: "agent_step demo_slots id ?a2 demo_upgrading" by (simp add: demo_upgrading_def initial_agent_def)
  from s1 s2 s3 show ?thesis by (meson converse_rtranclp_into_rtranclp rtranclp.rtrancl_refl)
qed

text \<open>C29. Which polls start a transaction: exactly those whose target differs from the running
  version, is not paused, is not the target that failed last, while no transaction is running;
  the new goroutine gets the polled spec. Every other poll leaves the guard alone.\<close>

theorem evaluate_starts_iff:
  assumes "ActiveVersion (e_slots E) (ag_world a) = (Done cur, w')" "evaluate E dev a = (Done (), a')"
  shows "ag_running a' =
    (if sp_DesiredFirmwareVersion (d_Spec dev) \<noteq> cur \<and> \<not> sp_RolloutPaused (d_Spec dev) \<and>
        ag_lastFailedKey a \<noteq> target_key (d_Spec dev) \<and> \<not> ag_upgrading a
     then ag_running a @ [(d_Spec dev, m_Generation (d_Metadata dev), PAnnounce)] else ag_running a)"
  using evaluate_starts[OF assms(1)] evaluate_holds[OF assms(1) _ assms(2)] assms(2) by auto

theorem evaluate_starts_iff_witness:
  "ag_running (snd (evaluate demo_env demo_dev (initial_agent (demo_world\<lparr>tick := 0\<rparr>) ()))) = [(d_Spec demo_dev, 2, PAnnounce)]"
proof -
  let ?a = "initial_agent (demo_world\<lparr>tick := 0\<rparr>) ()"
  have v: "ActiveVersion (e_slots demo_env) (ag_world ?a) = (Done ''factory'', demo_world\<lparr>tick := Suc (Suc 0)\<rparr>)"
    using demo_version[of 0] by (simp add: demo_env_def initial_agent_def)
  have e: "fst (evaluate demo_env demo_dev ?a) = Done ()"
    using evaluate_starts[OF v, of demo_dev] by (simp add: demo_dev_def target_key_def initial_agent_def)
  show ?thesis
    using evaluate_starts_iff[OF v, of demo_dev "snd (evaluate demo_env demo_dev ?a)"] e
    by (simp add: prod_eq_iff demo_dev_def target_key_def initial_agent_def)
qed

theorem upgrade_transitions_legal_witness:
  "fst (To StateDownloading (NewFSM True)) = None"
  using upgrade_transitions_legal[OF demo_upgrading_reachable demo_world_safe, of "d_Spec demo_dev" 2 PDownloading StateDownloading]
  by (simp add: demo_upgrading_def initial_agent_def)

text \<open>A steady device whose status already shows its version and slot is not reported again: the
  check looks at these two fields only. So when a failed target is withdrawn and the spec returns
  to the running version, the condition FirmwareSynced=False of the failure is never cleared by
  polling.\<close>

theorem steady_status_ignores_condition:
  assumes "ActiveVersion (e_slots E) (ag_world a) = (Done cur, w1)" "Active (e_slots E) w1 = (Done (Inr slot), w2)"
    and "sp_DesiredFirmwareVersion (d_Spec dev) = cur"
    and "st_CurrentFirmwareVersion (d_Status dev) = cur" "st_ActiveSlot (d_Status dev) = slot"
  shows "evaluate E dev a = (Done (), a\<lparr>ag_lastSeenGen := m_Generation (d_Metadata dev), ag_world := w2\<rparr>)"
  using assms by (simp add: evaluate_def syncSteadyStatus_def bindA_def modA_def liftA_def retA_def slot_or_empty_def)

theorem steady_status_ignores_condition_witness:
  "evaluate demo_env degraded_dev (initial_agent (demo_world\<lparr>tick := 0\<rparr>) ()) =
     (Done (), (initial_agent (demo_world\<lparr>tick := 0\<rparr>) ())\<lparr>ag_lastSeenGen := 2, ag_world := demo_world\<lparr>tick := Suc (Suc (Suc 0))\<rparr>\<rparr>) \<and>
   (\<exists>c \<in> set (st_Conditions (d_Status degraded_dev)). c_Type c = CondFirmwareSynced \<and> c_Status c = CondFalse)"
proof -
  let ?a = "initial_agent (demo_world\<lparr>tick := 0\<rparr>) ()"
  have v: "ActiveVersion (e_slots demo_env) (ag_world ?a) = (Done ''factory'', demo_world\<lparr>tick := Suc (Suc 0)\<rparr>)"
    using demo_version[of 0] by (simp add: demo_env_def initial_agent_def)
  have sl: "e_slots demo_env = demo_slots" by (simp add: demo_env_def)
  have "evaluate demo_env degraded_dev ?a = (Done (), ?a\<lparr>ag_lastSeenGen := 2, ag_world := demo_world\<lparr>tick := Suc (Suc (Suc 0))\<rparr>\<rparr>)"
    using steady_status_ignores_condition[OF v demo_active[of "Suc (Suc 0)", folded sl], of degraded_dev]
    by (simp add: degraded_dev_def demo_dev_def)
  then show ?thesis by (simp add: degraded_dev_def)
qed

end
