(* ===== verification/Agent_Run.thy ===== *)
theory Agent_Run
  imports Agent
begin

text \<open>
  The process of the agent as it runs: \<open>Run\<close> and \<open>heartbeatLoop\<close> of \<open>internal/agent/agent.go\<close> with
  the upgrade goroutine, under an explicit schedule. A schedule says which goroutine moves next
  and what it meets: the drawn jitter, the environment of its calls, whether the context is
  cancelled. The goroutines end the way the code ends them: \<open>Run\<close> returns on cancellation and the
  process exits with it, \<open>rand.N\<close> and \<open>NewTicker\<close> panic on an interval that is not positive.

  The theorem of this theory is the refinement: whatever the schedule, the agent's state moves
  along \<open>agent_step\<close>, so that the theorems on the life of the agent hold of the running program.
\<close>

datatype beater = BeatNew | Beating | BeatStopped

record 's proc =
  pr_agent :: "'s Agent"
  pr_beat :: beater
  pr_exit :: "int option"

text \<open>
  \<open>PollTimer r E gone\<close>: the wait of the poll loop, drawn with \<open>r\<close>, is over and the loop polls in \<open>E\<close>;
  \<open>gone\<close> is whether the context is cancelled when the GET has failed. \<open>UpgradeMoves i E\<close>: the \<open>i\<close>-th running
  upgrade goroutine does its next phase. The last three are not the program's doing: the process is
  killed, another client writes the API object, the fate of coming system calls changes.
\<close>

datatype 's sched =
    PollTimer int "'s Env" bool
  | PollDone int
  | BeatStarts
  | BeatTick "'s Env"
  | BeatDone
  | UpgradeMoves nat "'s Env"
  | Killed
  | ApiWritten 's
  | Weather "nat \<Rightarrow> syscall \<Rightarrow> fault"

definition ends :: "int \<Rightarrow> 's Agent \<Rightarrow> 's proc \<Rightarrow> 's proc" where
  "ends code a p = p\<lparr>pr_agent := power_off a, pr_exit := Some code\<rparr>"

text \<open>A result of a goroutine: it went on, or the process was killed in it (137), or its panic ends the process (2).\<close>

definition after :: "'s proc \<Rightarrow> unit outcome \<times> 's Agent \<Rightarrow> 's proc" where
  "after p r = (case r of (Done _, a) \<Rightarrow> p\<lparr>pr_agent := a\<rparr> | (Died, a) \<Rightarrow> ends 137 a p | (Panicked, a) \<Rightarrow> ends 2 a p)"

text \<open>One round of the loop of \<open>Run\<close>.\<close>

definition run_round :: "Config \<Rightarrow> int \<Rightarrow> 's Env \<Rightarrow> bool \<Rightarrow> 's proc \<Rightarrow> 's proc" where
  "run_round cfg r E gone p =
     (let a = pr_agent p in
      case poll_interval cfg r of
        None \<Rightarrow> ends 2 a p
      | Some _ \<Rightarrow>
          (case Get (e_kube E) (e_http E) (ag_api a) of
             (Inl _, s') \<Rightarrow> if gone then ends 0 (a\<lparr>ag_api := s'\<rparr>) p else p\<lparr>pr_agent := a\<lparr>ag_api := s'\<rparr>\<rparr>
           | (Inr dev, s') \<Rightarrow> after p (evaluate E dev (a\<lparr>ag_api := s'\<rparr>))))"

definition run_cancelled :: "Config \<Rightarrow> int \<Rightarrow> 's proc \<Rightarrow> 's proc" where
  "run_cancelled cfg r p = (case poll_interval cfg r of None \<Rightarrow> ends 2 (pr_agent p) p | Some _ \<Rightarrow> ends 0 (pr_agent p) p)"

text \<open>The heartbeat goroutine: the ticker is made first, then every tick reports until the context is done.\<close>

definition beat_start :: "Config \<Rightarrow> 's proc \<Rightarrow> 's proc" where
  "beat_start cfg p = (if cf_HeartbeatInterval cfg \<le> 0 then ends 2 (pr_agent p) p else p\<lparr>pr_beat := Beating\<rparr>)"

definition heartbeatLoop :: "Config \<Rightarrow> 's sched \<Rightarrow> 's proc \<Rightarrow> 's proc" where
  "heartbeatLoop cfg ev p =
     (case (ev, pr_beat p) of
        (BeatStarts, BeatNew) \<Rightarrow> beat_start cfg p
      | (BeatTick E, Beating) \<Rightarrow> after p (heartbeat E (pr_agent p))
      | (BeatDone, Beating) \<Rightarrow> p\<lparr>pr_beat := BeatStopped\<rparr>
      | _ \<Rightarrow> p)"

text \<open>The upgrade goroutine: the next phase, and the deferred release of the guard when it returns.\<close>

definition upgrade_moves :: "nat \<Rightarrow> 's Env \<Rightarrow> 's proc \<Rightarrow> 's proc" where
  "upgrade_moves i E p =
     (let a = pr_agent p in
      if i < length (ag_running a) then
        (case ag_running a ! i of (spec, gen, ph) \<Rightarrow>
          (case run_phase E spec ph a of
             (Done (Some ph'), a') \<Rightarrow> p\<lparr>pr_agent := a'\<lparr>ag_running := take i (ag_running a) @ (spec, gen, ph') # drop (Suc i) (ag_running a)\<rparr>\<rparr>
           | (Done None, a') \<Rightarrow> p\<lparr>pr_agent := a'\<lparr>ag_running := take i (ag_running a) @ drop (Suc i) (ag_running a), ag_upgrading := False\<rparr>\<rparr>
           | (Died, a') \<Rightarrow> ends 137 a' p
           | (Panicked, a') \<Rightarrow> ends 2 a' p))
      else p)"

definition sched_step :: "Config \<Rightarrow> 's sched \<Rightarrow> 's proc \<Rightarrow> 's proc" where
  "sched_step cfg ev p =
     (if pr_exit p \<noteq> None then p
      else (case ev of
          PollTimer r E gone \<Rightarrow> run_round cfg r E gone p
        | PollDone r \<Rightarrow> run_cancelled cfg r p
        | UpgradeMoves i E \<Rightarrow> upgrade_moves i E p
        | Killed \<Rightarrow> ends 137 (pr_agent p) p
        | ApiWritten s' \<Rightarrow> p\<lparr>pr_agent := (pr_agent p)\<lparr>ag_api := s'\<rparr>\<rparr>
        | Weather e \<Rightarrow> p\<lparr>pr_agent := (pr_agent p)\<lparr>ag_world := (ag_world (pr_agent p))\<lparr>fate_of := e\<rparr>\<rparr>\<rparr>
        | _ \<Rightarrow> heartbeatLoop cfg ev p))"

text \<open>\<open>Run\<close>: the boot sequence, then the loops under a schedule. An error of the boot sequence ends the process with code 1.\<close>

definition Run :: "'s Env \<Rightarrow> 's sched list \<Rightarrow> 's Agent \<Rightarrow> 's proc" where
  "Run E evs a =
     (case bootSequence E (ag_world a) of
        (Done (Inr _), w) \<Rightarrow> fold (sched_step (e_cfg E)) evs \<lparr>pr_agent = a\<lparr>ag_world := w, ag_up := True\<rparr>, pr_beat = BeatNew, pr_exit = None\<rparr>
      | (Done (Inl _), w) \<Rightarrow> \<lparr>pr_agent = a\<lparr>ag_world := w, ag_up := False\<rparr>, pr_beat = BeatNew, pr_exit = Some 1\<rparr>
      | (Died, w) \<Rightarrow> \<lparr>pr_agent = a\<lparr>ag_world := w, ag_up := False\<rparr>, pr_beat = BeatNew, pr_exit = Some 137\<rparr>
      | (Panicked, w) \<Rightarrow> \<lparr>pr_agent = a\<lparr>ag_world := w, ag_up := False\<rparr>, pr_beat = BeatNew, pr_exit = Some 2\<rparr>)"

text \<open>Schedules for one device: the environments fit it, and the weather stays fail-stop.\<close>

fun fair_event :: "SlotManager \<Rightarrow> digest \<Rightarrow> 's sched \<Rightarrow> bool" where
  "fair_event s h (PollTimer r E gone) = fits s h E"
| "fair_event s h (BeatTick E) = fits s h E"
| "fair_event s h (UpgradeMoves i E) = fits s h E"
| "fair_event s h (Weather e) = (\<forall>w. fail_stop (w\<lparr>fate_of := e\<rparr>))"
| "fair_event s h _ = True"

text \<open>How many phases a transaction has before it from the start of a phase.\<close>

fun phases_left :: "phase \<Rightarrow> nat" where
  "phases_left PAnnounce = 6"
| "phases_left PDownloading = 5"
| "phases_left PVerifying = 4"
| "phases_left PFlashing = 3"
| "phases_left PConfirming = 2"
| "phases_left PDone = 1"

fun is_move :: "'s sched \<Rightarrow> bool" where
  "is_move (UpgradeMoves i E) = (i = 0)"
| "is_move _ = False"

text \<open>The process is over exactly when the agent is down.\<close>

definition tied :: "'s proc \<Rightarrow> bool" where
  "tied p \<longleftrightarrow> ag_up (pr_agent p) = (pr_exit p = None)"

text \<open>What an action of the agent leaves alone.\<close>

definition keepsV :: "('s Agent \<Rightarrow> 'v) \<Rightarrow> ('s, 'a) act \<Rightarrow> bool" where
  "keepsV v m \<longleftrightarrow> (\<forall>a. v (snd (m a)) = v a)"

abbreviation guard_view :: "'s Agent \<Rightarrow> bool \<times> (DeviceSpec \<times> int \<times> phase) list \<times> bool" where
  "guard_view a \<equiv> (ag_up a, ag_running a, ag_upgrading a)"

text \<open>A live process with exactly one transaction under way, at the start of a phase with \<open>n\<close> phases to go.\<close>

definition at_work :: "nat \<Rightarrow> 's proc \<Rightarrow> bool" where
  "at_work n p \<longleftrightarrow> pr_exit p = None \<and> ag_upgrading (pr_agent p) \<and> (\<exists>spec gen ph. ag_running (pr_agent p) = [(spec, gen, ph)] \<and> phases_left ph = n)"

definition guarded :: "'s proc \<Rightarrow> bool" where
  "guarded p \<longleftrightarrow> length (ag_running (pr_agent p)) = (if ag_upgrading (pr_agent p) then 1 else 0) \<and> (ag_upgrading (pr_agent p) \<longrightarrow> pr_exit p = None)"

definition demo_sched :: "unit sched list" where
  "demo_sched = [BeatStarts, PollTimer 0 demo_poll_env False]"

text \<open>What an action answers when it returns.\<close>

definition returns :: "('a \<Rightarrow> bool) \<Rightarrow> ('s, 'a) act \<Rightarrow> bool" where
  "returns R m \<longleftrightarrow> (\<forall>a x a'. m a = (Done x, a') \<longrightarrow> R x)"

section \<open>Lemmas\<close>

subsection \<open>What the actions leave alone\<close>

lemma keepsV_bindA: "keepsV v m \<Longrightarrow> (\<And>x. keepsV v (f x)) \<Longrightarrow> keepsV v (bindA m f)"
  by (simp add: keepsV_def bindA_def split: prod.split outcome.split) (metis snd_conv)

lemma keepsV_prims:
  "keepsV v (retA x)" "keepsV v panicA" "keepsV guard_view (liftA m)" "keepsV guard_view (fsm_To st)" "keepsV guard_view (reportStatus E f)"
  "keepsV guard_view (modA (\<lambda>a. a\<lparr>ag_lastFailedKey := k\<rparr>))" "keepsV guard_view (modA (\<lambda>a. a\<lparr>ag_lastSeenGen := g\<rparr>))"
  by (auto simp: keepsV_def retA_def panicA_def liftA_def fsm_To_def reportStatus_def modA_def split: prod.splits)

lemma keepsV_if: "keepsV v m \<Longrightarrow> keepsV v m' \<Longrightarrow> keepsV v (if b then m else m')"
  by simp

lemma keepsV_case: "(\<And>x. keepsV v (f x)) \<Longrightarrow> (\<And>y. keepsV v (g y)) \<Longrightarrow> keepsV v (case r of Inl x \<Rightarrow> f x | Inr y \<Rightarrow> g y)"
  by (cases r) auto

lemmas keepsV_intros = keepsV_bindA keepsV_prims keepsV_if keepsV_case

lemma keepsV_fail: "keepsV guard_view (fail E spec reason msg)"
  unfolding fail_def by (intro keepsV_intros)

lemma keepsV_run_phase: "keepsV guard_view (run_phase E spec ph)"
  by (cases ph) (auto simp: upgrade_announce_def upgrade_download_def upgrade_verify_def upgrade_flash_defs upgrade_confirm_defs upgrade_done_def
      intro!: keepsV_intros keepsV_fail split: prod.split)

lemma keepsV_heartbeat: "keepsV guard_view (heartbeat E)"
  unfolding heartbeat_def by (intro keepsV_intros)

lemma keepsV_syncSteadyStatus: "keepsV guard_view (syncSteadyStatus E dev cur)"
  unfolding syncSteadyStatus_def Let_def by (intro keepsV_intros)

lemma snd_bindA: "snd (bindA m f a) = (case m a of (Done x, a') \<Rightarrow> snd (f x a') | (Died, a') \<Rightarrow> a' | (Panicked, a') \<Rightarrow> a')"
  by (simp add: bindA_def split: prod.split outcome.split)

lemma evaluate_view:
  fixes a :: "'s Agent"
  shows "ag_up (snd (evaluate E dev a)) = ag_up a" "ag_upgrading a \<Longrightarrow> guard_view (snd (evaluate E dev a)) = guard_view a"
proof -
  let ?tail = "\<lambda>current. if sp_DesiredFirmwareVersion (d_Spec dev) = current then syncSteadyStatus E dev current
       else if sp_RolloutPaused (d_Spec dev) then retA ()
       else (\<lambda>a. if ag_lastFailedKey a = target_key (d_Spec dev) then (Done (), a) else startUpgrade dev a)"
  let ?head = "bindA (modA (\<lambda>a :: 's Agent. a\<lparr>ag_lastSeenGen := m_Generation (d_Metadata dev)\<rparr>)) (\<lambda>_. liftA (ActiveVersion (e_slots E)))"
  have e: "evaluate E dev = bindA ?head ?tail" by (auto simp: evaluate_def bindA_def fun_eq_iff split: prod.splits outcome.splits)
  have "keepsV guard_view ?head" by (intro keepsV_intros)
  then have h: "guard_view (snd (?head a)) = guard_view a" by (simp add: keepsV_def)
  have t: "ag_up (snd (?tail c a1)) = ag_up a1" "ag_upgrading a1 \<Longrightarrow> guard_view (snd (?tail c a1)) = guard_view a1" for c a1
    using keepsV_syncSteadyStatus[of E dev c] by (auto simp: keepsV_def retA_def startUpgrade_def)
  obtain r a1 where r: "?head a = (r, a1)" by force
  have "snd (evaluate E dev a) = (case r of Done c \<Rightarrow> snd (?tail c a1) | _ \<Rightarrow> a1)"
    unfolding e snd_bindA r by (cases r) simp_all
  moreover have "guard_view a1 = guard_view a" using h r by simp
  ultimately show "ag_up (snd (evaluate E dev a)) = ag_up a" "ag_upgrading a \<Longrightarrow> guard_view (snd (evaluate E dev a)) = guard_view a"
    using t by (cases r; metis (no_types, lifting) outcome.case fst_conv snd_conv)+
qed

subsection \<open>Every move refines the agent\<close>

lemma after_refines:
  assumes "\<And>a'. r = (Done (), a') \<Longrightarrow> agent_step s h (pr_agent p) a' \<and> ag_up a'"
    and "\<And>x a'. r = (x, a') \<Longrightarrow> x = Died \<or> x = Panicked \<Longrightarrow> agent_step s h (pr_agent p) (power_off a')"
    and "pr_exit p = None"
  shows "(agent_step s h)\<^sup>*\<^sup>* (pr_agent p) (pr_agent (after p r)) \<and> tied (after p r)"
  using assms by (auto simp: after_def ends_def tied_def power_off_def split: prod.splits outcome.splits)

lemma ends_refines:
  "(agent_step s h)\<^sup>*\<^sup>* (pr_agent p) a \<Longrightarrow> (agent_step s h)\<^sup>*\<^sup>* (pr_agent p) (pr_agent (ends code a p)) \<and> tied (ends code a p)"
  by (auto simp: ends_def tied_def power_off_def[of a] intro: rtranclp.rtrancl_into_rtrancl step_kill[of s h a, unfolded power_off_def])

lemma run_round_refines:
  assumes "fits s h E" "ag_up (pr_agent p)" "pr_exit p = None"
  shows "(agent_step s h)\<^sup>*\<^sup>* (pr_agent p) (pr_agent (run_round cfg r E gone p)) \<and> tied (run_round cfg r E gone p)"
proof (cases "poll_interval cfg r")
  case None
  then show ?thesis using ends_refines[of s h p "pr_agent p" 2] by (simp add: run_round_def)
next
  case (Some d)
  let ?a = "pr_agent p"
  obtain g s' where g: "Get (e_kube E) (e_http E) (ag_api ?a) = (g, s')" by force
  have api: "(agent_step s h)\<^sup>*\<^sup>* ?a (?a\<lparr>ag_api := s'\<rparr>)" by (rule r_into_rtranclp[where r = "agent_step s h"], rule step_api)
  show ?thesis
  proof (cases g)
    case (Inl e)
    then show ?thesis using Some g api assms(2,3) ends_refines[OF api, of 0] by (auto simp: run_round_def Let_def tied_def)
  next
    case (Inr dev)
    then have poll: "poll E ?a = evaluate E dev (?a\<lparr>ag_api := s'\<rparr>)" using g by (simp add: poll_def)
    have up: "ag_up (snd (poll E ?a))" using evaluate_view(1)[of E dev] assms(2) by (simp add: poll)
    have "(agent_step s h)\<^sup>*\<^sup>* ?a (pr_agent (after p (poll E ?a))) \<and> tied (after p (poll E ?a))"
    proof (rule after_refines)
      show "agent_step s h ?a a' \<and> ag_up a'" if "poll E ?a = (Done (), a')" for a'
        using step_poll[OF assms(2,1) that] up that by simp
    qed (use step_die_poll[OF assms(2,1)] assms(3) in auto)
    then show ?thesis using Some g Inr by (simp add: run_round_def poll)
  qed
qed

lemma upgrade_moves_refines:
  assumes "fits s h E" "ag_up (pr_agent p)" "pr_exit p = None"
  shows "(agent_step s h)\<^sup>*\<^sup>* (pr_agent p) (pr_agent (upgrade_moves i E p)) \<and> tied (upgrade_moves i E p)"
proof (cases "i < length (ag_running (pr_agent p))")
  case True
  let ?a = "pr_agent p"
  obtain spec gen ph where ph: "ag_running ?a ! i = (spec, gen, ph)" by (cases "ag_running ?a ! i")
  have split: "ag_running ?a = take i (ag_running ?a) @ (spec, gen, ph) # drop (Suc i) (ag_running ?a)"
    using id_take_nth_drop[OF True] ph by simp
  have mem: "(spec, gen, ph) \<in> set (ag_running ?a)" using True ph by (metis nth_mem)
  obtain r a' where r: "run_phase E spec ph ?a = (r, a')" by force
  have up: "ag_up a'" using keepsV_run_phase[of E spec ph] r assms(2) unfolding keepsV_def by (metis fst_conv snd_conv)
  show ?thesis
  proof (cases r)
    case (Done n)
    then show ?thesis
      using True ph r up assms(3) step_phase[OF assms(2,1) split] step_return[OF assms(2,1) split]
      by (cases n) (auto simp: upgrade_moves_def Let_def tied_def)
  qed (use True ph r assms(3) step_die_phase[OF assms(2,1) mem r] in \<open>auto simp: upgrade_moves_def Let_def tied_def ends_def power_off_def[of a']\<close>)
qed (use assms in \<open>simp add: upgrade_moves_def tied_def\<close>)

lemma sched_step_refines:
  assumes "fair_event s h ev" "tied p"
  shows "(agent_step s h)\<^sup>*\<^sup>* (pr_agent p) (pr_agent (sched_step cfg ev p)) \<and> tied (sched_step cfg ev p)"
proof (cases "pr_exit p = None")
  case True
  let ?a = "pr_agent p"
  have up: "ag_up ?a" using assms(2) True by (simp add: tied_def)
  have beat: "(agent_step s h)\<^sup>*\<^sup>* ?a (pr_agent (after p (heartbeat E ?a))) \<and> tied (after p (heartbeat E ?a))" if "fits s h E" for E
  proof (rule after_refines)
    show "agent_step s h ?a a' \<and> ag_up a'" if h: "heartbeat E ?a = (Done (), a')" for a'
      using step_heartbeat[OF up \<open>fits s h E\<close> h] keepsV_heartbeat[of E] h up unfolding keepsV_def by (metis fst_conv snd_conv)
  qed (use True in \<open>auto simp: heartbeat_def reportStatus_def split: prod.splits\<close>)
  have w: "agent_step s h ?a (?a\<lparr>ag_world := ag_world ?a\<lparr>fate_of := e\<rparr>\<rparr>)" if "\<forall>w. fail_stop (w\<lparr>fate_of := e\<rparr>)" for e
    using step_weather that by blast
  have api: "(agent_step s h)\<^sup>*\<^sup>* ?a (?a\<lparr>ag_api := x\<rparr>)" for x by (rule r_into_rtranclp[where r = "agent_step s h"], rule step_api)
  note ends = ends_refines[of s h p ?a, OF rtranclp.rtrancl_refl]
  show ?thesis
  proof (cases ev)
    case (PollTimer r E gone)
    then show ?thesis using run_round_refines[OF _ up True] assms(1) True by (simp add: sched_step_def)
  next
    case (UpgradeMoves i E)
    then show ?thesis using upgrade_moves_refines[OF _ up True] assms(1) True by (simp add: sched_step_def)
  qed (use assms True up ends beat w api in \<open>auto simp: sched_step_def run_cancelled_def heartbeatLoop_def beat_start_def tied_def split: option.split beater.split\<close>)
qed (use assms in \<open>simp add: sched_step_def\<close>)

lemma schedule_refines:
  "\<forall>ev \<in> set evs. fair_event s h ev \<Longrightarrow> tied p \<Longrightarrow>
    (agent_step s h)\<^sup>*\<^sup>* (pr_agent p) (pr_agent (fold (sched_step cfg) evs p)) \<and> tied (fold (sched_step cfg) evs p)"
proof (induction evs arbitrary: p)
  case (Cons ev evs)
  from sched_step_refines[of s h ev p cfg] Cons.prems
  have "(agent_step s h)\<^sup>*\<^sup>* (pr_agent p) (pr_agent (sched_step cfg ev p))" "tied (sched_step cfg ev p)" by auto
  with Cons.IH[of "sched_step cfg ev p"] Cons.prems(1) show ?case by (auto intro: rtranclp_trans)
qed simp

lemma Run_refines:
  assumes E: "fits s h E" and a: "\<not> ag_up a" "fail_stop (ag_world a)" and evs: "\<forall>ev \<in> set evs. fair_event s h ev"
  shows "(agent_step s h)\<^sup>*\<^sup>* a (pr_agent (Run E evs a)) \<and> tied (Run E evs a)"
proof -
  obtain r w where b: "bootSequence E (ag_world a) = (r, w)" by force
  have "agent_step s h a (a\<lparr>ag_world := w, ag_up := (r = Done (Inr ()))\<rparr>)" by (rule step_boot[OF a(1) E a(2) b])
  then have boot: "(agent_step s h)\<^sup>*\<^sup>* a (a\<lparr>ag_world := w, ag_up := (r = Done (Inr ()))\<rparr>)" by blast
  show ?thesis
  proof (cases "r = Done (Inr ())")
    case True
    let ?p = "\<lparr>pr_agent = a\<lparr>ag_world := w, ag_up := True\<rparr>, pr_beat = BeatNew, pr_exit = None\<rparr>"
    have "tied ?p" by (simp add: tied_def)
    from schedule_refines[OF evs this, of "e_cfg E"] boot True b show ?thesis by (auto simp: Run_def intro: rtranclp_trans)
  next
    case False
    with boot b show ?thesis by (cases r) (auto simp: Run_def tied_def split: sum.split)
  qed
qed

subsection \<open>A transaction ends\<close>

lemma returns_intros:
  "R x \<Longrightarrow> returns R (retA x)" "returns R panicA" "(\<And>x. returns R (f x)) \<Longrightarrow> returns R (bindA m f)"
  "returns R m1 \<Longrightarrow> returns R m2 \<Longrightarrow> returns R (if b then m1 else m2)"
  "(\<And>x. returns R (g x)) \<Longrightarrow> (\<And>y. returns R (k y)) \<Longrightarrow> returns R (case r of Inl x \<Rightarrow> g x | Inr y \<Rightarrow> k y)"
  by (auto simp: returns_def retA_def panicA_def bindA_def split: sum.split) (auto split: prod.splits outcome.splits)

lemma returns_fail: "R None \<Longrightarrow> returns R (fail E spec reason msg)"
  unfolding fail_def by (intro returns_intros)

lemma returns_run_phase: "returns (\<lambda>r. case r of None \<Rightarrow> True | Some ph' \<Rightarrow> phases_left ph = Suc (phases_left ph')) (run_phase E spec ph)"
  by (cases ph) (auto simp: upgrade_announce_def upgrade_download_def upgrade_verify_def upgrade_flash_defs upgrade_confirm_defs upgrade_done_def
      intro!: returns_intros returns_fail split: prod.split)

lemma after_at_work:
  assumes "at_work n p" "guard_view (snd r) = guard_view (pr_agent p)"
  shows "\<not> ag_upgrading (pr_agent (after p r)) \<or> at_work n (after p r)"
  using assms by (auto simp: after_def ends_def power_off_def at_work_def split: prod.splits outcome.splits)

lemma ends_idle: "\<not> ag_upgrading (pr_agent (ends code a p))"
  by (simp add: ends_def power_off_def)

lemma run_round_at_work:
  assumes "at_work n p"
  shows "\<not> ag_upgrading (pr_agent (run_round cfg r E gone p)) \<or> at_work n (run_round cfg r E gone p)"
proof -
  obtain g s' where g: "Get (e_kube E) (e_http E) (ag_api (pr_agent p)) = (g, s')" by force
  have "guard_view (snd (evaluate E dev ((pr_agent p)\<lparr>ag_api := s'\<rparr>))) = guard_view (pr_agent p)" for dev
    using evaluate_view(2)[of "(pr_agent p)\<lparr>ag_api := s'\<rparr>" E dev] assms by (simp add: at_work_def)
  from after_at_work[OF assms this] g assms show ?thesis
    by (cases g; cases "poll_interval cfg r") (auto simp: run_round_def ends_idle at_work_def Let_def)
qed

lemma upgrade_moves_at_work:
  assumes "at_work n p"
  shows "\<not> ag_upgrading (pr_agent (upgrade_moves i E p)) \<or> at_work (if i = 0 then n - 1 else n) (upgrade_moves i E p)"
proof (cases "i = 0")
  case True
  from assms obtain spec gen ph where p: "pr_exit p = None" "ag_upgrading (pr_agent p)" "ag_running (pr_agent p) = [(spec, gen, ph)]" "phases_left ph = n"
    by (auto simp: at_work_def)
  obtain r a' where r: "run_phase E spec ph (pr_agent p) = (r, a')" by force
  then have "ag_upgrading a'" using keepsV_run_phase[of E spec ph] p(2) unfolding keepsV_def by (metis snd_conv)
  moreover have "phases_left ph' = n - 1" if "r = Done (Some ph')" for ph'
    using returns_run_phase[of ph E spec] r that p(4) unfolding returns_def by fastforce
  ultimately show ?thesis
    using True p r by (cases r) (auto simp: upgrade_moves_def Let_def at_work_def ends_idle split: option.split)
qed (use assms in \<open>auto simp: upgrade_moves_def at_work_def Let_def\<close>)

lemma sched_step_at_work:
  assumes "at_work n p"
  shows "\<not> ag_upgrading (pr_agent (sched_step cfg ev p)) \<or> at_work (if is_move ev then n - 1 else n) (sched_step cfg ev p)"
proof -
  have x: "pr_exit p = None" using assms by (simp add: at_work_def)
  have "guard_view (snd (heartbeat E (pr_agent p))) = guard_view (pr_agent p)" for E
    using keepsV_heartbeat[of E] by (simp add: keepsV_def)
  note beat = after_at_work[OF assms this]
  show ?thesis
  proof (cases ev)
    case (PollTimer r E gone)
    then show ?thesis using run_round_at_work[OF assms] x by (simp add: sched_step_def)
  next
    case (UpgradeMoves i E)
    then show ?thesis using upgrade_moves_at_work[OF assms, of i E] x by (simp add: sched_step_def)
  qed (use assms x beat in \<open>auto simp: sched_step_def run_cancelled_def heartbeatLoop_def beat_start_def ends_idle at_work_def split: option.split beater.split\<close>)
qed

lemma schedule_ends_work:
  assumes "at_work n p" "n \<le> length (filter is_move evs)" "0 < n"
  shows "\<exists>k \<le> length evs. \<not> ag_upgrading (pr_agent (fold (sched_step cfg) (take k evs) p))"
  using assms
proof (induction evs arbitrary: n p)
  case (Cons ev evs)
  let ?p = "sched_step cfg ev p" and ?n = "if is_move ev then n - 1 else n"
  show ?case
  proof (cases "ag_upgrading (pr_agent ?p)")
    case False
    then show ?thesis by (intro exI[of _ 1]) simp
  next
    case True
    with sched_step_at_work[OF Cons.prems(1)] have w: "at_work ?n ?p" by blast
    then have "0 < ?n" by (auto simp: at_work_def elim: phases_left.elims)
    moreover have "?n \<le> length (filter is_move evs)" using Cons.prems(2) by (auto split: if_splits)
    ultimately obtain k where "k \<le> length evs" "\<not> ag_upgrading (pr_agent (fold (sched_step cfg) (take k evs) ?p))"
      using Cons.IH[OF w] by blast
    then show ?thesis by (intro exI[of _ "Suc k"]) simp
  qed
qed simp

lemma Run_append: "Run E (evs @ evs') a = fold (sched_step (e_cfg E)) evs' (Run E evs a)"
proof -
  have "fold (sched_step (e_cfg E)) evs' p = p" if "pr_exit p \<noteq> None" for p :: "'a proc"
    using that by (induction evs') (simp_all add: sched_step_def)
  then show ?thesis by (auto simp: Run_def split: prod.split outcome.split sum.split)
qed

subsection \<open>One transaction at a time\<close>

text \<open>The guard says whether a transaction runs; when the process is over none does.\<close>

lemma guarded_after:
  assumes "guarded p" "guard_view (snd r) = guard_view (pr_agent p)"
  shows "guarded (after p r)"
  using assms by (auto simp: guarded_def after_def ends_def power_off_def split: prod.splits outcome.splits)

lemma guarded_simps [simp]: "guarded (ends code a p)" "guarded (p\<lparr>pr_beat := b\<rparr>) = guarded p"
  by (simp_all add: guarded_def ends_def power_off_def)

lemma guarded_view: "guarded p \<Longrightarrow> guard_view a = guard_view (pr_agent p) \<Longrightarrow> guarded (p\<lparr>pr_agent := a\<rparr>)"
  by (simp add: guarded_def)

lemma evaluate_idle:
  assumes "\<not> ag_upgrading a"
  shows "guard_view (snd (evaluate E dev a)) = guard_view a \<or>
    (\<exists>x. ag_running (snd (evaluate E dev a)) = ag_running a @ [x] \<and> ag_upgrading (snd (evaluate E dev a)))"
proof -
  have "guard_view (snd (syncSteadyStatus E dev c b)) = guard_view b" for c b
    using keepsV_syncSteadyStatus[of E dev c] by (simp add: keepsV_def)
  moreover have "guard_view (snd (liftA m b)) = guard_view b" for b :: "'a Agent" and m :: "'b prog"
    by (simp add: liftA_def split: prod.split)
  ultimately show ?thesis
    using assms by (auto simp: evaluate_def bindA_def modA_def retA_def startUpgrade_def liftA_def split: prod.split outcome.split)
qed

lemma run_round_guarded:
  assumes "guarded p" "pr_exit p = None"
  shows "guarded (run_round cfg r E gone p)"
proof -
  obtain g s' where g: "Get (e_kube E) (e_http E) (ag_api (pr_agent p)) = (g, s')" by force
  let ?a = "(pr_agent p)\<lparr>ag_api := s'\<rparr>"
  have "guarded (after p (evaluate E dev ?a))" for dev
  proof (cases "guard_view (snd (evaluate E dev ?a)) = guard_view (pr_agent p)")
    case True
    then show ?thesis by (rule guarded_after[OF assms(1)])
  next
    case False
    with evaluate_view(2)[of ?a E dev] evaluate_idle[of ?a E dev] have "\<not> ag_upgrading (pr_agent p)"
      "\<exists>x. ag_running (snd (evaluate E dev ?a)) = ag_running (pr_agent p) @ [x] \<and> ag_upgrading (snd (evaluate E dev ?a))" by auto
    with assms show ?thesis by (auto simp: guarded_def after_def ends_def power_off_def split: prod.splits outcome.splits)
  qed
  with g assms show ?thesis
    by (cases g; cases "poll_interval cfg r") (auto simp: run_round_def Let_def intro!: guarded_view)
qed

lemma upgrade_moves_guarded:
  assumes "guarded p" "pr_exit p = None"
  shows "guarded (upgrade_moves i E p)"
proof (cases "i < length (ag_running (pr_agent p))")
  case True
  with assms obtain spec gen ph where p: "ag_running (pr_agent p) = [(spec, gen, ph)]" "ag_upgrading (pr_agent p)" "i = 0"
    by (cases "ag_running (pr_agent p)") (auto simp: guarded_def split: if_splits)
  obtain r a' where r: "run_phase E spec ph (pr_agent p) = (r, a')" by force
  then have "ag_upgrading a'" using keepsV_run_phase[of E spec ph] p(2) unfolding keepsV_def by (metis snd_conv)
  with p r assms(2) show ?thesis by (cases r) (auto simp: upgrade_moves_def Let_def, auto simp: guarded_def split: option.split)
qed (use assms in \<open>simp add: upgrade_moves_def Let_def\<close>)

lemma sched_step_guarded:
  assumes "guarded p"
  shows "guarded (sched_step cfg ev p)"
proof (cases "pr_exit p = None")
  case True
  have "guard_view (snd (heartbeat E (pr_agent p))) = guard_view (pr_agent p)" for E
    using keepsV_heartbeat[of E] by (simp add: keepsV_def)
  note beat = guarded_after[OF assms this]
  show ?thesis
  proof (cases ev)
    case (PollTimer r E gone)
    then show ?thesis using run_round_guarded[OF assms True] True by (simp add: sched_step_def)
  next
    case (UpgradeMoves i E)
    then show ?thesis using upgrade_moves_guarded[OF assms True] True by (simp add: sched_step_def)
  qed (use assms True beat in \<open>auto simp: sched_step_def run_cancelled_def heartbeatLoop_def beat_start_def intro!: guarded_view split: option.split beater.split\<close>)
qed (use assms in \<open>simp add: sched_step_def\<close>)

lemma Run_guarded: "guarded (Run E evs (initial_agent w api))"
proof -
  have "guarded p \<Longrightarrow> guarded (fold (sched_step cfg) evs p)" for p :: "'a proc" and cfg
    by (induction evs arbitrary: p) (simp_all add: sched_step_guarded)
  moreover have "guarded \<lparr>pr_agent = (initial_agent w api)\<lparr>ag_world := w', ag_up := u\<rparr>, pr_beat = BeatNew, pr_exit = e\<rparr>" for w' u e
    by (simp add: guarded_def initial_agent_def)
  ultimately show ?thesis by (auto simp: Run_def split: prod.split outcome.split sum.split)
qed

section \<open>Properties\<close>

text \<open>C17. Single flight, without any assumption: in whatever order the goroutines of the process move, whatever
  the file system, the API server and the firmware server answer, and wherever the process is
  cancelled, killed or panics, at most one upgrade transaction is running, and the flag that guards
  them tells exactly whether one is.\<close>

theorem single_flight:
  "length (ag_running (pr_agent (Run E evs (initial_agent w api)))) = (if ag_upgrading (pr_agent (Run E evs (initial_agent w api))) then 1 else 0)"
  using Run_guarded[of E evs w api] by (simp add: guarded_def)

text \<open>C2. The running program is the agent of the transition relation: on a boot-safe store and in fail-stop
  environments (the calls that keep markers and link return no error of the hardware), whatever the
  order in which the poll loop, the heartbeat loop and the upgrade goroutine move, whatever the jitter
  and wherever the process is cancelled, killed or panics, the state after \<open>Run\<close> is one that
  \<open>agent_step\<close> reaches from the switched-off device. So the process is over exactly when the device is
  down, its store is boot-safe at every moment, and at most one transaction runs.\<close>

theorem Run_refines_agent_step:
  assumes "fits s h E" "boot_safe h s w" "fail_stop w" "\<forall>ev \<in> set evs. fair_event s h ev"
  shows "(agent_step s h)\<^sup>*\<^sup>* (initial_agent w api) (pr_agent (Run E evs (initial_agent w api))) \<and>
    (pr_exit (Run E evs (initial_agent w api)) = None \<longleftrightarrow> ag_up (pr_agent (Run E evs (initial_agent w api)))) \<and>
    boot_safe h s (ag_world (pr_agent (Run E evs (initial_agent w api)))) \<and>
    length (ag_running (pr_agent (Run E evs (initial_agent w api)))) \<le> 1"
proof -
  let ?a = "initial_agent w api"
  have "\<not> ag_up ?a" "fail_stop (ag_world ?a)" using assms(3) by (simp_all add: initial_agent_def)
  from Run_refines[OF assms(1) this assms(4)] have r: "(agent_step s h)\<^sup>*\<^sup>* ?a (pr_agent (Run E evs ?a))" "tied (Run E evs ?a)" by auto
  have inv: "agent_inv s h (pr_agent (Run E evs ?a))" by (rule agent_life[OF r(1) assms(2)])
  then have "length (ag_running (pr_agent (Run E evs ?a))) \<le> 1" by (auto simp: agent_inv_def split: if_splits)
  with r agent_inv_boot_safe[OF inv] show ?thesis by (auto simp: tied_def)
qed

lemma demo_sched_fits: "fits demo_slots id demo_poll_env" "\<forall>ev \<in> set demo_sched. fair_event demo_slots id ev" "fail_stop demo_world"
  using demo_env_fits all_ok_fail_stop[OF demo_world_ok(1)] by (simp_all add: fits_def demo_poll_env_def demo_sched_def)

lemma demo_sched_upgrading: "ag_upgrading (pr_agent (Run demo_poll_env demo_sched (initial_agent demo_world ())))"
proof -
  let ?a = "(initial_agent demo_world ())\<lparr>ag_world := demo_world\<lparr>tick := 5\<rparr>, ag_up := True\<rparr>"
  have e: "e_slots demo_poll_env = e_slots demo_env" "e_sha256 demo_poll_env = e_sha256 demo_env" by (simp_all add: demo_poll_env_def)
  have b: "bootSequence demo_poll_env demo_world = (Done (Inr ()), demo_world\<lparr>tick := 5\<rparr>)"
    using demo_boot unfolding bootSequence_def e .
  have "ag_upgrading (snd (evaluate demo_poll_env demo_dev ?a)) \<and> fst (evaluate demo_poll_env demo_dev ?a) = Done ()"
    using evaluate_starts[of demo_poll_env ?a "''factory''" "demo_world\<lparr>tick := 7\<rparr>" demo_dev] demo_version[of 5]
    by (simp add: demo_poll_env_def demo_env_def demo_dev_def target_key_def initial_agent_def)
  moreover have "Get (e_kube demo_poll_env) (e_http demo_poll_env) () = (Inr demo_dev, ())" by (simp add: Get_def demo_poll_env_def)
  moreover have "cf_HeartbeatInterval (e_cfg demo_poll_env) = 5000000000" "cf_PollInterval (e_cfg demo_poll_env) = 5000000000"
    by (simp_all add: demo_poll_env_def demo_env_def)
  ultimately show ?thesis
    by (auto simp: Run_def b demo_sched_def sched_step_def heartbeatLoop_def beat_start_def run_round_def poll_interval_def after_def initial_agent_def Let_def
        split: prod.split)
qed

theorem single_flight_witness:
  "let a = pr_agent (Run demo_poll_env demo_sched (initial_agent demo_world ())) in ag_upgrading a \<and> length (ag_running a) = 1"
  using single_flight[of demo_poll_env demo_sched demo_world "()"] demo_sched_upgrading by (simp add: Let_def)

theorem Run_refines_agent_step_witness:
  "let p = Run demo_poll_env demo_sched (initial_agent demo_world ()) in ag_upgrading (pr_agent p) \<and> boot_safe id demo_slots (ag_world (pr_agent p))"
  using Run_refines_agent_step[OF demo_sched_fits(1) demo_world_safe demo_sched_fits(3,2), of "()"] demo_sched_upgrading by (simp add: Let_def)

text \<open>C14. A transaction ends: once an upgrade is under way in a running process, six moves of its goroutine
  are enough, whatever polls, heartbeats, failures and foreign writes happen before and in between:
  within the schedule that holds them the guard is released (or the process is over). No phase
  repeats and polls start no second transaction.\<close>

theorem Run_upgrade_terminates:
  assumes "ag_upgrading (pr_agent (Run E evs (initial_agent w api)))" "6 \<le> length (filter is_move evs')"
  shows "\<exists>k \<le> length evs'. \<not> ag_upgrading (pr_agent (Run E (evs @ take k evs') (initial_agent w api)))"
proof -
  let ?p = "Run E evs (initial_agent w api)"
  from Run_guarded[of E evs w api] assms(1) obtain spec gen ph where "ag_running (pr_agent ?p) = [(spec, gen, ph)]" "pr_exit ?p = None"
    by (cases "ag_running (pr_agent ?p)") (auto simp: guarded_def)
  then have "at_work (phases_left ph) ?p" using assms(1) by (simp add: at_work_def)
  moreover have "phases_left ph \<le> 6" "0 < phases_left ph" by (cases ph; simp)+
  ultimately show ?thesis using schedule_ends_work[of "phases_left ph" ?p evs' "e_cfg E"] assms(2) by (auto simp: Run_append)
qed

theorem Run_upgrade_terminates_witness:
  "\<exists>k \<le> 6. \<not> ag_upgrading (pr_agent (Run demo_poll_env (demo_sched @ take k (replicate 6 (UpgradeMoves 0 demo_poll_env))) (initial_agent demo_world ())))"
  using Run_upgrade_terminates[OF demo_sched_upgrading, of "replicate 6 (UpgradeMoves 0 demo_poll_env)"]
  by simp

end
