(* ===== verification/Kubeconfig.thy ===== *)
theory Kubeconfig
  imports Kube_Client
begin

text \<open>
  How the agent gets its client (\<open>NewKubeClient\<close> and \<open>loadKubeconfig\<close> of \<open>internal/agent/kube.go\<close>):
  the flat reader of a kubeconfig, the base64 decoding of its credentials, and the choice between
  the flag and the file. The lemmas show that the decoder inverts the standard encoder, that the
  reader takes the first value of each key, and that nothing of the credentials is dropped.
\<close>

text \<open>The alphabet of the standard base64 encoding.\<close>

definition b64_val :: "char \<Rightarrow> nat option" where
  "b64_val c =
     (let n = of_char c in
      if 65 \<le> n \<and> n \<le> 90 then Some (n - 65)
      else if 97 \<le> n \<and> n \<le> 122 then Some (n - 71)
      else if 48 \<le> n \<and> n \<le> 57 then Some (n + 4)
      else if n = 43 then Some 62
      else if n = 47 then Some 63
      else None)"

definition b64_char :: "nat \<Rightarrow> char" where
  "b64_char n = char_of (if n < 26 then n + 65 else if n < 52 then n + 71 else if n < 62 then n - 4 else if n = 62 then 43 else 47)"

text \<open>
  \<open>base64.StdEncoding.DecodeString\<close>: line breaks are skipped, padding is required and may only
  end the input; leftover bits before the padding are not checked.
\<close>

fun b64_quanta :: "string \<Rightarrow> string option" where
  "b64_quanta [] = Some []"
| "b64_quanta (a # b # c # d # rest) =
     (case (b64_val a, b64_val b) of
        (Some x, Some y) \<Rightarrow>
          if c = CHR ''='' then (if d = CHR ''='' \<and> rest = [] then Some [char_of (x * 4 + y div 16)] else None)
          else (case b64_val c of None \<Rightarrow> None | Some z \<Rightarrow>
            if d = CHR ''='' then
              (if rest = [] then Some [char_of (x * 4 + y div 16), char_of (y mod 16 * 16 + z div 4)] else None)
            else (case b64_val d of None \<Rightarrow> None | Some u \<Rightarrow>
              map_option (\<lambda>r. char_of (x * 4 + y div 16) # char_of (y mod 16 * 16 + z div 4) # char_of (z mod 4 * 64 + u) # r) (b64_quanta rest)))
      | _ \<Rightarrow> None)"
| "b64_quanta _ = None"

definition base64_DecodeString :: "string \<Rightarrow> go_error + string" where
  "base64_DecodeString s =
     (case b64_quanta (filter (\<lambda>c. c \<noteq> CHR 0x0A \<and> c \<noteq> CHR 0x0D) s) of
        None \<Rightarrow> Inl (Message ''illegal base64 data'') | Some b \<Rightarrow> Inr b)"

text \<open>The encoder, as the reference for the round trip.\<close>

fun b64_encode :: "string \<Rightarrow> string" where
  "b64_encode [] = []"
| "b64_encode [a] = (let x = of_char a in [b64_char (x div 4), b64_char (x mod 4 * 16), CHR ''='', CHR ''=''])"
| "b64_encode [a, b] =
     (let x = of_char a; y = of_char b in [b64_char (x div 4), b64_char (x mod 4 * 16 + y div 16), b64_char (y mod 16 * 4), CHR ''=''])"
| "b64_encode (a # b # c # rest) =
     (let x = of_char a; y = of_char b; z = of_char c in
      b64_char (x div 4) # b64_char (x mod 4 * 16 + y div 16) # b64_char (y mod 16 * 4 + z div 64) # b64_char (z mod 64) # b64_encode rest)"

text \<open>
  The parsing of certificates is an argument: \<open>x509_pair cert key\<close> is the error of
  \<open>tls.X509KeyPair\<close>, and \<open>x509_pool ca\<close> tells whether \<open>AppendCertsFromPEM\<close> found a certificate. A
  TLS configuration is the three decoded blobs it was built from.
\<close>

record x509 =
  x509_pair :: "string \<Rightarrow> string \<Rightarrow> go_error option"
  x509_pool :: "string \<Rightarrow> bool"

record tls_config =
  tls_RootCAs :: string
  tls_cert :: string
  tls_key :: string

definition kubeconfig_keys :: "string list" where
  "kubeconfig_keys = [''server'', ''certificate-authority-data'', ''client-certificate-data'', ''client-key-data'']"

fun scan_keys :: "string \<Rightarrow> string list \<Rightarrow> (string \<rightharpoonup> string) \<Rightarrow> (string \<rightharpoonup> string)" where
  "scan_keys line [] kv = kv"
| "scan_keys line (key # keys) kv =
     scan_keys line keys (case CutPrefix line (key @ '': '') of
        None \<Rightarrow> kv
      | Some v \<Rightarrow> (case kv key of None \<Rightarrow> kv(key \<mapsto> TrimSpace v) | Some _ \<Rightarrow> kv))"

fun scan_lines :: "string list \<Rightarrow> (string \<rightharpoonup> string) \<Rightarrow> (string \<rightharpoonup> string)" where
  "scan_lines [] kv = kv"
| "scan_lines (line # ls) kv = scan_lines ls (scan_keys (TrimSpace line) kubeconfig_keys kv)"

definition field :: "(string \<rightharpoonup> string) \<Rightarrow> string \<Rightarrow> string" where
  "field kv k = (case kv k of None \<Rightarrow> [] | Some v \<Rightarrow> v)"

definition decode_tls :: "x509 \<Rightarrow> (string \<rightharpoonup> string) \<Rightarrow> go_error + tls_config" where
  "decode_tls X kv =
     (case base64_DecodeString (field kv ''certificate-authority-data'') of
        Inl e \<Rightarrow> Inl (Wrapped ''bad CA data'' (Some e))
      | Inr ca \<Rightarrow> (case base64_DecodeString (field kv ''client-certificate-data'') of
        Inl e \<Rightarrow> Inl (Wrapped ''bad client cert'' (Some e))
      | Inr cert \<Rightarrow> (case base64_DecodeString (field kv ''client-key-data'') of
        Inl e \<Rightarrow> Inl (Wrapped ''bad client key'' (Some e))
      | Inr key \<Rightarrow> (case x509_pair X cert key of
        Some e \<Rightarrow> Inl e
      | None \<Rightarrow>
          if \<not> x509_pool X ca then Inl (Message ''failed to parse CA certificate'')
          else Inr \<lparr>tls_RootCAs = ca, tls_cert = cert, tls_key = key\<rparr>))))"

definition loadKubeconfig :: "x509 \<Rightarrow> path \<Rightarrow> (go_error + string \<times> tls_config option) prog" where
  "loadKubeconfig X p =
     bindE (os_ReadFile p) (\<lambda>raw.
       let kv = scan_lines (Split CHR 0x0A raw) Map.empty; server = field kv ''server'' in
       if server = [] then retp (Inl (Message ''no server found''))
       else if HasPrefix server ''http://'' then retp (Inr (server, None))
       else (case decode_tls X kv of Inl e \<Rightarrow> retp (Inl e) | Inr tls \<Rightarrow> retp (Inr (server, Some tls))))"

text \<open>\<open>NewKubeClient\<close>; the empty path stands for the empty flag. The transport is the TLS configuration, if any.\<close>

definition NewKubeClient :: "x509 \<Rightarrow> string \<Rightarrow> path \<Rightarrow> string \<Rightarrow> string \<Rightarrow> (go_error + KubeClient \<times> tls_config option) prog" where
  "NewKubeClient X server kubeconfig namespace name =
     (let finish = (\<lambda>base tls. if base = [] then retp (Inl (Message ''either --server or --kubeconfig is required''))
            else retp (Inr (\<lparr>kc_base = base, kc_namespace = namespace, kc_name = name\<rparr>, tls)))
      in if kubeconfig \<noteq> [] then bindE (loadKubeconfig X kubeconfig) (\<lambda>(server, tls). finish server tls)
         else finish server None)"

text \<open>The value that the first line with a value for \<open>k\<close> gives.\<close>

fun first_value :: "string \<Rightarrow> string list \<Rightarrow> string option" where
  "first_value k [] = None"
| "first_value k (l # ls) = (case CutPrefix (TrimSpace l) (k @ '': '') of Some v \<Rightarrow> Some (TrimSpace v) | None \<Rightarrow> first_value k ls)"

text \<open>The file that \<open>kind\<close> and \<open>kubeadm\<close> write, in outline.\<close>

definition key_line :: "string \<Rightarrow> string \<Rightarrow> string" where
  "key_line k v = ''    '' @ k @ '': '' @ v"

definition kubeconfig_lines :: "string \<Rightarrow> string \<Rightarrow> string \<Rightarrow> string \<Rightarrow> string list" where
  "kubeconfig_lines server ca cert key =
     [''apiVersion: v1'', ''clusters:'', ''- cluster:'', key_line ''certificate-authority-data'' (b64_encode ca), key_line ''server'' server,
      ''  name: kind-kind'', ''contexts:'', ''- context:'', ''    cluster: kind-kind'', ''    user: kind-kind'', ''  name: kind-kind'',
      ''current-context: kind-kind'', ''kind: Config'', ''users:'', ''- name: kind-kind'', ''  user:'', key_line ''client-certificate-data'' (b64_encode cert),
      key_line ''client-key-data'' (b64_encode key), []]"

fun join_lines :: "string list \<Rightarrow> string" where
  "join_lines [] = []"
| "join_lines [l] = l"
| "join_lines (l # ls) = l @ CHR 0x0A # join_lines ls"

definition plain :: "string \<Rightarrow> bool" where
  "plain s \<longleftrightarrow> s \<noteq> [] \<and> list_all (\<lambda>c. \<not> is_space c) s"

definition kubeconfig_world :: world where
  "kubeconfig_world = \<lparr>files = [[''etc'', ''kubeconfig''] \<mapsto> File (join_lines (kubeconfig_lines ''https://api'' ''ca'' ''cert'' ''key''))],
     tick = 0, fate_of = (\<lambda>_ _. Ok)\<rparr>"

definition lenient_x509 :: x509 where
  "lenient_x509 = \<lparr>x509_pair = (\<lambda>_ _. None), x509_pool = (\<lambda>_. True)\<rparr>"

section \<open>Lemmas\<close>

subsection \<open>Base64\<close>

lemma b64_val_char [simp]: "n < 64 \<Longrightarrow> b64_val (b64_char n) = Some n"
  by (auto simp: b64_val_def b64_char_def Let_def of_char_of take_bit_eq_mod)

lemma b64_val_None: "b64_val (CHR ''='') = None" "is_space c \<Longrightarrow> b64_val c = None"
  by (auto simp: b64_val_def is_space_def Let_def)

lemma b64_char_ok [simp]: "n < 64 \<Longrightarrow> b64_char n \<noteq> CHR ''=''" "n < 64 \<Longrightarrow> \<not> is_space (b64_char n)"
  using b64_val_char[of n] b64_val_None(1) b64_val_None(2)[of "b64_char n"] by (metis option.distinct(1))+

lemma sextet_bounds:
  fixes x y z :: nat
  assumes "x < 256" "y < 256" "z < 256"
  shows "x div 4 < 64" "x mod 4 * 16 + y div 16 < 64" "y mod 16 * 4 + z div 64 < 64" "z mod 64 < 64"
proof -
  have "x mod 4 < 4" "y div 16 < 16" "y mod 16 < 16" "z div 64 < 4" using assms by simp_all
  then show "x mod 4 * 16 + y div 16 < 64" "y mod 16 * 4 + z div 64 < 64" by linarith+
qed (use assms in simp_all)

lemma byte_pieces [simp]:
  "(of_char b :: nat) div 16 div 16 = 0" "(of_char b :: nat) div 16 mod 16 = of_char b div 16"
  "(of_char b :: nat) div 64 div 4 = 0" "(of_char b :: nat) div 64 mod 4 = of_char b div 64"
proof -
  have "(of_char b :: nat) < 256" by simp
  then have "(of_char b :: nat) div 16 < 16" "(of_char b :: nat) div 64 < 4" by linarith+
  then show "(of_char b :: nat) div 16 div 16 = 0" "(of_char b :: nat) div 16 mod 16 = of_char b div 16"
    "(of_char b :: nat) div 64 div 4 = 0" "(of_char b :: nat) div 64 mod 4 = of_char b div 64" by simp_all
qed

lemma b64_roundtrip: "b64_quanta (b64_encode bs) = Some bs"
proof (induction bs rule: b64_encode.induct)
  case (2 a)
  show ?case using sextet_bounds[of "of_char a" 0 0] by (simp add: Let_def)
next
  case (3 a b)
  show ?case using sextet_bounds[of "of_char a" "of_char b" 0] by (simp add: Let_def)
next
  case (4 a b c rest)
  then show ?case using sextet_bounds[of "of_char a" "of_char b" "of_char c"] by (simp add: Let_def)
qed simp

lemma pad_not_space: "\<not> is_space (CHR ''='')"
  by (simp add: is_space_def)

lemma b64_encode_chars: "c \<in> set (b64_encode bs) \<Longrightarrow> \<not> is_space c"
proof (induction bs rule: b64_encode.induct)
  case (2 a)
  then show ?case using sextet_bounds[of "of_char a" 0 0] by (auto simp: Let_def pad_not_space)
next
  case (3 a b)
  then show ?case using sextet_bounds[of "of_char a" "of_char b" 0] by (auto simp: Let_def pad_not_space)
next
  case (4 a b c' rest)
  then show ?case using sextet_bounds[of "of_char a" "of_char b" "of_char c'"] by (auto simp: Let_def)
qed simp

lemma newline_space: "is_space (CHR 0x0A)" "is_space (CHR 0x0D)" "is_space (CHR '' '')"
  by (simp_all add: is_space_def)

lemma base64_roundtrip: "base64_DecodeString (b64_encode bs) = Inr bs"
proof -
  have "filter (\<lambda>c. c \<noteq> CHR 0x0A \<and> c \<noteq> CHR 0x0D) (b64_encode bs) = b64_encode bs"
    using b64_encode_chars[of _ bs] newline_space by (auto simp: filter_id_conv)
  then show ?thesis by (simp add: base64_DecodeString_def b64_roundtrip)
qed

subsection \<open>Lines and fields\<close>

lemma Split_nonempty: "Split c s \<noteq> []"
  by (cases s) (auto split: list.splits)

lemma Split_last: "c \<notin> set l \<Longrightarrow> Split c l = [l]"
  by (induction l) auto

lemma Split_line: "c \<notin> set l \<Longrightarrow> Split c (l @ c # rest) = l # Split c rest"
  by (induction l) (auto split: list.splits)

lemma TrimSpace_line:
  assumes "\<And>c. c \<in> set ind \<Longrightarrow> is_space c" "k \<noteq> []" "\<not> is_space (hd k)" "v \<noteq> []" "\<And>c. c \<in> set v \<Longrightarrow> \<not> is_space c"
  shows "TrimSpace (ind @ k @ v) = k @ v"
proof -
  have "dropWhile is_space (ind @ k @ v) = k @ v" using assms(1-3) by (cases k) (auto simp: dropWhile_append2)
  moreover have "dropWhile is_space (rev v @ rev k) = rev v @ rev k" using assms(4,5) by (cases v rule: rev_cases) auto
  ultimately show ?thesis by (simp add: TrimSpace_def)
qed

lemma TrimSpace_value: "(\<And>c. c \<in> set v \<Longrightarrow> \<not> is_space c) \<Longrightarrow> TrimSpace v = v"
  by (rule TrimSpace_id)

lemma scan_keys_at:
  "distinct keys \<Longrightarrow> scan_keys line keys kv k =
     (if k \<in> set keys \<and> kv k = None then map_option TrimSpace (CutPrefix line (k @ '': '')) else kv k)"
  by (induction keys arbitrary: kv) (auto split: option.splits)

lemma scan_lines_at: "k \<in> set kubeconfig_keys \<Longrightarrow> scan_lines ls kv k = (case kv k of Some v \<Rightarrow> Some v | None \<Rightarrow> first_value k ls)"
proof (induction ls arbitrary: kv)
  case (Cons l ls)
  have "distinct kubeconfig_keys" by (simp add: kubeconfig_keys_def)
  with Cons show ?case by (auto simp: scan_keys_at split: option.splits)
qed (simp split: option.splits)

lemma Split_join: "ls \<noteq> [] \<Longrightarrow> (\<And>l. l \<in> set ls \<Longrightarrow> CHR 0x0A \<notin> set l) \<Longrightarrow> Split CHR 0x0A (join_lines ls) = ls"
  by (induction ls rule: join_lines.induct) (auto simp: Split_last Split_line)

lemma CutPrefix_key:
  "k \<in> set kubeconfig_keys \<Longrightarrow> key \<in> set kubeconfig_keys \<Longrightarrow> CutPrefix (k @ '': '' @ v) (key @ '': '') = (if key = k then Some v else None)"
  unfolding kubeconfig_keys_def by (simp add: CutPrefix_def HasPrefix_def) (elim disjE; simp)

lemma first_value_key:
  assumes "k \<in> set kubeconfig_keys" "key \<in> set kubeconfig_keys" "v \<noteq> []" "\<And>c. c \<in> set v \<Longrightarrow> \<not> is_space c"
  shows "first_value key (key_line k v # ls) = (if key = k then Some v else first_value key ls)"
proof -
  have "k \<noteq> []" "\<not> is_space (hd k)" using assms(1) by (auto simp: kubeconfig_keys_def is_space_def)
  then have t: "TrimSpace (''    '' @ (k @ '': '') @ v) = (k @ '': '') @ v"
    using assms(3,4) by (intro TrimSpace_line) (auto simp: is_space_def)
  show ?thesis using t TrimSpace_value[of v] CutPrefix_key[OF assms(1,2), of v] assms(4) by (simp add: key_line_def)
qed

lemma first_value_skip: "CutPrefix (TrimSpace l) (key @ '': '') = None \<Longrightarrow> first_value key (l # ls) = first_value key ls"
  by simp

lemma plain_lines:
  assumes "key \<in> set kubeconfig_keys" "l \<in> {''apiVersion: v1'', ''clusters:'', ''- cluster:'', ''  name: kind-kind'', ''contexts:'', ''- context:'', ''    cluster: kind-kind'',
      ''    user: kind-kind'', ''current-context: kind-kind'', ''kind: Config'', ''users:'', ''- name: kind-kind'', ''  user:'', []}"
  shows "first_value key (l # ls) = first_value key ls"
proof (rule first_value_skip)
  show "CutPrefix (TrimSpace l) (key @ '': '') = None"
    using assms unfolding kubeconfig_keys_def
    by (simp add: CutPrefix_def HasPrefix_def TrimSpace_def is_space_def) (elim disjE; simp add: is_space_def)
qed

lemma plain_encode: "bs \<noteq> [] \<Longrightarrow> plain (b64_encode bs)"
  using b64_encode_chars[of _ bs] by (auto simp: plain_def list_all_iff Let_def elim: b64_encode.elims)

lemma kubeconfig_values:
  assumes "plain server" "ca \<noteq> []" "cert \<noteq> []" "key \<noteq> []"
  shows "first_value ''server'' (kubeconfig_lines server ca cert key) = Some server"
    "first_value ''certificate-authority-data'' (kubeconfig_lines server ca cert key) = Some (b64_encode ca)"
    "first_value ''client-certificate-data'' (kubeconfig_lines server ca cert key) = Some (b64_encode cert)"
    "first_value ''client-key-data'' (kubeconfig_lines server ca cert key) = Some (b64_encode key)"
proof -
  have v: "v \<noteq> [] \<and> (\<forall>c. c \<in> set v \<longrightarrow> \<not> is_space c)" if "plain v" for v using that by (auto simp: plain_def list_all_iff)
  have kl: "first_value k (key_line k' x # ls) = (if k = k' then Some x else first_value k ls)"
    if "plain x" "k \<in> set kubeconfig_keys" "k' \<in> set kubeconfig_keys" for k k' x ls
    using first_value_key[OF that(3,2)] v[OF that(1)] by blast
  note enc = plain_encode[OF assms(2)] plain_encode[OF assms(3)] plain_encode[OF assms(4)]
  note lines = kl[OF assms(1), where k' = "''server''"] kl[OF enc(1), where k' = "''certificate-authority-data''"]
    kl[OF enc(2), where k' = "''client-certificate-data''"] kl[OF enc(3), where k' = "''client-key-data''"]
  have keys: "''server'' \<in> set kubeconfig_keys" "''certificate-authority-data'' \<in> set kubeconfig_keys"
    "''client-certificate-data'' \<in> set kubeconfig_keys" "''client-key-data'' \<in> set kubeconfig_keys" by (simp_all add: kubeconfig_keys_def)
  show "first_value ''server'' (kubeconfig_lines server ca cert key) = Some server"
    "first_value ''certificate-authority-data'' (kubeconfig_lines server ca cert key) = Some (b64_encode ca)"
    "first_value ''client-certificate-data'' (kubeconfig_lines server ca cert key) = Some (b64_encode cert)"
    "first_value ''client-key-data'' (kubeconfig_lines server ca cert key) = Some (b64_encode key)"
    unfolding kubeconfig_lines_def by (simp_all add: lines keys plain_lines del: first_value.simps)
qed

text \<open>C35. Round trip of the kubeconfig: from a file in the form that \<open>kind\<close> writes, for an https server
  and any three blobs that the certificate parser accepts, \<open>NewKubeClient\<close> makes a client of that
  server with exactly these blobs as its TLS configuration.\<close>

theorem kubeconfig_roundtrip:
  assumes "all_ok w" "p \<noteq> []" "files w p = Some (File (join_lines (kubeconfig_lines server ca cert key)))"
    and "plain server" "\<not> HasPrefix server ''http://''" "ca \<noteq> []" "cert \<noteq> []" "key \<noteq> []"
    and "x509_pair X cert key = None" "x509_pool X ca"
  shows "fst (NewKubeClient X flag p namespace name w) =
    Done (Inr (\<lparr>kc_base = server, kc_namespace = namespace, kc_name = name\<rparr>, Some \<lparr>tls_RootCAs = ca, tls_cert = cert, tls_key = key\<rparr>))"
proof -
  let ?ls = "kubeconfig_lines server ca cert key"
  have "CHR 0x0A \<notin> set l" if "l \<in> set ?ls" for l
    using that assms(4) b64_encode_chars[of "CHR 0x0A"] newline_space(1) by (auto simp: kubeconfig_lines_def key_line_def plain_def list_all_iff)
  then have split: "Split CHR 0x0A (join_lines ?ls) = ?ls" by (intro Split_join) (auto simp: kubeconfig_lines_def)
  have sv: "server \<noteq> []" using assms(4) by (simp add: plain_def)
  have f: "field (scan_lines ?ls Map.empty) k = v" if "k \<in> set kubeconfig_keys" "first_value k ?ls = Some v" for k v
    using that by (simp add: field_def scan_lines_at)
  note fs = f[OF _ kubeconfig_values(1)[OF assms(4,6,7,8)]] f[OF _ kubeconfig_values(2)[OF assms(4,6,7,8)]]
    f[OF _ kubeconfig_values(3)[OF assms(4,6,7,8)]] f[OF _ kubeconfig_values(4)[OF assms(4,6,7,8)]]
  have keys: "''server'' \<in> set kubeconfig_keys" "''certificate-authority-data'' \<in> set kubeconfig_keys"
    "''client-certificate-data'' \<in> set kubeconfig_keys" "''client-key-data'' \<in> set kubeconfig_keys" by (simp_all add: kubeconfig_keys_def)
  note fs' = fs(1)[OF keys(1)] fs(2)[OF keys(2)] fs(3)[OF keys(3)] fs(4)[OF keys(4)]
  have tls: "decode_tls X (scan_lines ?ls Map.empty) = Inr \<lparr>tls_RootCAs = ca, tls_cert = cert, tls_key = key\<rparr>"
    using assms(9,10) by (simp add: decode_tls_def fs' base64_roundtrip)
  have rd: "os_ReadFile p w = (Done (Inr (join_lines ?ls)), advance w)"
    using assms(1,3) by (simp add: os_ReadFile_def atomic_call_def all_ok_def fate_def)
  show ?thesis
    using assms(2,5) sv by (simp add: NewKubeClient_def loadKubeconfig_def bindE_def bindp_def rd split fs' tls Let_def retp_def)
qed

theorem kubeconfig_roundtrip_witness:
  "fst (NewKubeClient lenient_x509 [] [''etc'', ''kubeconfig''] ''default'' ''dev-0'' kubeconfig_world) =
    Done (Inr (\<lparr>kc_base = ''https://api'', kc_namespace = ''default'', kc_name = ''dev-0''\<rparr>,
      Some \<lparr>tls_RootCAs = ''ca'', tls_cert = ''cert'', tls_key = ''key''\<rparr>))"
  by (rule kubeconfig_roundtrip)
    (simp_all add: kubeconfig_world_def lenient_x509_def all_ok_def plain_def is_space_def HasPrefix_def)

lemma ReadFile_Inr: "os_ReadFile p w = (Done (Inr raw), w') \<Longrightarrow> files w p = Some (File raw) \<and> files w' = files w"
  by (auto simp: os_ReadFile_def atomic_call_def advance_def split: fault.splits option.splits node.splits)

lemma loadKubeconfig_Inr:
  assumes "loadKubeconfig X p w = (Done (Inr (server, tls)), w')"
  shows "\<exists>raw kv. files w p = Some (File raw) \<and> kv = scan_lines (Split CHR 0x0A raw) Map.empty \<and> files w' = files w \<and>
    server = field kv ''server'' \<and> server \<noteq> [] \<and> (if HasPrefix server ''http://'' then tls = None else \<exists>t. tls = Some t \<and> decode_tls X kv = Inr t)"
proof -
  obtain raw w1 where r: "os_ReadFile p w = (Done (Inr raw), w1)"
    using assms by (auto simp: loadKubeconfig_def bindE_def bindp_def retp_def split: prod.splits outcome.splits sum.splits)
  with assms ReadFile_Inr[OF r] show ?thesis
    by (auto simp: loadKubeconfig_def bindE_def bindp_def retp_def Let_def split: if_splits sum.splits)
qed

text \<open>First cluster wins, and nothing is dropped: whatever file loads, the server is the value of its
  first \<open>server:\<close> line; unless that is a plain http URL, the TLS configuration is there and holds
  the decoded values of the first line of each of the three credential keys. Nothing is written.\<close>

theorem loadKubeconfig_first_wins:
  assumes "loadKubeconfig X p w = (Done (Inr (server, tls)), w')"
  shows "\<exists>raw. files w p = Some (File raw) \<and> files w' = files w \<and> (let val = (\<lambda>k. first_value k (Split CHR 0x0A raw)) in
    val ''server'' = Some server \<and> server \<noteq> [] \<and> (tls = None \<longleftrightarrow> HasPrefix server ''http://'') \<and>
    (\<forall>t. tls = Some t \<longrightarrow>
      base64_DecodeString (case val ''certificate-authority-data'' of None \<Rightarrow> [] | Some v \<Rightarrow> v) = Inr (tls_RootCAs t) \<and>
      base64_DecodeString (case val ''client-certificate-data'' of None \<Rightarrow> [] | Some v \<Rightarrow> v) = Inr (tls_cert t) \<and>
      base64_DecodeString (case val ''client-key-data'' of None \<Rightarrow> [] | Some v \<Rightarrow> v) = Inr (tls_key t) \<and>
      x509_pair X (tls_cert t) (tls_key t) = None \<and> x509_pool X (tls_RootCAs t)))"
proof -
  have keys: "''server'' \<in> set kubeconfig_keys" "''certificate-authority-data'' \<in> set kubeconfig_keys"
    "''client-certificate-data'' \<in> set kubeconfig_keys" "''client-key-data'' \<in> set kubeconfig_keys" by (simp_all add: kubeconfig_keys_def)
  note at = keys[THEN scan_lines_at[where kv = Map.empty]]
  from loadKubeconfig_Inr[OF assms] obtain raw where raw: "files w p = Some (File raw)" "files w' = files w"
    and sv: "server = field (scan_lines (Split CHR 0x0A raw) Map.empty) ''server''" "server \<noteq> []"
    and t: "if HasPrefix server ''http://'' then tls = None else \<exists>t. tls = Some t \<and> decode_tls X (scan_lines (Split CHR 0x0A raw) Map.empty) = Inr t" by blast
  have "first_value ''server'' (Split CHR 0x0A raw) = Some server"
    using sv by (auto simp: field_def at split: option.splits)
  moreover have "decode_tls X (scan_lines (Split CHR 0x0A raw) Map.empty) = Inr t" if "tls = Some t" for t
    using t that by (auto split: if_splits)
  moreover have "tls = None \<longleftrightarrow> HasPrefix server ''http://''" using t by (auto split: if_splits)
  ultimately show ?thesis using raw sv(2)
    by (intro exI[of _ raw]) (auto simp: Let_def decode_tls_def field_def at split: sum.splits option.splits if_splits)
qed

theorem loadKubeconfig_first_wins_witness:
  "\<exists>w' tls. loadKubeconfig lenient_x509 [''etc'', ''kc''] \<lparr>files = [[''etc'', ''kc''] \<mapsto> File ''server: http://p''], tick = 0, fate_of = (\<lambda>_ _. Ok)\<rparr>
     = (Done (Inr (''http://p'', tls)), w') \<and> tls = None"
proof -
  let ?w = "\<lparr>files = [[''etc'', ''kc''] \<mapsto> File ''server: http://p''], tick = 0, fate_of = (\<lambda>_ _. Ok)\<rparr>"
  have run: "loadKubeconfig lenient_x509 [''etc'', ''kc''] ?w = (Done (Inr (''http://p'', None)), advance ?w)"
    by (simp add: loadKubeconfig_def bindE_def bindp_def retp_def os_ReadFile_def atomic_call_def fate_def advance_def
        kubeconfig_keys_def TrimSpace_def is_space_def CutPrefix_def HasPrefix_def field_def Let_def)
  from loadKubeconfig_first_wins[OF run] run show ?thesis by blast
qed

lemma NewKubeClient_named:
  assumes "NewKubeClient X flag p namespace name w = (Done (Inr (c, tls)), w')"
  shows "kc_base c \<noteq> [] \<and> kc_namespace c = namespace \<and> kc_name c = name \<and> files w' = files w \<and>
    (p = [] \<longrightarrow> kc_base c = flag \<and> tls = None) \<and> (p \<noteq> [] \<and> tls = None \<longrightarrow> HasPrefix (kc_base c) ''http://'')"
proof (cases "p = []")
  case True
  with assms show ?thesis by (auto simp: NewKubeClient_def retp_def Let_def split: if_splits)
next
  case False
  with assms obtain server where l: "loadKubeconfig X p w = (Done (Inr (server, tls)), w')" "c = \<lparr>kc_base = server, kc_namespace = namespace, kc_name = name\<rparr>"
    by (auto simp: NewKubeClient_def bindE_def bindp_def retp_def Let_def split: prod.splits outcome.splits sum.splits if_splits)
  from loadKubeconfig_Inr[OF l(1)] l(2) False show ?thesis by (auto split: if_splits)
qed

text \<open>A client always has a server: \<open>NewKubeClient\<close> refuses to make a client without a base URL; the
  flag is used exactly when no kubeconfig is given, and the client talks without TLS only to a
  server from the flag or a plain http URL.\<close>

theorem NewKubeClient_has_server:
  assumes "NewKubeClient X flag p namespace name w = (Done (Inr (c, tls)), w')"
  shows "kc_base c \<noteq> [] \<and> kc_namespace c = namespace \<and> kc_name c = name \<and> files w' = files w \<and>
    (p = [] \<longrightarrow> kc_base c = flag \<and> tls = None) \<and> (p \<noteq> [] \<and> tls = None \<longrightarrow> HasPrefix (kc_base c) ''http://'')"
  using assms by (rule NewKubeClient_named)

theorem NewKubeClient_has_server_witness:
  "kc_base (fst (projr (case fst (NewKubeClient lenient_x509 ''http://p'' [] ''default'' ''dev-0'' kubeconfig_world) of Done r \<Rightarrow> r))) = ''http://p''"
proof -
  have run: "NewKubeClient lenient_x509 ''http://p'' [] ''default'' ''dev-0'' kubeconfig_world =
      (Done (Inr (\<lparr>kc_base = ''http://p'', kc_namespace = ''default'', kc_name = ''dev-0''\<rparr>, None)), kubeconfig_world)"
    by (simp add: NewKubeClient_def retp_def)
  from NewKubeClient_has_server[OF run] show ?thesis by (simp add: run)
qed

end
