(* ===== verification/Go_Flag.thy ===== *)
theory Go_Flag
  imports Fleet_Prelude
begin

text \<open>
  Package \<open>flag\<close> of the standard library, as the three \<open>main\<close> functions use it: a list of flags
  over a record of variables, and \<open>flag.Parse\<close> on a command line with \<open>ExitOnError\<close>. A flag is its
  name, whether it is a boolean flag (which needs no argument), and its setter, which fails on a
  value it cannot parse. The lemmas say which variables a command line leaves at their defaults.
\<close>

record 'f flag_def =
  fd_name :: string
  fd_isBool :: bool
  fd_set :: "string \<Rightarrow> 'f \<Rightarrow> 'f option"

text \<open>The values: strings are taken as they are, booleans by \<open>strconv.ParseBool\<close>; the parser of durations is an argument.\<close>

definition ParseBool :: "string \<Rightarrow> bool option" where
  "ParseBool s = (if s \<in> {''1'', ''t'', ''T'', ''TRUE'', ''true'', ''True''} then Some True
     else if s \<in> {''0'', ''f'', ''F'', ''FALSE'', ''false'', ''False''} then Some False else None)"

definition StringVar :: "string \<Rightarrow> (string \<Rightarrow> 'f \<Rightarrow> 'f) \<Rightarrow> 'f flag_def" where
  "StringVar name upd = \<lparr>fd_name = name, fd_isBool = False, fd_set = (\<lambda>s v. Some (upd s v))\<rparr>"

definition BoolVar :: "string \<Rightarrow> (bool \<Rightarrow> 'f \<Rightarrow> 'f) \<Rightarrow> 'f flag_def" where
  "BoolVar name upd = \<lparr>fd_name = name, fd_isBool = True, fd_set = (\<lambda>s v. map_option (\<lambda>b. upd b v) (ParseBool s))\<rparr>"

definition DurationVar :: "(string \<Rightarrow> int option) \<Rightarrow> string \<Rightarrow> (int \<Rightarrow> 'f \<Rightarrow> 'f) \<Rightarrow> 'f flag_def" where
  "DurationVar ParseDuration name upd =
     \<lparr>fd_name = name, fd_isBool = False, fd_set = (\<lambda>s v. map_option (\<lambda>d. upd d v) (ParseDuration s))\<rparr>"

datatype flag_error = ErrHelp | BadSyntax string | NotDefined string | NeedsArgument string | InvalidValue string string

text \<open>A round of the parser stops, fails, or has consumed a flag and goes on with the remaining arguments.\<close>

datatype 'f round = Stop 'f | Fail flag_error | Seen "string list" 'f

text \<open>The name and the value of a flag argument without its minus signs; an equals sign cannot be first.\<close>

definition cut_equals :: "string \<Rightarrow> string \<times> string option" where
  "cut_equals s =
     (let n = takeWhile (\<lambda>c. c \<noteq> CHR ''='') (tl s); rest = dropWhile (\<lambda>c. c \<noteq> CHR ''='') (tl s)
      in (hd s # n, if rest = [] then None else Some (tl rest)))"

definition lookup_flag :: "'f flag_def list \<Rightarrow> string \<Rightarrow> 'f flag_def option" where
  "lookup_flag fs name = find (\<lambda>f. fd_name f = name) fs"

definition set_flag :: "'f flag_def \<Rightarrow> string \<Rightarrow> string list \<Rightarrow> 'f \<Rightarrow> 'f round" where
  "set_flag f val args v = (case fd_set f val v of None \<Rightarrow> Fail (InvalidValue (fd_name f) val) | Some v' \<Rightarrow> Seen args v')"

definition parse_flag :: "'f flag_def list \<Rightarrow> string \<Rightarrow> string list \<Rightarrow> 'f \<Rightarrow> 'f round" where
  "parse_flag fs s args v =
     (let (name, val) = cut_equals s in
      case lookup_flag fs name of
        None \<Rightarrow> Fail (if name = ''help'' \<or> name = ''h'' then ErrHelp else NotDefined name)
      | Some f \<Rightarrow>
          if fd_isBool f then set_flag f (case val of None \<Rightarrow> ''true'' | Some x \<Rightarrow> x) args v
          else (case val of
                  Some x \<Rightarrow> set_flag f x args v
                | None \<Rightarrow> (case args of [] \<Rightarrow> Fail (NeedsArgument name) | x # args' \<Rightarrow> set_flag f x args' v)))"

text \<open>The argument without its one or two leading minus signs.\<close>

definition flag_body :: "string \<Rightarrow> string" where
  "flag_body s = (if s \<noteq> [] \<and> tl s \<noteq> [] \<and> hd (tl s) = CHR ''-'' then tl (tl s) else tl s)"

definition parseOne :: "'f flag_def list \<Rightarrow> string list \<Rightarrow> 'f \<Rightarrow> 'f round" where
  "parseOne fs args v =
     (case args of
        [] \<Rightarrow> Stop v
      | s # args' \<Rightarrow>
          if length s < 2 \<or> hd s \<noteq> CHR ''-'' then Stop v
          else if s = ''--'' then Stop v
          else (let name = flag_body s in
            if name = [] \<or> hd name = CHR ''-'' \<or> hd name = CHR ''='' then Fail (BadSyntax s)
            else parse_flag fs name args' v))"

text \<open>\<open>flag.Parse\<close>: the exit code on an error (0 when help was asked for), or the variables.\<close>

function Parse :: "'f flag_def list \<Rightarrow> string list \<Rightarrow> 'f \<Rightarrow> int + 'f" where
  "Parse fs args v = (case parseOne fs args v of
     Stop v' \<Rightarrow> Inr v' | Fail e \<Rightarrow> Inl (if e = ErrHelp then 0 else 2) | Seen args' v' \<Rightarrow> Parse fs args' v')"
  by pat_completeness auto
termination by (relation "measure (\<lambda>(fs, args, v). length args)") (auto simp: parseOne_def parse_flag_def set_flag_def Let_def split: list.splits if_splits prod.splits option.splits)

declare Parse.simps [simp del]

text \<open>The flag that an argument names, when it is read as a flag.\<close>

definition names_flag :: "string \<Rightarrow> string" where
  "names_flag arg = (if flag_body arg = [] then [] else fst (cut_equals (flag_body arg)))"

section \<open>Lemmas\<close>

lemma set_flag_Seen: "set_flag f val args v = Seen args' v' \<Longrightarrow> args' = args \<and> fd_set f val v = Some v'"
  by (auto simp: set_flag_def split: option.splits)

lemma lookup_flag_Some: "lookup_flag fs name = Some f \<Longrightarrow> f \<in> set fs \<and> fd_name f = name"
  by (auto simp: lookup_flag_def find_Some_iff)

lemma parseOne_Seen:
  assumes "parseOne fs args v = Seen args' v'"
  obtains s rest f val where "args = s # rest" "f \<in> set fs" "fd_name f = names_flag s" "fd_set f val v = Some v'"
    "args' = rest \<or> rest \<noteq> [] \<and> args' = tl rest"
  using assms
  by (auto simp: parseOne_def parse_flag_def names_flag_def Let_def dest!: set_flag_Seen lookup_flag_Some
      split: list.splits if_splits prod.splits option.splits)

text \<open>
  What no argument names keeps its val: a view of the variables that only the flags of \<open>N\<close>
  change is the default one after any command line without such an argument.
\<close>

lemma Parse_frame:
  assumes "\<And>f val v v'. f \<in> set fs \<Longrightarrow> fd_name f \<notin> N \<Longrightarrow> fd_set f val v = Some v' \<Longrightarrow> view v' = view v"
    and "Parse fs args v = Inr v'" "\<forall>arg \<in> set args. names_flag arg \<notin> N"
  shows "view v' = view v"
  using assms
proof (induction fs args v rule: Parse.induct)
  case (1 fs args v)
  show ?case
  proof (cases "parseOne fs args v")
    case (Seen args1 v1)
    from Seen obtain s rest f val where a: "args = s # rest" "f \<in> set fs" "fd_name f = names_flag s" "fd_set f val v = Some v1"
      "args1 = rest \<or> rest \<noteq> [] \<and> args1 = tl rest" by (rule parseOne_Seen)
    have "set args1 \<subseteq> set args" using a(1,5) by (auto dest: list.set_sel(2))
    then have n: "\<forall>arg \<in> set args1. names_flag arg \<notin> N" using 1(4) by blast
    have p: "Parse fs args1 v1 = Inr v'" using 1(3) Seen by (simp add: Parse.simps[of fs args])
    have "view v' = view v1" by (rule 1(1)[OF Seen _ p n]) (rule 1(2))
    moreover have "view v1 = view v" using 1(2)[OF a(2) _ a(4)] 1(4) a(1,3) by auto
    ultimately show ?thesis by simp
  qed (use 1(3) in \<open>auto simp: Parse.simps parseOne_def parse_flag_def set_flag_def Let_def split: list.splits if_splits prod.splits option.splits\<close>)
qed

end
