(* ===== verification/Agent_Main.thy ===== *)
theory Agent_Main
  imports Agent_Run Kubeconfig Go_Flag
begin

text \<open>
  The agent process (\<open>cmd/agent/main.go\<close>): flags, defaults, exit codes, the construction of the
  client and the agent, and the call of \<open>Run\<close>. The theorem composes the start of the process with
  the life of the agent. \<open>path_of\<close> reads a flag as a path of the store.
\<close>

record Flags =
  fl_name :: string
  fl_namespace :: string
  fl_kubeconfig :: path
  fl_server :: string
  fl_dataDir :: path
  fl_poll :: int
  fl_heartbeat :: int

definition default_flags :: Flags where
  "default_flags = \<lparr>fl_name = [], fl_namespace = ''default'', fl_kubeconfig = [], fl_server = [], fl_dataDir = [],
     fl_poll = 3 * 1000000000, fl_heartbeat = 5 * 1000000000\<rparr>"

definition agent_flags :: "(string \<Rightarrow> path) \<Rightarrow> (string \<Rightarrow> int option) \<Rightarrow> Flags flag_def list" where
  "agent_flags path_of ParseDuration =
     [StringVar ''name'' (\<lambda>x v. v\<lparr>fl_name := x\<rparr>),
      StringVar ''namespace'' (\<lambda>x v. v\<lparr>fl_namespace := x\<rparr>),
      StringVar ''kubeconfig'' (\<lambda>x v. v\<lparr>fl_kubeconfig := path_of x\<rparr>),
      StringVar ''server'' (\<lambda>x v. v\<lparr>fl_server := x\<rparr>),
      StringVar ''data-dir'' (\<lambda>x v. v\<lparr>fl_dataDir := path_of x\<rparr>),
      DurationVar ParseDuration ''poll-interval'' (\<lambda>x v. v\<lparr>fl_poll := x\<rparr>),
      DurationVar ParseDuration ''heartbeat-interval'' (\<lambda>x v. v\<lparr>fl_heartbeat := x\<rparr>)]"

text \<open>
  The process up to \<open>Run\<close>: an exit code, or what \<open>Run\<close> is called on. \<open>home\<close> is the answer of
  \<open>os.UserHomeDir\<close>. The device name is taken to have no path separator (it names a resource).
\<close>

definition main :: "x509 \<Rightarrow> (go_error + path) \<Rightarrow> Flags \<Rightarrow> 's \<Rightarrow> (int + Config \<times> KubeClient \<times> tls_config option \<times> SlotManager \<times> 's Agent) prog" where
  "main X home fl api =
     (let start = (\<lambda>dataDir.
            bindp (NewKubeClient X (fl_server fl) (fl_kubeconfig fl) (fl_namespace fl) (fl_name fl)) (\<lambda>r. case r of
              Inl _ \<Rightarrow> retp (Inl 1)
            | Inr (kube, tls) \<Rightarrow>
                let cfg = \<lparr>cf_Name = fl_name fl, cf_Namespace = fl_namespace fl, cf_DataDir = dataDir, cf_PollInterval = fl_poll fl,
                      cf_HeartbeatInterval = fl_heartbeat fl, cf_Download = \<lparr>do_MaxAttempts = 0, do_BaseBackoff = 0, do_MaxBackoff = 0, do_AttemptTimeout = 0\<rparr>\<rparr>
                in bindp (New cfg api) (\<lambda>r. case r of
                     Inl _ \<Rightarrow> retp (Inl 1)
                   | Inr (slots, a) \<Rightarrow> retp (Inr (cfg, kube, tls, slots, a)))))
      in if fl_name fl = [] then retp (Inl 2)
         else if fl_dataDir fl = [] then
           (case home of Inl _ \<Rightarrow> retp (Inl 1) | Inr h \<Rightarrow> start (h @ [''.edge-fleet'', fl_name fl]))
         else start (fl_dataDir fl))"

text \<open>The process from its command line up to \<open>Run\<close>.\<close>

definition agent_process :: "(string \<Rightarrow> path) \<Rightarrow> (string \<Rightarrow> int option) \<Rightarrow> x509 \<Rightarrow> (go_error + path) \<Rightarrow> string list \<Rightarrow> 's
    \<Rightarrow> (int + Config \<times> KubeClient \<times> tls_config option \<times> SlotManager \<times> 's Agent) prog" where
  "agent_process path_of ParseDuration X home args api =
     (case Parse (agent_flags path_of ParseDuration) args default_flags of
        Inl code \<Rightarrow> retp (Inl code)
      | Inr fl \<Rightarrow> main X home fl api)"

text \<open>A data directory that a device can start on: fresh (and no read fails out of the blue, no
  write lands other bytes, while it is initialised), or one of a boot-safe device.\<close>

definition startable :: "digest \<Rightarrow> path \<Rightarrow> world \<Rightarrow> bool" where
  "startable h dir w \<longleftrightarrow> unborn \<lparr>sm_dir = dir\<rparr> w \<and> reads_ok w \<and> no_rot w \<or> boot_safe h \<lparr>sm_dir = dir\<rparr> w"

definition start_flags :: Flags where
  "start_flags = default_flags\<lparr>fl_name := ''dev-0'', fl_server := ''http://p'', fl_dataDir := [''data'']\<rparr>"

definition start_args :: "string list" where
  "start_args = [''--name'', ''dev-0'', ''-server=http://p'', ''--data-dir=data'']"

definition fresh_world :: world where
  "fresh_world = \<lparr>files = Map.empty, tick = 0, fate_of = (\<lambda>_ _. Ok)\<rparr>"

section \<open>Lemmas\<close>

lemma NewSlotManager_Inr: "NewSlotManager dir w = (Done (Inr s), w') \<Longrightarrow> s = \<lparr>sm_dir = dir\<rparr>"
  by (auto simp: NewSlotManager_defs bindE_def bindp_def retp_def Let_def split: prod.splits outcome.splits sum.splits if_splits)

lemma loadKubeconfig_reads: "keeps (frame S f e) (loadKubeconfig X p)"
  unfolding loadKubeconfig_def Let_def by (intro keeps_bindE keeps_frame_reads) (simp split: sum.split add: keeps_retp)

lemma NewKubeClient_reads: "keeps (frame S f e) (NewKubeClient X flag p namespace name)"
proof (cases "p = []")
  case False
  have "keeps (frame S f e) (bindE (loadKubeconfig X p) (\<lambda>(server, tls). if server = [] then retp (Inl (Message ''either --server or --kubeconfig is required''))
      else retp (Inr (\<lparr>kc_base = server, kc_namespace = namespace, kc_name = name\<rparr>, tls))))"
    by (rule keeps_bindE[OF loadKubeconfig_reads]) (auto simp: keeps_retp)
  with False show ?thesis by (simp add: NewKubeClient_def)
qed (simp add: NewKubeClient_def keeps_retp)

lemma startable_cong: "files w' = files w \<Longrightarrow> fate_of w' = fate_of w \<Longrightarrow> startable h dir w' = startable h dir w"
  unfolding startable_def reads_ok_def no_rot_def using unborn_cong[of w' w] boot_safe_cong[of w' w] by simp

lemma New_boot_safe:
  assumes "New cfg api w = (Done (Inr (s, a)), w')" "startable h (cf_DataDir cfg) w"
  shows "s = \<lparr>sm_dir = cf_DataDir cfg\<rparr> \<and> a = initial_agent w' api \<and> boot_safe h s w'"
proof -
  from assms(1) have r: "NewSlotManager (cf_DataDir cfg) w = (Done (Inr s), w')" "a = initial_agent w' api"
    by (auto simp: New_def bindE_def bindp_def retp_def split: prod.splits outcome.splits sum.splits)
  have s: "s = \<lparr>sm_dir = cf_DataDir cfg\<rparr>" by (rule NewSlotManager_Inr[OF r(1)])
  have "boot_safe h s w'"
  proof (cases "boot_safe h s w")
    case True
    from NewSlotManager_boot_safe[OF this s] r(1) show ?thesis by simp
  next
    case False
    then have "unborn s w" "reads_ok w" "no_rot w" using assms(2) s by (auto simp: startable_def)
    from wpD(1)[OF NewSlotManager_unborn[OF this s] r(1)] show ?thesis by simp
  qed
  with s r(2) show ?thesis by simp
qed

lemma main_Inr:
  assumes "main X home fl api w = (Done (Inr (cfg, kube, tls, s, a)), w')" "startable h (cf_DataDir cfg) w"
  shows "cf_Name cfg = fl_name fl \<and> fl_name fl \<noteq> [] \<and> kc_name kube = fl_name fl \<and> kc_base kube \<noteq> [] \<and>
    (if fl_dataDir fl = [] then \<exists>d. home = Inr d \<and> cf_DataDir cfg = d @ [''.edge-fleet'', fl_name fl] else cf_DataDir cfg = fl_dataDir fl) \<and>
    cf_PollInterval cfg = fl_poll fl \<and> cf_HeartbeatInterval cfg = fl_heartbeat fl \<and>
    s = \<lparr>sm_dir = cf_DataDir cfg\<rparr> \<and> a = initial_agent w' api \<and> boot_safe h s w'"
proof -
  let ?kube = "NewKubeClient X (fl_server fl) (fl_kubeconfig fl) (fl_namespace fl) (fl_name fl)"
  obtain w1 where k: "?kube w = (Done (Inr (kube, tls)), w1)" and n: "New cfg api w1 = (Done (Inr (s, a)), w')"
    and c: "cf_Name cfg = fl_name fl" "fl_name fl \<noteq> []" "cf_PollInterval cfg = fl_poll fl" "cf_HeartbeatInterval cfg = fl_heartbeat fl"
      "if fl_dataDir fl = [] then \<exists>d. home = Inr d \<and> cf_DataDir cfg = d @ [''.edge-fleet'', fl_name fl] else cf_DataDir cfg = fl_dataDir fl"
    using assms(1) by (auto simp: main_def bindp_def retp_def Let_def split: prod.splits outcome.splits sum.splits if_splits)
  have "files w1 = files w" "fate_of w1 = fate_of w"
    using keepsD[OF NewKubeClient_reads frame_refl[of "\<lambda>_. False" w], of X "fl_server fl" "fl_kubeconfig fl" "fl_namespace fl" "fl_name fl"] k by (auto simp: frame_def)
  then have st: "startable h (cf_DataDir cfg) w1" using assms(2) startable_cong[of w1 w] by simp
  from New_boot_safe[OF n st] c NewKubeClient_named[OF k] show ?thesis by blast
qed

text \<open>No program changes the fates of the calls to come.\<close>

lemma NewSlotManager_fates: "keeps (frame (\<lambda>_. True) f e) (NewSlotManager dir)"
proof -
  have m: "keeps (frame (\<lambda>_. True) f e) (os_MkdirAll p)" for p
    by (auto simp: os_MkdirAll_def frame_def intro!: keeps_atomic_call)
  show ?thesis unfolding NewSlotManager_defs switchTo_def Let_def by (intro keeps_rules m) simp_all
qed

text \<open>C9. A device that starts is safe from then on: when the agent process gets from its command line as
  far as \<open>Run\<close>, on a fresh data directory or on one of a boot-safe device, it has a name, a server,
  the configured data directory (or the one below the home directory) and a boot-safe store; and
  whatever schedule \<open>Run\<close> then follows in fail-stop environments (the calls that keep markers and link
  return no error of the hardware), the store stays boot-safe.\<close>

theorem main_starts_safe:
  assumes "agent_process path_of dur X home args api w = (Done (Inr (cfg, kube, tls, s, a)), w')" "startable h (cf_DataDir cfg) w"
    and "fits s h E" "fail_stop w'" "\<forall>ev \<in> set evs. fair_event s h ev"
  shows "(\<exists>fl. Parse (agent_flags path_of dur) args default_flags = Inr fl \<and> cf_Name cfg = fl_name fl \<and> fl_name fl \<noteq> [] \<and>
      kc_name kube = fl_name fl \<and> kc_base kube \<noteq> [] \<and> cf_PollInterval cfg = fl_poll fl \<and> cf_HeartbeatInterval cfg = fl_heartbeat fl \<and>
      (if fl_dataDir fl = [] then \<exists>d. home = Inr d \<and> cf_DataDir cfg = d @ [''.edge-fleet'', fl_name fl] else cf_DataDir cfg = fl_dataDir fl)) \<and>
    s = \<lparr>sm_dir = cf_DataDir cfg\<rparr> \<and> \<not> ag_up a \<and> boot_safe h s (ag_world (pr_agent (Run E evs a)))"
proof -
  obtain fl where p: "Parse (agent_flags path_of dur) args default_flags = Inr fl" and m: "main X home fl api w = (Done (Inr (cfg, kube, tls, s, a)), w')"
    using assms(1) by (auto simp: agent_process_def retp_def split: sum.splits)
  note M = main_Inr[OF m assms(2)]
  then have a: "a = initial_agent w' api" "boot_safe h s w'" by auto
  have up: "\<not> ag_up a" "fail_stop (ag_world a)" using assms(4) by (simp_all add: a initial_agent_def)
  from Run_refines[OF assms(3) up assms(5)] have "(agent_step s h)\<^sup>*\<^sup>* (initial_agent w' api) (pr_agent (Run E evs a))" by (simp add: a)
  then have "boot_safe h s (ag_world (pr_agent (Run E evs a)))" by (rule agent_inv_boot_safe[OF agent_life[OF _ a(2)]])
  with M p up show ?thesis by blast
qed

theorem main_starts_safe_witness:
  "\<exists>cfg kube tls s a w'. agent_process (\<lambda>x. [x]) (\<lambda>_. None) lenient_x509 (Inl NotExist) start_args () fresh_world = (Done (Inr (cfg, kube, tls, s, a)), w') \<and>
     s = \<lparr>sm_dir = [''data'']\<rparr> \<and> boot_safe id s (ag_world (pr_agent (Run (demo_env\<lparr>e_cfg := cfg, e_slots := s\<rparr>) [BeatStarts, PollDone 0] a)))"
proof -
  let ?s = "\<lparr>sm_dir = [''data'']\<rparr>"
  have ok: "unborn ?s fresh_world" "reads_ok fresh_world" "no_rot fresh_world" "all_ok fresh_world"
    by (simp_all add: unborn_def reads_ok_def no_rot_def all_ok_def fresh_world_def)
  have pa: "Parse (agent_flags (\<lambda>x. [x]) (\<lambda>_. None)) start_args default_flags = Inr start_flags"
    by (simp add: agent_flags_def start_args_def start_flags_def StringVar_def DurationVar_def Parse.simps parseOne_def parse_flag_def flag_body_def
        cut_equals_def lookup_flag_def set_flag_def)
  obtain w' where n: "NewSlotManager [''data''] fresh_world = (Done (Inr ?s), w')"
    using NewSlotManager_returns[OF ok(4,1) refl] by (auto simp: wp_def split: prod.splits outcome.splits)
  have "fate_of w' = fate_of fresh_world"
    using keepsD[OF NewSlotManager_fates[where dir = "[''data'']"] frame_refl[where w = fresh_world]] n by (simp add: frame_def)
  then have fs: "fail_stop w'" by (simp add: fail_stop_def fresh_world_def)
  let ?cfg = "\<lparr>cf_Name = ''dev-0'', cf_Namespace = ''default'', cf_DataDir = [''data''], cf_PollInterval = 3000000000,
    cf_HeartbeatInterval = 5000000000, cf_Download = \<lparr>do_MaxAttempts = 0, do_BaseBackoff = 0, do_MaxBackoff = 0, do_AttemptTimeout = 0\<rparr>\<rparr>"
  have run: "agent_process (\<lambda>x. [x]) (\<lambda>_. None) lenient_x509 (Inl NotExist) start_args () fresh_world =
      (Done (Inr (?cfg, \<lparr>kc_base = ''http://p'', kc_namespace = ''default'', kc_name = ''dev-0''\<rparr>, None, ?s, initial_agent w' ())), w')"
    unfolding agent_process_def pa sum.case
    using n by (simp add: main_def start_flags_def default_flags_def NewKubeClient_def New_def bindE_def bindp_def retp_def)
  have "startable id (cf_DataDir ?cfg) fresh_world" using ok by (simp add: startable_def)
  moreover have "fits ?s id (demo_env\<lparr>e_cfg := ?cfg, e_slots := ?s\<rparr>)" by (simp add: fits_def demo_env_def)
  ultimately have "boot_safe id ?s (ag_world (pr_agent (Run (demo_env\<lparr>e_cfg := ?cfg, e_slots := ?s\<rparr>) [BeatStarts, PollDone 0] (initial_agent w' ()))))"
    using main_starts_safe[OF run] fs by simp
  with run show ?thesis by blast
qed

end
