(* ===== verification/Agent_Upgrade.thy ===== *)
theory Agent_Upgrade
  imports Agent
begin

text \<open>
  The upgrade transaction of \<open>Agent\<close> from its announcement to its last report when nothing disturbs it,
  the rejection of an image with a wrong digest, and what is lost when a failed confirmation is
  followed by the next target. Each phase has a lemma with the exact store it leaves; the
  transaction is their composition.
\<close>

text \<open>What an upgrade that nothing disturbs leaves in the store.\<close>

definition committed :: "SlotManager \<Rightarrow> string \<Rightarrow> string \<Rightarrow> DeviceSpec \<Rightarrow> path \<Rightarrow> (path \<rightharpoonup> node) \<Rightarrow> (path \<rightharpoonup> node)" where
  "committed s x data spec staging f =
     f(slotDir s x @ [firmwareFile] \<mapsto> File data, slotDir s x @ [versionFile] \<mapsto> File (sp_DesiredFirmwareVersion spec),
       slotDir s x @ [checksumFile] \<mapsto> File (sp_ChecksumSHA256 spec), slotDir s x @ [confirmedMarker] \<mapsto> File [],
       slotDir s x @ [pendingMarker] := None, currentTmp s := None, currentPath s \<mapsto> Link (''slot'' @ x), staging := None)"

text \<open>Everything a successful transaction needs.\<close>

definition upgradable :: "SlotManager \<Rightarrow> digest \<Rightarrow> 's Env \<Rightarrow> DeviceSpec \<Rightarrow> string \<Rightarrow> 's Agent \<Rightarrow> bool" where
  "upgradable s h E spec data a \<longleftrightarrow>
     fits s h E \<and> all_ok (ag_world a) \<and> safe_up h s (ag_world a) \<and> fsm_state (ag_fsm a) \<in> {StateIdle, StateFailed} \<and>
     serves (e_net E) (sp_FirmwareURL spec) data \<and> responsive (e_net E) (sp_FirmwareURL spec) data 0 5 \<and>
     (\<forall>j. \<not> e_cancelled E j) \<and> cf_Download (e_cfg E) = default_options \<and>
     partial_of data (staging_path E spec) (ag_world a) \<and>
     hex_EncodeToString (h data) = sp_ChecksumSHA256 spec \<and> 12 \<le> length (sp_ChecksumSHA256 spec)"

text \<open>What the last report of a completed upgrade makes of the device object it reads.\<close>

definition upgraded_report :: "'s Env \<Rightarrow> DeviceSpec \<Rightarrow> string \<Rightarrow> int \<Rightarrow> Device \<Rightarrow> Device" where
  "upgraded_report E spec slot gen dev = dev\<lparr>d_Status :=
     (set_synced E CondTrue ''Synced'' (''upgraded to '' @ sp_DesiredFirmwareVersion spec) gen
       ((d_Status dev)\<lparr>st_CurrentFirmwareVersion := sp_DesiredFirmwareVersion spec, st_ActiveSlot := slot\<rparr>))
     \<lparr>st_ObservedGeneration := gen\<rparr>\<rparr>"

definition reported :: "'s Env \<Rightarrow> (Device \<Rightarrow> Device) \<Rightarrow> 's Agent \<Rightarrow> bool" where
  "reported E f a \<longleftrightarrow> (\<exists>api. ag_api a = snd (UpdateStatus (e_kube E) (e_http E) (\<lambda>_. f) api))"

text \<open>The entries of a slot after staging.\<close>

abbreviation staged_as :: "SlotManager \<Rightarrow> string \<Rightarrow> string \<Rightarrow> DeviceSpec \<Rightarrow> (path \<rightharpoonup> node) \<Rightarrow> (path \<rightharpoonup> node)" where
  "staged_as s x data spec f \<equiv> f(slotDir s (other x) @ [confirmedMarker] := None,
                slotDir s (other x) @ [pendingMarker] := None,
                slotDir s (other x) @ [firmwareFile] \<mapsto> File data,
                slotDir s (other x) @ [versionFile] \<mapsto> File (sp_DesiredFirmwareVersion spec),
                slotDir s (other x) @ [checksumFile] \<mapsto> File (sp_ChecksumSHA256 spec))"

text \<open>The end of an undisturbed upgrade that started in \<open>a\<close>.\<close>

abbreviation upgrade_post :: "SlotManager \<Rightarrow> string \<Rightarrow> string \<Rightarrow> 's Env \<Rightarrow> DeviceSpec \<Rightarrow> 's Agent \<Rightarrow> phase option \<Rightarrow> 's Agent \<Rightarrow> bool" where
  "upgrade_post s x data E spec a \<equiv> \<lambda>r a'. r = None \<and> fsm_state (ag_fsm a') = StateIdle \<and> ag_lastFailedKey a' = ag_lastFailedKey a \<and>
     files (ag_world a') = committed s (other x) data spec (staging_path E spec) (files (ag_world a)) \<and>
     (\<exists>g. reported E (upgraded_report E spec (other x) g) a')"

text \<open>A later moment of it: the machine in a state, the store as given, no failure recorded.\<close>

definition on_track :: "'s Agent \<Rightarrow> State set \<Rightarrow> (path \<rightharpoonup> node) \<Rightarrow> 's Agent \<Rightarrow> bool" where
  "on_track a sts f a1 \<longleftrightarrow> fsm_state (ag_fsm a1) \<in> sts \<and> all_ok (ag_world a1) \<and> ag_lastFailedKey a1 = ag_lastFailedKey a \<and> files (ag_world a1) = f"

section \<open>Lemmas\<close>

lemma DownloadWithResume_all_ok:
  assumes "responsive net u F 0 5" "\<And>j. \<not> cancelled j" "opts = default_options"
    and w: "all_ok w" "parent_ok dest w" "serves net u F" "partial_of F dest w"
  shows "wp (DownloadWithResume net cancelled u dest opts) (\<lambda>r w'. r = Inr () \<and> all_ok w' \<and> files w' = (files w)(dest \<mapsto> File F)) (\<lambda>_. False) w"
proof -
  note 1 = DownloadWithResume_responsive[OF w(3) assms(1,2) w(1,2,4) assms(3)]
  let ?F = "frame (\<lambda>p. p = dest) (files w) (fate_of w)"
  have 3: "wp (DownloadWithResume net cancelled u dest opts) (\<lambda>_. ?F) ?F w"
    using keepsD[OF keeps_frame_DownloadWithResume[of "\<lambda>p. p = dest" dest]] by (simp add: wp_snd)
  from wp_conj[OF 1 3] show ?thesis
    by (rule wp_mono) (use w(1) in \<open>auto simp: frame_def all_ok_def fun_eq_iff\<close>)
qed

lemma wpA_lift_ok:
  "wp m P (\<lambda>_. False) (ag_world a) \<Longrightarrow> (\<And>r w'. P r w' \<Longrightarrow> wpA (f r) Q C (a\<lparr>ag_world := w'\<rparr>)) \<Longrightarrow> wpA (bindA (liftA m) f) Q C a"
  by (erule wpA_lift_contract) auto

lemma wpA_andThen: "wpA (andThen m k) Q C = wpA m (\<lambda>r. case r of None \<Rightarrow> Q None | Some _ \<Rightarrow> wpA k Q C) C"
proof -
  have "(\<lambda>r :: phase option. wpA (case r of None \<Rightarrow> retA None | Some _ \<Rightarrow> k) Q C) = (\<lambda>r. case r of None \<Rightarrow> Q None | Some _ \<Rightarrow> wpA k Q C)"
    by (auto simp: fun_eq_iff wpA_retA split: option.splits)
  then show ?thesis by (simp add: andThen_def wpA_bindA)
qed

lemma confirm_slot_all_ok:
  assumes E: "fits s h E" and w: "all_ok (ag_world a)" "layout s w0" "files (ag_world a) = promoted s x ''1'' (files w0)" "\<not> confirmed s (other x) w0"
    and st: "files w0 (staging_path E spec) \<noteq> Some Dir"
    and Q: "\<And>w'. all_ok w' \<Longrightarrow>
        files w' = (promoted s x [] (files w0))(slotDir s (other x) @ [confirmedMarker] \<mapsto> File [], slotDir s (other x) @ [pendingMarker] := None, staging_path E spec := None)
        \<Longrightarrow> Q (Some PDone) (a\<lparr>ag_world := w'\<rparr>)"
  shows "wpA (confirm_slot E spec) Q (\<lambda>_. False) a"
proof -
  have sl: "e_slots E = s" using E by (simp add: fits_def)
  note pf = promoted_facts[OF _ w(2,4)]
  let ?final = "(promoted s x [] (files w0))(slotDir s (other x) @ [confirmedMarker] \<mapsto> File [], slotDir s (other x) @ [pendingMarker] := None)"
  have clean: "wpA (bindA (liftA (os_Remove (staging_path E spec))) (\<lambda>_. retA (Some PDone))) Q (\<lambda>_. False) (a\<lparr>ag_world := w3\<rparr>)"
    if "all_ok w3" "files w3 = ?final" for w3
  proof -
    have nd: "files w3 (staging_path E spec) \<noteq> Some Dir"
      using st staging_distinct[OF E, where spec = spec] that(2) by (auto simp: promoted_def)
    have "wp (os_Remove (staging_path E spec)) (\<lambda>r w'. all_ok w' \<and> files w' = (files w3)(staging_path E spec := None)) (\<lambda>_. False) w3"
      by (rule wp_Remove_all_ok[OF that(1) nd]) simp
    then show ?thesis
      by (rule wpA_lift_ok[of _ _ "a\<lparr>ag_world := w3\<rparr>", simplified]) (use that in \<open>auto simp: wpA_retA intro!: Q\<close>)
  qed
  have "wp (Confirm s) (\<lambda>r w'. r = Inr () \<and> all_ok w' \<and> files w' = (files (ag_world a))(slotDir s (other x) @ [confirmedMarker] \<mapsto> File [],
            slotDir s (other x) @ [pendingMarker] := None)) (\<lambda>_. False) (ag_world a)"
    by (rule Confirm_all_ok[OF w(1) pf(1,2)[OF w(3)]]) (simp add: pf(4)[OF w(3)])
  then show ?thesis
    unfolding confirm_slot_def sl by (rule wpA_lift_ok) (use w in \<open>auto simp: promoted_def intro!: clean\<close>)
qed

lemma confirm_all_ok:
  assumes E: "fits s h E" and f: "fsm_state (ag_fsm a) = StateFlashing"
    and w: "all_ok (ag_world a)" "layout s w0" "files (ag_world a) = promoted s x ''0'' (files w0)" "\<not> confirmed s (other x) w0"
    and sum: "files w0 (slotDir s (other x) @ [checksumFile]) = Some (File checksum)"
      "files w0 (slotDir s (other x) @ [firmwareFile]) = Some (File data)" "hex_EncodeToString (h data) = TrimSpace checksum"
    and st: "files w0 (staging_path E spec) \<noteq> Some Dir"
    and Q: "\<And>fs w'. fsm_state fs = StateConfirming \<Longrightarrow> all_ok w' \<Longrightarrow>
        files w' = (promoted s x [] (files w0))(slotDir s (other x) @ [confirmedMarker] \<mapsto> File [], slotDir s (other x) @ [pendingMarker] := None, staging_path E spec := None)
        \<Longrightarrow> Q (Some PDone) (a\<lparr>ag_fsm := fs, ag_world := w'\<rparr>)"
  shows "wpA (upgrade_confirm E spec) Q (\<lambda>_. False) a"
proof -
  have sl: "e_slots E = s" "e_sha256 E = h" using E by (simp_all add: fits_def)
  have check: "wpA (check_slot E spec) Q (\<lambda>_. False) (a\<lparr>ag_fsm := fs, ag_world := w1\<rparr>)"
    if "fsm_state fs = StateConfirming" "all_ok w1" "files w1 = promoted s x ''1'' (files w0)" for fs w1
  proof -
    note pf = promoted_facts[OF that(3) w(2,4)]
    have "wp (SelfCheck h s) (\<lambda>r w'. r = Inr () \<and> all_ok w' \<and> files w' = files w1) (\<lambda>_. False) w1"
      by (rule wp_SelfCheck_all_ok[OF that(2) pf(2)]) (use pf(6) sum in \<open>auto simp: hashes_to_def\<close>)
    then show ?thesis unfolding check_slot_def sl
      by (rule wpA_lift_ok[of _ _ "a\<lparr>ag_fsm := fs, ag_world := w1\<rparr>", simplified])
        (use that Q in \<open>auto intro!: confirm_slot_all_ok[OF E _ w(2) _ w(4) st]\<close>)
  qed
  have "wp (BootCheck s) (\<lambda>r w'. r = (BootTrial, None) \<and> all_ok w' \<and> files w' = promoted s x ''1'' (files w0)) (\<lambda>_. False) (ag_world a)"
    by (rule wp_BootCheck_trial[OF w(1,3,2,4)]) simp
  then show ?thesis
    unfolding upgrade_confirm_def sl
    by (intro wpA_fsm_step_bind, simp add: f) (rule wpA_lift_ok, simp, use check in auto)
qed

lemma verify_slot_all_ok:
  assumes E: "fits s h E" and w: "all_ok (ag_world a)" "layout s (ag_world a)" "active_of s (ag_world a) = Some x"
    and sum: "hashes_to h (slotDir s (other x) @ [firmwareFile]) (sp_ChecksumSHA256 spec) (ag_world a)"
      "files (ag_world a) (slotDir s (other x) @ [checksumFile]) = Some (File (sp_ChecksumSHA256 spec))"
      "TrimSpace (sp_ChecksumSHA256 spec) = sp_ChecksumSHA256 spec"
    and Q: "\<And>w'. all_ok w' \<Longrightarrow> files w' = promoted s x ''0'' (files (ag_world a)) \<Longrightarrow> Q (Some PConfirming) (a\<lparr>ag_world := w'\<rparr>)"
  shows "wpA (verify_slot E spec) Q (\<lambda>_. False) a"
proof -
  have sl: "e_slots E = s" "e_sha256 E = h" using E by (simp_all add: fits_def)
  have promote: "wpA (promote_slot E spec) Q (\<lambda>_. False) (a\<lparr>ag_world := w2\<rparr>)" if "all_ok w2" "files w2 = files (ag_world a)" for w2
  proof -
    have "layout s w2" "active_of s w2 = Some x" using w that by (simp_all add: layout_def active_of_def)
    then have "wp (PromoteStaged s) (\<lambda>r w'. r = Inr (other x) \<and> all_ok w' \<and> files w' = promoted s x ''0'' (files w2)) (\<lambda>_. False) w2"
      by (rule wp_PromoteStaged_all_ok[OF that(1)]) simp
    then show ?thesis unfolding promote_slot_def sl
      by (rule wpA_lift_ok[of _ _ "a\<lparr>ag_world := w2\<rparr>", simplified]) (use Q that(2) in \<open>auto simp: wpA_retA\<close>)
  qed
  have "wp (VerifyStaged h s) (\<lambda>r w'. r = Inr () \<and> all_ok w' \<and> files w' = files (ag_world a)) (\<lambda>_. False) (ag_world a)"
    by (rule wp_VerifyStaged_all_ok[OF w(1,3)]) (use sum in auto)
  then show ?thesis unfolding verify_slot_def sl by (rule wpA_lift_ok) (auto intro!: promote)
qed

lemma flash_all_ok:
  assumes E: "fits s h E" and f: "fsm_state (ag_fsm a) = StateVerifying"
    and w: "all_ok (ag_world a)" "layout s (ag_world a)" "active_of s (ag_world a) = Some x"
    and src: "files (ag_world a) (staging_path E spec) = Some (File data)" "hex_EncodeToString (h data) = sp_ChecksumSHA256 spec"
    and Q: "\<And>fs w0 w'. fsm_state fs = StateFlashing \<Longrightarrow> all_ok w' \<Longrightarrow> layout s w0 \<Longrightarrow> files w0 = staged_as s x data spec (files (ag_world a)) \<Longrightarrow>
        files w' = promoted s x ''0'' (files w0) \<Longrightarrow> Q (Some PConfirming) (a\<lparr>ag_fsm := fs, ag_world := w'\<rparr>)"
  shows "wpA (upgrade_flash E spec) Q (\<lambda>_. False) a"
proof -
  have sl: "e_slots E = s" using E by (simp add: fits_def)
  have trim: "TrimSpace (sp_ChecksumSHA256 spec) = sp_ChecksumSHA256 spec" using src(2)[symmetric] by simp
  have ns: "\<not> in_slot s (other x) (staging_path E spec)" using staging_distinct(1)[OF E] by (auto simp: in_slot_def)
  have verify: "wpA (verify_slot E spec) Q (\<lambda>_. False) (a\<lparr>ag_fsm := fs, ag_world := w1\<rparr>)"
    if "fsm_state fs = StateFlashing" "all_ok w1" "files w1 = staged_as s x data spec (files (ag_world a))" for fs w1
  proof -
    have "layout s w1" "active_of s w1 = Some x" using that(3) w other_in[of x] by (auto simp: layout_def active_of_def)
    then show ?thesis
      by (intro verify_slot_all_ok[OF E]) (use that src(2) trim Q[OF that(1)] in \<open>auto simp: hashes_to_def\<close>)
  qed
  from Stage_all_ok[OF w src(1) ns, of "sp_DesiredFirmwareVersion spec" "sp_ChecksumSHA256 spec"] show ?thesis
    unfolding upgrade_flash_def sl
    by (intro wpA_fsm_step_bind, simp add: f) (rule wpA_lift_ok, simp, use verify in auto)
qed

lemma wpA_report_done:
  assumes "\<And>s'. reported E (upgraded_report E spec slot (ag_lastSeenGen a)) (a\<lparr>ag_api := s'\<rparr>) \<Longrightarrow> Q () (a\<lparr>ag_api := s'\<rparr>)"
  shows "wpA (reportStatus E (\<lambda>st g. set_synced E CondTrue ''Synced'' (''upgraded to '' @ sp_DesiredFirmwareVersion spec) g
     (st\<lparr>st_CurrentFirmwareVersion := sp_DesiredFirmwareVersion spec, st_ActiveSlot := slot\<rparr>))) Q C a"
proof -
  have "reported E (upgraded_report E spec slot (ag_lastSeenGen a))
      (a\<lparr>ag_api := snd (UpdateStatus (e_kube E) (e_http E) (\<lambda>_. upgraded_report E spec slot (ag_lastSeenGen a)) (ag_api a))\<rparr>)"
    by (auto simp: reported_def)
  from assms[OF this] show ?thesis
    by (simp add: wpA_def reportStatus_def Let_def case_prod_beta upgraded_report_def[abs_def])
qed

lemma done_all_ok:
  assumes E: "fits s h E" and t: "on_track a {StateConfirming} (committed s (other x) data spec (staging_path E spec) (files (ag_world a))) a1"
  shows "wpA (upgrade_done E spec) (upgrade_post s x data E spec a) (\<lambda>_. False) a1"
proof -
  have sl: "e_slots E = s" using E by (simp add: fits_def)
  have "active_of s (ag_world a1) = Some (other x)"
    using t staging_distinct[OF E, where spec = spec] other_in[of x] by (auto simp: on_track_def committed_def active_of_def)
  then have "wp (Active s) (\<lambda>r w'. r = Inr (other x) \<and> files w' = files (ag_world a1)) (\<lambda>_. False) (ag_world a1)"
    using t by (simp add: wp_Active_all_ok on_track_def)
  then show ?thesis unfolding upgrade_done_def sl
    by (intro wpA_fsm_step_bind, use t in \<open>simp add: on_track_def\<close>)
      (rule wpA_lift_ok, simp, use t in \<open>auto simp: on_track_def wpA_bindA wpA_retA slot_or_empty_def intro!: wpA_report_done[simplified]\<close>)
qed

lemma flash_to_end:
  assumes U: "upgradable s h E spec data a" and x: "active_of s (ag_world a) = Some x"
    and t: "on_track a {StateVerifying} ((files (ag_world a))(staging_path E spec \<mapsto> File data)) a1"
  shows "wpA (andThen (upgrade_flash E spec) (andThen (upgrade_confirm E spec) (upgrade_done E spec))) (upgrade_post s x data E spec a) (\<lambda>_. False) a1"
  unfolding wpA_andThen
proof (rule flash_all_ok[where x = x and data = data and s = s and h = h], goal_cases)
  case 4
  have fr: "frame (\<lambda>p. p = staging_path E spec) (files (ag_world a)) (fate_of (ag_world a1)) (ag_world a1)" using t by (simp add: frame_def on_track_def)
  have "boot_safe h s (ag_world a1)" using staging_frame(1)[OF _ fr, of s h h] U by (simp add: upgradable_def safe_up_boot_safe)
  then show ?case by (simp add: boot_safe_def)
next
  case 5
  have "currentPath s \<noteq> staging_path E spec" using U staging_distinct(2)[of s h E spec] by (simp add: upgradable_def)
  then show ?case using x t by (simp add: on_track_def active_of_def)
next
  case (8 fs w0 w2)
  have E: "fits s h E" using U by (simp add: upgradable_def)
  note d = staging_distinct[OF E, where spec = spec]
  have h0: "\<not> confirmed s (other x) w0" "files w0 (staging_path E spec) \<noteq> Some Dir" using 8(4) d t by (auto simp: confirmed_def on_track_def)
  have trim: "hex_EncodeToString (h data) = TrimSpace (sp_ChecksumSHA256 spec)" using U by (metis TrimSpace_hex upgradable_def)
  show ?case unfolding option.case
  proof (rule confirm_all_ok[OF E _ _ 8(3) _ h0(1) _ _ trim h0(2)], goal_cases)
    case (6 gs w3)
    then show ?case unfolding option.case
      by (intro done_all_ok[OF E]) (use t d in \<open>auto simp: on_track_def committed_def promoted_def 8(4) fun_eq_iff\<close>)
  qed (use 8 in simp_all)
qed (use U t in \<open>auto simp: upgradable_def on_track_def\<close>)

lemma verify_to_end:
  assumes U: "upgradable s h E spec data a" and x: "active_of s (ag_world a) = Some x"
    and t: "on_track a {StateDownloading} ((files (ag_world a))(staging_path E spec \<mapsto> File data)) a1"
  shows "wpA (andThen (upgrade_verify E spec) (andThen (upgrade_flash E spec) (andThen (upgrade_confirm E spec) (upgrade_done E spec))))
    (upgrade_post s x data E spec a) (\<lambda>_. False) a1"
proof -
  have sl: "e_sha256 E = h" and w: "all_ok (ag_world a1)" using U t by (simp_all add: upgradable_def fits_def on_track_def)
  have "hashes_to h (staging_path E spec) (sp_ChecksumSHA256 spec) (ag_world a1)" using U t by (simp add: hashes_to_def upgradable_def on_track_def)
  then have "wp (VerifySHA256 h (staging_path E spec) (sp_ChecksumSHA256 spec)) (\<lambda>r w'. r = Inr () \<and> all_ok w' \<and> files w' = files (ag_world a1)) (\<lambda>_. False) (ag_world a1)"
    by (intro wp_mono[OF VerifySHA256_all_ok[OF w]]) (use w in \<open>auto simp: all_ok_def\<close>)
  then show ?thesis unfolding wpA_andThen[of "upgrade_verify E spec"] unfolding upgrade_verify_def sl
    by (intro wpA_fsm_step_bind, use t in \<open>simp add: on_track_def\<close>)
      (rule wpA_lift_ok, simp, use t in \<open>auto simp: wpA_retA on_track_def intro!: flash_to_end[OF U x]\<close>)
qed

lemma download_to_end:
  assumes U: "upgradable s h E spec data a" and x: "active_of s (ag_world a) = Some x"
    and t: "on_track a {StateIdle, StateFailed} (files (ag_world a)) a1" "ag_world a1 = ag_world a"
  shows "wpA (andThen (upgrade_download E spec) (andThen (upgrade_verify E spec) (andThen (upgrade_flash E spec)
      (andThen (upgrade_confirm E spec) (upgrade_done E spec))))) (upgrade_post s x data E spec a) (\<lambda>_. False) a1"
proof -
  have par: "parent_ok (staging_path E spec) (ag_world a)"
    using U by (auto simp: upgradable_def parent_ok_def staging_path_def fits_def safe_up_def boot_safe_def layout_def)
  have "wp (DownloadWithResume (e_net E) (e_cancelled E) (sp_FirmwareURL spec) (staging_path E spec) (cf_Download (e_cfg E)))
      (\<lambda>r w'. r = Inr () \<and> all_ok w' \<and> files w' = (files (ag_world a))(staging_path E spec \<mapsto> File data)) (\<lambda>_. False) (ag_world a)"
    by (rule DownloadWithResume_all_ok) (use U par in \<open>auto simp: upgradable_def\<close>)
  moreover have "\<not> length (sp_ChecksumSHA256 spec) < 12" using U by (simp add: upgradable_def)
  ultimately show ?thesis unfolding wpA_andThen[of "upgrade_download E spec"] unfolding upgrade_download_def
    by (intro wpA_fsm_step_bind, use t in \<open>force simp: on_track_def\<close>, simp)
      (rule wpA_lift_ok, simp add: t(2), use t in \<open>auto simp: wpA_retA on_track_def intro!: verify_to_end[OF U x]\<close>)
qed

lemma runUpgrade_all_ok:
  assumes U: "upgradable s h E spec data a" and x: "active_of s (ag_world a) = Some x"
  shows "wpA (runUpgrade E spec) (upgrade_post s x data E spec a) (\<lambda>_. False) a"
  unfolding runUpgrade_def wpA_andThen[of "upgrade_announce E spec"] unfolding upgrade_announce_def wpA_bindA
  by (rule wpA_reportStatus) (use U in \<open>auto simp: wpA_retA upgradable_def on_track_def intro!: download_to_end[OF U x]\<close>)

text \<open>C23. An upgrade that nothing disturbs completes: from a booted device, with a server that answers
  one of the five attempts in full and an image with the stated digest, \<open>runUpgrade\<close> returns with
  the machine in Idle, no failure recorded, the new version running from the other slot,
  confirmed, with the image intact, and the staging file gone. The store is otherwise unchanged,
  so the previous image is still there.\<close>

theorem runUpgrade_succeeds:
  assumes U: "upgradable s h E spec data a" and x: "active_of s (ag_world a) = Some x"
  shows "wpA (runUpgrade E spec) (\<lambda>r a'. r = None \<and> fsm_state (ag_fsm a') = StateIdle \<and> ag_lastFailedKey a' = ag_lastFailedKey a \<and>
     active_of s (ag_world a') = Some (other x) \<and> confirmed s (other x) (ag_world a') \<and> intact h s (other x) (ag_world a') \<and>
     files (ag_world a') (slotDir s (other x) @ [versionFile]) = Some (File (sp_DesiredFirmwareVersion spec)) \<and>
     files (ag_world a') (staging_path E spec) = None \<and>
     (\<forall>n. files (ag_world a') (slotDir s x @ [n]) = files (ag_world a) (slotDir s x @ [n]))) (\<lambda>_. False) a"
proof (rule wpA_mono[OF runUpgrade_all_ok[OF assms]], elim conjE)
  fix r a'
  assume r: "r = None" "fsm_state (ag_fsm a') = StateIdle" "ag_lastFailedKey a' = ag_lastFailedKey a"
    and c: "files (ag_world a') = committed s (other x) data spec (staging_path E spec) (files (ag_world a))"
  have d: "slotDir s y @ [n] \<noteq> staging_path E spec" "currentPath s \<noteq> staging_path E spec" for y n
    using staging_distinct[where s = s and h = h and E = E and spec = spec] U unfolding upgradable_def by metis+
  have sum: "hex_EncodeToString (h data) = TrimSpace (sp_ChecksumSHA256 spec)" using U by (metis TrimSpace_hex upgradable_def)
  show "r = None \<and> fsm_state (ag_fsm a') = StateIdle \<and> ag_lastFailedKey a' = ag_lastFailedKey a \<and>
     active_of s (ag_world a') = Some (other x) \<and> confirmed s (other x) (ag_world a') \<and> intact h s (other x) (ag_world a') \<and>
     files (ag_world a') (slotDir s (other x) @ [versionFile]) = Some (File (sp_DesiredFirmwareVersion spec)) \<and>
     files (ag_world a') (staging_path E spec) = None \<and>
     (\<forall>n. files (ag_world a') (slotDir s x @ [n]) = files (ag_world a) (slotDir s x @ [n]))"
    using r d sum other_in[of x] other_neq[of x]
    by (auto simp: c committed_def active_of_def confirmed_def intact_def hashes_to_def)
qed simp

lemma demo_upgradable: "upgradable demo_slots id demo_env (d_Spec demo_dev) ''image1'' (initial_agent demo_world ())"
proof -
  have "responsive flaky_server ''u'' ''image1'' 0 5"
    unfolding responsive_def by (rule disjI1, rule exI[of _ 1]) (simp add: delivers_def flaky_server_def)
  moreover have "12 \<le> length (hex_EncodeToString ''image1'')" by (simp add: hex_EncodeToString_def)
  moreover have "partial_of ''image1'' (staging_path demo_env (d_Spec demo_dev)) demo_world"
    by (simp add: partial_of_def staging_path_def demo_env_def demo_world_def)
  moreover have "safe_up id demo_slots demo_world" using demo_world_ok(2,3) demo_world_safe by (auto simp: safe_up_def)
  moreover have "cf_Download (e_cfg demo_env) = default_options" "e_net demo_env = flaky_server" "e_cancelled demo_env = (\<lambda>_. False)"
    by (simp_all add: demo_env_def)
  ultimately show ?thesis
    using demo_world_ok(1) demo_env_fits flaky_server_serves
    by (simp add: upgradable_def initial_agent_def NewFSM_def) (simp add: demo_dev_def)
qed

theorem runUpgrade_succeeds_witness:
  "wpA (runUpgrade demo_env (d_Spec demo_dev)) (\<lambda>r a'. r = None \<and> active_of demo_slots (ag_world a') = Some ''B'' \<and>
     files (ag_world a') [''data'', ''slotB'', ''version''] = Some (File ''v2'')) (\<lambda>_. False) (initial_agent demo_world ())"
  by (rule wpA_mono[OF runUpgrade_succeeds[OF demo_upgradable, of "''A''"]])
    (use demo_world_ok(2) in \<open>auto simp: initial_agent_def slotDir_def demo_slots_def slot_names demo_dev_def\<close>)

text \<open>C30. An image with the wrong digest is never flashed: when the staging file does not hash to the
  checksum of the target, the Verifying phase leaves every path but the staging file as it was,
  on every outcome; when it returns, the transaction has ended in Failed and the target is
  remembered as failed, so it is not tried again.\<close>

theorem bad_digest_never_flashed:
  assumes "fits s h E" "fsm_state (ag_fsm a) = StateDownloading"
    and "\<not> hashes_to h (staging_path E spec) (sp_ChecksumSHA256 spec) (ag_world a)"
  shows "wpA (upgrade_verify E spec)
    (\<lambda>r a'. r = None \<and> fsm_state (ag_fsm a') = StateFailed \<and> ag_lastFailedKey a' = target_key spec \<and>
       (\<forall>p. p \<noteq> staging_path E spec \<longrightarrow> files (ag_world a') p = files (ag_world a) p))
    (\<lambda>a'. \<forall>p. p \<noteq> staging_path E spec \<longrightarrow> files (ag_world a') p = files (ag_world a) p) a"
  (is "wpA _ ?Q ?C a")
proof -
  have sl: "e_sha256 E = h" using assms(1) by (simp add: fits_def)
  have bad: "wpA (bindA (liftA (os_Remove (staging_path E spec))) (\<lambda>_. fail E spec ''ChecksumMismatch'' msg)) ?Q ?C a1"
    if "fsm_state (ag_fsm a1) = StateVerifying" "files (ag_world a1) = files (ag_world a)" for a1 msg
  proof (rule wpA_lift_contract)
    let ?F = "frame (\<lambda>p. p = staging_path E spec) (files (ag_world a1)) (fate_of (ag_world a1))"
    show "wp (os_Remove (staging_path E spec)) (\<lambda>_. ?F) ?F (ag_world a1)"
      unfolding wp_snd by (rule keepsD[OF keeps_frame_writes(2)]) simp_all
  next
    fix r w' assume "frame (\<lambda>p. p = staging_path E spec) (files (ag_world a1)) (fate_of (ag_world a1)) w'"
    then show "wpA (fail E spec ''ChecksumMismatch'' msg) ?Q ?C (a1\<lparr>ag_world := w'\<rparr>)"
      by (intro wpA_fail) (use that in \<open>auto simp: frame_def\<close>)
  qed (use that in \<open>auto simp: frame_def\<close>)
  have v: "wp (VerifySHA256 h (staging_path E spec) (sp_ChecksumSHA256 spec)) (\<lambda>r w'. (\<exists>e. r = Inl e) \<and> files w' = files (ag_world a))
      (\<lambda>w'. files w' = files (ag_world a)) (ag_world a)"
    by (rule wp_VerifySHA256) (use assms(3) in auto)
  show ?thesis unfolding upgrade_verify_def sl
    by (rule wpA_fsm_step_bind, simp add: assms(2)) (rule wpA_lift_contract, simp, rule v, auto intro!: bad)
qed

theorem bad_digest_never_flashed_witness:
  "wpA (upgrade_verify demo_env (d_Spec demo_dev)) (\<lambda>r a'. r = None \<and> ag_lastFailedKey a' = target_key (d_Spec demo_dev)) (\<lambda>_. True)
    ((initial_agent demo_world ())\<lparr>ag_fsm := (NewFSM True)\<lparr>fsm_state := StateDownloading\<rparr>\<rparr>)"
  by (rule wpA_mono[OF bad_digest_never_flashed[OF demo_env_fits]])
    (auto simp: hashes_to_def staging_path_def demo_env_def demo_world_def initial_agent_def)

text \<open>C34. A failed confirmation is not rolled back. If confirming returns an error the agent keeps
  running the unconfirmed slot; staging the next target then removes the confirmed marker of the
  only confirmed slot, and no slot is left that a boot could fall back to. (In a fail-stop
  environment this does not arise, see the life of a device above.)\<close>

theorem Stage_while_unconfirmed_loses_fallback:
  assumes "all_ok w" "layout s w" "active_of s w = Some a" "\<not> confirmed s a w"
    and "files w srcPath = Some (File data)" "\<not> in_slot s (other a) srcPath"
  shows "wp (Stage s srcPath v c) (\<lambda>r w'. r = Inr () \<and> \<not> confirmed s ''A'' w' \<and> \<not> confirmed s ''B'' w' \<and> \<not> boot_safe h s w') (\<lambda>_. False) w"
proof (rule wp_mono[OF Stage_all_ok[OF assms(1-3,5,6)]], elim conjE)
  fix r and w' :: world assume "r = Inr ()" and f: "files w' = (files w)(slotDir s (other a) @ [confirmedMarker] := None,
                slotDir s (other a) @ [pendingMarker] := None, slotDir s (other a) @ [firmwareFile] \<mapsto> File data,
                slotDir s (other a) @ [versionFile] \<mapsto> File v, slotDir s (other a) @ [checksumFile] \<mapsto> File c)"
  have "a = ''A'' \<or> a = ''B''" using layout_active[OF assms(2)] assms(3) by auto
  with assms(4) f \<open>r = Inr ()\<close> show "r = Inr () \<and> \<not> confirmed s ''A'' w' \<and> \<not> confirmed s ''B'' w' \<and> \<not> boot_safe h s w'"
    using other_neq[of a] by (auto simp: confirmed_def boot_safe_alt)
qed simp

theorem Stage_while_unconfirmed_loses_fallback_witness:
  "wp (Stage demo_slots [''data'', ''img''] ''v3'' ''00'')
     (\<lambda>r w'. r = Inr () \<and> \<not> confirmed demo_slots ''A'' w' \<and> \<not> confirmed demo_slots ''B'' w' \<and> \<not> boot_safe id demo_slots w') (\<lambda>_. False)
     (demo_world\<lparr>files := (files demo_world)([''data'', ''current''] \<mapsto> Link ''slotB'', [''data'', ''slotB'', ''.pending''] \<mapsto> File ''1'')\<rparr>)"
  by (rule Stage_while_unconfirmed_loses_fallback[where a = "''B''"])
    (auto simp: all_ok_def demo_world_def demo_slots_def layout_def active_of_def confirmed_def in_slot_def slotDir_def currentPath_def currentTmp_def slot_names)

end
