(* ===== verification/Fleet_API.thy ===== *)
theory Fleet_API
  imports Go_OS Conditions "HOL-Library.List_Lexorder" "HOL-Library.Char_ord"
begin

text \<open>
  The API types of \<open>api/v1alpha1\<close> as the operator sees them, and the client of the two
  controllers.

  The API server behind the client is not part of the repository. It is modelled as an adversary:
  a record of functions that choose the reply to every call from the whole history of the calls
  made so far. A reconcile is a function from the history before it to its result and the history
  after it, so the theorems state which calls a controller makes, with which arguments and in
  which order, against every server behaviour.

  Times and durations are integers (nanoseconds); durations are 64-bit in the source and their
  arithmetic wraps or saturates as Go's does.
\<close>

datatype DevicePhase = PhaseUnset | PhaseProvisioning | PhaseReady | PhaseUpgrading | PhaseDegraded

definition ConditionHealthy :: string where "ConditionHealthy = ''Healthy''"
definition ConditionFirmwareSynced :: string where "ConditionFirmwareSynced = ''FirmwareSynced''"
definition ConditionUnknown :: string where "ConditionUnknown = ''Unknown''"

record K8sMeta =
  om_Name :: string
  om_Namespace :: string
  om_UID :: string
  om_Generation :: int
  om_Labels :: "string \<rightharpoonup> string"
  om_Finalizers :: "string list"
  om_DeletionTimestamp :: "int option"

record EdgeDeviceSpec =
  es_DesiredFirmwareVersion :: string
  es_FirmwareURL :: string
  es_ChecksumSHA256 :: string
  es_Region :: string
  es_DeviceLabels :: "string \<rightharpoonup> string"
  es_RolloutPaused :: bool

record EdgeDeviceStatus =
  eds_Phase :: DevicePhase
  eds_Conditions :: "int Condition list"
  eds_CurrentFirmwareVersion :: string
  eds_ActiveSlot :: string
  eds_LastHeartbeat :: "int option"
  eds_ObservedGeneration :: int

record EdgeDevice =
  ed_Meta :: K8sMeta
  ed_Spec :: EdgeDeviceSpec
  ed_Status :: EdgeDeviceStatus

datatype RolloutPhase = RolloutUnset | RolloutProgressing | RolloutPaused | RolloutComplete

definition ConditionBreakerTripped :: string where "ConditionBreakerTripped = ''BreakerTripped''"

record FleetRolloutSpec =
  fs_Selector :: "(string \<times> string) list"
  fs_TargetVersion :: string
  fs_FirmwareURL :: string
  fs_ChecksumSHA256 :: string
  fs_MaxUnavailable :: int
  fs_FailureThresholdPercent :: int

record FleetRolloutStatus =
  fst_Phase :: RolloutPhase
  fst_Selected :: int
  fst_Targeted :: int
  fst_Succeeded :: int
  fst_Failed :: int
  fst_Conditions :: "int Condition list"
  fst_ObservedGeneration :: int

record FleetRollout =
  fr_Meta :: K8sMeta
  fr_Spec :: FleetRolloutSpec
  fr_Status :: FleetRolloutStatus

text \<open>A Secret. A missing annotation map is Go's nil map: reading it is fine, assigning to it panics.\<close>

record Secret =
  se_Name :: string
  se_Namespace :: string
  se_Annotations :: "(string \<rightharpoonup> string) option"
  se_Labels :: "string \<rightharpoonup> string"
  se_Data :: "string \<rightharpoonup> string"

subsection \<open>The client\<close>

datatype api_error = ErrNotFound | ErrAlreadyExists | ErrConflicted | ErrOther string

type_synonym key = "string \<times> string"

datatype event =
    GotDevice key "api_error + EdgeDevice"
  | UpdatedDevice EdgeDevice "api_error option"
  | UpdatedDeviceStatus EdgeDevice "api_error option"
  | GotSecret key "api_error + Secret"
  | CreatedSecret Secret "api_error option"
  | UpdatedSecret Secret "api_error option"
  | DeletedSecret key "api_error option"
  | GotRollout key "api_error + FleetRollout"
  | ListedDevices string "(string \<times> string) list" "api_error + EdgeDevice list"
  | ListedRollouts string "api_error + FleetRollout list"
  | UpdatedRolloutStatus FleetRollout "api_error option"

type_synonym history = "event list"

record Server =
  on_GetDevice :: "history \<Rightarrow> key \<Rightarrow> api_error + EdgeDevice"
  on_UpdateDevice :: "history \<Rightarrow> EdgeDevice \<Rightarrow> api_error option"
  on_UpdateDeviceStatus :: "history \<Rightarrow> EdgeDevice \<Rightarrow> api_error option"
  on_GetSecret :: "history \<Rightarrow> key \<Rightarrow> api_error + Secret"
  on_CreateSecret :: "history \<Rightarrow> Secret \<Rightarrow> api_error option"
  on_UpdateSecret :: "history \<Rightarrow> Secret \<Rightarrow> api_error option"
  on_DeleteSecret :: "history \<Rightarrow> key \<Rightarrow> api_error option"
  on_GetRollout :: "history \<Rightarrow> key \<Rightarrow> api_error + FleetRollout"
  on_ListDevices :: "history \<Rightarrow> string \<Rightarrow> (string \<times> string) list \<Rightarrow> api_error + EdgeDevice list"
  on_ListRollouts :: "history \<Rightarrow> string \<Rightarrow> api_error + FleetRollout list"
  on_UpdateRolloutStatus :: "history \<Rightarrow> FleetRollout \<Rightarrow> api_error option"

type_synonym 'a call = "history \<Rightarrow> 'a outcome \<times> history"

definition retK :: "'a \<Rightarrow> 'a call" where
  "retK x hist = (Done x, hist)"

definition panicK :: "'a call" where
  "panicK hist = (Panicked, hist)"

definition bindK :: "'a call \<Rightarrow> ('a \<Rightarrow> 'b call) \<Rightarrow> 'b call" where
  "bindK m f hist = (case m hist of (Done x, h') \<Rightarrow> f x h' | (Died, h') \<Rightarrow> (Died, h') | (Panicked, h') \<Rightarrow> (Panicked, h'))"

text \<open>A call: the server chooses the reply, the pair is recorded.\<close>

definition callK :: "(history \<Rightarrow> 'r) \<Rightarrow> ('r \<Rightarrow> event) \<Rightarrow> 'r call" where
  "callK reply entry hist = (let r = reply hist in (Done r, hist @ [entry r]))"

definition GetDevice :: "Server \<Rightarrow> key \<Rightarrow> (api_error + EdgeDevice) call" where
  "GetDevice S k = callK (\<lambda>h. on_GetDevice S h k) (GotDevice k)"

definition UpdateDevice :: "Server \<Rightarrow> EdgeDevice \<Rightarrow> api_error option call" where
  "UpdateDevice S d = callK (\<lambda>h. on_UpdateDevice S h d) (UpdatedDevice d)"

definition UpdateDeviceStatus :: "Server \<Rightarrow> EdgeDevice \<Rightarrow> api_error option call" where
  "UpdateDeviceStatus S d = callK (\<lambda>h. on_UpdateDeviceStatus S h d) (UpdatedDeviceStatus d)"

definition GetSecret :: "Server \<Rightarrow> key \<Rightarrow> (api_error + Secret) call" where
  "GetSecret S k = callK (\<lambda>h. on_GetSecret S h k) (GotSecret k)"

definition CreateSecret :: "Server \<Rightarrow> Secret \<Rightarrow> api_error option call" where
  "CreateSecret S s = callK (\<lambda>h. on_CreateSecret S h s) (CreatedSecret s)"

definition UpdateSecret :: "Server \<Rightarrow> Secret \<Rightarrow> api_error option call" where
  "UpdateSecret S s = callK (\<lambda>h. on_UpdateSecret S h s) (UpdatedSecret s)"

definition DeleteSecret :: "Server \<Rightarrow> key \<Rightarrow> api_error option call" where
  "DeleteSecret S k = callK (\<lambda>h. on_DeleteSecret S h k) (DeletedSecret k)"

definition GetRollout :: "Server \<Rightarrow> key \<Rightarrow> (api_error + FleetRollout) call" where
  "GetRollout S k = callK (\<lambda>h. on_GetRollout S h k) (GotRollout k)"

definition ListDevices :: "Server \<Rightarrow> string \<Rightarrow> (string \<times> string) list \<Rightarrow> (api_error + EdgeDevice list) call" where
  "ListDevices S ns sel = callK (\<lambda>h. on_ListDevices S h ns sel) (ListedDevices ns sel)"

definition ListRollouts :: "Server \<Rightarrow> string \<Rightarrow> (api_error + FleetRollout list) call" where
  "ListRollouts S ns = callK (\<lambda>h. on_ListRollouts S h ns) (ListedRollouts ns)"

definition UpdateRolloutStatus :: "Server \<Rightarrow> FleetRollout \<Rightarrow> api_error option call" where
  "UpdateRolloutStatus S r = callK (\<lambda>h. on_UpdateRolloutStatus S h r) (UpdatedRolloutStatus r)"

lemmas client_defs = GetDevice_def UpdateDevice_def UpdateDeviceStatus_def GetSecret_def CreateSecret_def UpdateSecret_def
  DeleteSecret_def GetRollout_def ListDevices_def ListRollouts_def UpdateRolloutStatus_def

text \<open>\<open>client.IgnoreNotFound\<close> and \<open>client.IgnoreAlreadyExists\<close> on classified errors.\<close>

definition IgnoreNotFound :: "api_error option \<Rightarrow> api_error option" where
  "IgnoreNotFound e = (if e = Some ErrNotFound then None else e)"

definition IgnoreAlreadyExists :: "api_error option \<Rightarrow> api_error option" where
  "IgnoreAlreadyExists e = (if e = Some ErrAlreadyExists then None else e)"

record Result =
  re_RequeueAfter :: int
  re_err :: "api_error option"

definition result :: "int \<Rightarrow> api_error option \<Rightarrow> Result" where
  "result after e = \<lparr>re_RequeueAfter = after, re_err = e\<rparr>"

subsection \<open>Package time\<close>

text \<open>\<open>Time.Sub\<close> saturates at the ends of the 64-bit range.\<close>

definition time_Sub :: "int \<Rightarrow> int \<Rightarrow> int" where
  "time_Sub t u = max min_int64 (min max_int64 (t - u))"

definition second :: int where "second = 1000000000"

text \<open>
  \<open>Duration.String\<close>: \<open>fmtFrac\<close> prints the last \<open>prec\<close> digits of \<open>v\<close> as a fraction without its
  trailing zeros; the largest units come first and units that are zero from the left are omitted.
\<close>

definition fmtFrac :: "nat \<Rightarrow> nat \<Rightarrow> string" where
  "fmtFrac v prec =
     (let ds = map (\<lambda>i. digit_char (v div 10 ^ i mod 10)) (rev [0..<prec]);
          kept = rev (dropWhile (\<lambda>c. c = CHR ''0'') (rev ds))
      in if kept = [] then [] else CHR ''.'' # kept)"

definition Duration_String :: "int \<Rightarrow> string" where
  "Duration_String d =
     (let u = nat \<bar>d\<bar>;
          body = (if u = 0 then ''0s''
                  else if u < 1000 then nat_digits u @ ''ns''
                  else if u < 1000000 then nat_digits (u div 1000) @ fmtFrac u 3 @ [CHR 0xC2, CHR 0xB5, CHR ''s'']
                  else if u < 1000000000 then nat_digits (u div 1000000) @ fmtFrac u 6 @ ''ms''
                  else let s = u div 1000000000; m = s div 60; h = m div 60
                       in (if h > 0 then nat_digits h @ ''h'' else []) @
                          (if m > 0 then nat_digits (m mod 60) @ ''m'' else []) @
                          nat_digits (s mod 60) @ fmtFrac u 9 @ ''s'')
      in if d < 0 then CHR ''-'' # body else body)"

text \<open>\<open>wpK m Q hist\<close>: run from \<open>hist\<close>, the outcome and the new events satisfy \<open>Q\<close>.\<close>

definition wpK :: "'a call \<Rightarrow> ('a outcome \<Rightarrow> history \<Rightarrow> bool) \<Rightarrow> history \<Rightarrow> bool" where
  "wpK m Q hist = (case m hist of (r, h') \<Rightarrow> Q r h')"

section \<open>Lemmas\<close>

lemma wpK_retK [wp_rules]: "wpK (retK x) Q hist = Q (Done x) hist"
  by (simp add: wpK_def retK_def)

lemma wpK_panicK [wp_rules]: "wpK panicK Q hist = Q Panicked hist"
  by (simp add: wpK_def panicK_def)

lemma wpK_bindK [wp_rules]:
  "wpK (bindK m f) Q hist = wpK m (\<lambda>r h'. case r of Done x \<Rightarrow> wpK (f x) Q h' | Died \<Rightarrow> Q Died h' | Panicked \<Rightarrow> Q Panicked h') hist"
  by (auto simp: wpK_def bindK_def split: prod.splits outcome.splits)

lemma wpK_callK [wp_rules]: "wpK (callK reply entry) Q hist = Q (Done (reply hist)) (hist @ [entry (reply hist)])"
  by (simp add: wpK_def callK_def Let_def)

lemma wpK_mono: "wpK m Q hist \<Longrightarrow> (\<And>r h'. Q r h' \<Longrightarrow> Q' r h') \<Longrightarrow> wpK m Q' hist"
  by (auto simp: wpK_def split: prod.splits)

lemma wpK_run: "wpK m Q hist = Q (fst (m hist)) (snd (m hist))"
  by (simp add: wpK_def split: prod.splits)

lemma time_Sub_exact: "min_int64 \<le> t - u \<Longrightarrow> t - u \<le> max_int64 \<Longrightarrow> time_Sub t u = t - u"
  by (simp add: time_Sub_def)

lemma time_Sub_gt: "0 \<le> d \<Longrightarrow> d < max_int64 \<Longrightarrow> d < time_Sub t u \<longleftrightarrow> d < t - u"
  by (auto simp: time_Sub_def min_int64_def max_int64_def)

end
