(* ===== verification/Device_Controller.thy ===== *)
theory Device_Controller
  imports Fleet_API
begin

text \<open>
  The device controller of \<open>internal/controller/edgedevice_controller.go\<close>: the reconcile pass with
  its deletion path and its two idempotency gates, the status projection, the credential Secret.

  Functions of other packages are arguments: the condition helpers of the API machinery
  (\<open>meta.FindStatusCondition\<close>, \<open>meta.SetStatusCondition\<close>, contract \<open>condition_api\<close>), the
  finalizer helpers of controller-runtime (contract \<open>finalizer_laws\<close>) and the random token.
  \<open>nows i\<close> is the \<open>i\<close>-th reading of the clock in a pass.
\<close>

definition deviceFinalizer :: string where "deviceFinalizer = ''edge.example.com/device-cleanup''"
definition credFingerprintKey :: string where "credFingerprintKey = ''edge.example.com/device-uid''"
definition defaultHeartbeatTimeout :: int where "defaultHeartbeatTimeout = 30 * second"

record Libs =
  lib_find :: "int Condition list \<Rightarrow> string \<Rightarrow> int Condition option"
  lib_set :: "int \<Rightarrow> int Condition \<Rightarrow> int Condition list \<Rightarrow> int Condition list"
  lib_ContainsFinalizer :: "K8sMeta \<Rightarrow> string \<Rightarrow> bool"
  lib_AddFinalizer :: "K8sMeta \<Rightarrow> string \<Rightarrow> K8sMeta"
  lib_RemoveFinalizer :: "K8sMeta \<Rightarrow> string \<Rightarrow> K8sMeta"

record EdgeDeviceReconciler =
  er_HeartbeatTimeout :: int

definition timeout_of :: "EdgeDeviceReconciler \<Rightarrow> int" where
  "timeout_of r = (if er_HeartbeatTimeout r = 0 then defaultHeartbeatTimeout else er_HeartbeatTimeout r)"

text \<open>A FirmwareSynced condition that reports a failed transaction.\<close>

definition reports_failure :: "int Condition option \<Rightarrow> bool" where
  "reports_failure c = (case c of None \<Rightarrow> False | Some c \<Rightarrow> c_Status c = CondFalse \<and> c_Reason c \<noteq> ''UpgradeInProgress'')"

definition projectStatus :: "Libs \<Rightarrow> EdgeDeviceReconciler \<Rightarrow> (nat \<Rightarrow> int) \<Rightarrow> EdgeDevice \<Rightarrow> EdgeDeviceStatus \<times> int" where
  "projectStatus L r nows dev =
     (let timeout = timeout_of r;
          st = ed_Status dev;
          healthy = (\<lambda>status reason msg.
             \<lparr>c_Type = ConditionHealthy, c_Status = status, c_ObservedGeneration = om_Generation (ed_Meta dev),
              c_LastTransitionTime = 0, c_Reason = reason, c_Message = msg\<rparr>);
          finish = (\<lambda>phase cond requeue.
             (st\<lparr>eds_Phase := phase, eds_Conditions := lib_set L (nows 2) cond (eds_Conditions st)\<rparr>, requeue))
      in case eds_LastHeartbeat st of
           None \<Rightarrow> finish PhaseProvisioning
                     (healthy ConditionUnknown ''AwaitingFirstHeartbeat'' ''device has not reported in yet'') timeout
         | Some t \<Rightarrow>
             if time_Sub (nows 0) t > timeout then
               finish PhaseDegraded
                 (healthy CondFalse ''HeartbeatTimeout'' (''no heartbeat for more than '' @ Duration_String timeout)) timeout
             else
               let phase = (if reports_failure (lib_find L (eds_Conditions st) ConditionFirmwareSynced) then PhaseDegraded
                            else if eds_CurrentFirmwareVersion st \<noteq> es_DesiredFirmwareVersion (ed_Spec dev) then PhaseUpgrading
                            else PhaseReady);
                   age = time_Sub (nows 1) t;
                   remaining = wrap64 (wrap64 (timeout - age) + second)
               in finish phase (healthy CondTrue ''HeartbeatFresh'' ''agent is reporting'')
                    (if remaining > 0 then remaining else timeout))"

definition statusEqual :: "Libs \<Rightarrow> EdgeDeviceStatus \<Rightarrow> EdgeDeviceStatus \<Rightarrow> bool" where
  "statusEqual L a b =
     (if eds_Phase a \<noteq> eds_Phase b then False
      else case (lib_find L (eds_Conditions a) ConditionHealthy, lib_find L (eds_Conditions b) ConditionHealthy) of
             (None, None) \<Rightarrow> True
           | (Some ca, Some cb) \<Rightarrow>
               c_Status ca = c_Status cb \<and> c_Reason ca = c_Reason cb \<and> c_ObservedGeneration ca = c_ObservedGeneration cb
           | _ \<Rightarrow> False)"

definition credentialSecretName :: "string \<Rightarrow> string" where
  "credentialSecretName deviceName = ''device-cred-'' @ deviceName"

text \<open>The hexadecimal form of the 16 random bytes.\<close>

definition newToken :: "string \<Rightarrow> string" where
  "newToken bytes = hex_EncodeToString bytes"

definition annotation :: "Secret \<Rightarrow> string \<Rightarrow> string" where
  "annotation s k = (case se_Annotations s of None \<Rightarrow> [] | Some m \<Rightarrow> (case m k of None \<Rightarrow> [] | Some v \<Rightarrow> v))"

definition ensureCredentialSecret :: "Server \<Rightarrow> string \<Rightarrow> EdgeDevice \<Rightarrow> api_error option call" where
  "ensureCredentialSecret S bytes dev =
     (let m = ed_Meta dev; name = credentialSecretName (om_Name m) in
      bindK (GetSecret S (om_Namespace m, name)) (\<lambda>r. case r of
        Inr existing \<Rightarrow>
          if annotation existing credFingerprintKey = om_UID m then retK None
          else (case se_Annotations existing of
                  None \<Rightarrow> panicK
                | Some ann \<Rightarrow>
                    UpdateSecret S (existing\<lparr>se_Annotations := Some (ann(credFingerprintKey \<mapsto> om_UID m)),
                                             se_Data := [''token'' \<mapsto> newToken bytes]\<rparr>))
      | Inl e \<Rightarrow>
          if e \<noteq> ErrNotFound then retK (Some e)
          else bindK (CreateSecret S
                 \<lparr>se_Name = name, se_Namespace = om_Namespace m, se_Annotations = Some [credFingerprintKey \<mapsto> om_UID m],
                  se_Labels = [''edge.example.com/device'' \<mapsto> om_Name m], se_Data = [''token'' \<mapsto> newToken bytes]\<rparr>)
                 (\<lambda>e. retK (IgnoreAlreadyExists e))))"

definition revokeCredential :: "Server \<Rightarrow> EdgeDevice \<Rightarrow> api_error option call" where
  "revokeCredential S dev =
     bindK (DeleteSecret S (om_Namespace (ed_Meta dev), credentialSecretName (om_Name (ed_Meta dev))))
       (\<lambda>e. retK (IgnoreNotFound e))"

definition Reconcile :: "Server \<Rightarrow> Libs \<Rightarrow> EdgeDeviceReconciler \<Rightarrow> (nat \<Rightarrow> int) \<Rightarrow> string \<Rightarrow> key \<Rightarrow> Result call" where
  "Reconcile S L r nows bytes req =
     bindK (GetDevice S req) (\<lambda>g. case g of
       Inl e \<Rightarrow> retK (result 0 (IgnoreNotFound (Some e)))
     | Inr dev \<Rightarrow>
         if om_DeletionTimestamp (ed_Meta dev) \<noteq> None then
           (if lib_ContainsFinalizer L (ed_Meta dev) deviceFinalizer then
              bindK (revokeCredential S dev) (\<lambda>e. if e \<noteq> None then retK (result 0 e)
              else bindK (UpdateDevice S (dev\<lparr>ed_Meta := lib_RemoveFinalizer L (ed_Meta dev) deviceFinalizer\<rparr>)) (\<lambda>e.
                retK (result 0 e)))
            else retK (result 0 None))
         else if \<not> lib_ContainsFinalizer L (ed_Meta dev) deviceFinalizer then
           bindK (UpdateDevice S (dev\<lparr>ed_Meta := lib_AddFinalizer L (ed_Meta dev) deviceFinalizer\<rparr>)) (\<lambda>e. retK (result 0 e))
         else
           bindK (ensureCredentialSecret S bytes dev) (\<lambda>e. if e \<noteq> None then retK (result 0 e)
           else
             let (newStatus, requeueAfter) = projectStatus L r nows dev in
             if statusEqual L (ed_Status dev) newStatus then retK (result requeueAfter None)
             else bindK (UpdateDeviceStatus S (dev\<lparr>ed_Status := (ed_Status dev)\<lparr>eds_Phase := eds_Phase newStatus,
                                                         eds_Conditions := eds_Conditions newStatus\<rparr>\<rparr>)) (\<lambda>e.
                    if e \<noteq> None then retK (result 0 e) else retK (result requeueAfter None))))"

text \<open>The documented behaviour of the finalizer helpers.\<close>

definition finalizer_laws :: "Libs \<Rightarrow> bool" where
  "finalizer_laws L \<longleftrightarrow> (\<forall>m f g.
     lib_ContainsFinalizer L (lib_AddFinalizer L m f) g = (g = f \<or> lib_ContainsFinalizer L m g) \<and>
     lib_ContainsFinalizer L (lib_RemoveFinalizer L m f) g = (g \<noteq> f \<and> lib_ContainsFinalizer L m g))"

text \<open>All possible event sequences of a pass, by what the device looked like.\<close>

definition credential_of :: "EdgeDevice \<Rightarrow> key" where
  "credential_of dev = (om_Namespace (ed_Meta dev), credentialSecretName (om_Name (ed_Meta dev)))"

definition fresh_secret :: "EdgeDevice \<Rightarrow> Secret \<Rightarrow> bool" where
  "fresh_secret dev s \<longleftrightarrow> (\<exists>ann. se_Annotations s = Some ann \<and> ann credFingerprintKey = Some (om_UID (ed_Meta dev)))"

inductive secret_events :: "EdgeDevice \<Rightarrow> event list \<Rightarrow> bool" for dev where
  kept: "annotation s credFingerprintKey = om_UID (ed_Meta dev) \<Longrightarrow> secret_events dev [GotSecret (credential_of dev) (Inr s)]"
| nil_map: "se_Annotations s = None \<Longrightarrow> secret_events dev [GotSecret (credential_of dev) (Inr s)]"
| rotated: "fresh_secret dev s' \<Longrightarrow> annotation s credFingerprintKey \<noteq> om_UID (ed_Meta dev)
    \<Longrightarrow> secret_events dev [GotSecret (credential_of dev) (Inr s), UpdatedSecret s' e]"
| failed: "e \<noteq> ErrNotFound \<Longrightarrow> secret_events dev [GotSecret (credential_of dev) (Inl e)]"
| created: "fresh_secret dev s' \<Longrightarrow> credential_of dev = (se_Namespace s', se_Name s')
    \<Longrightarrow> secret_events dev [GotSecret (credential_of dev) (Inl ErrNotFound), CreatedSecret s' e]"

inductive pass_events :: "Libs \<Rightarrow> EdgeDeviceReconciler \<Rightarrow> (nat \<Rightarrow> int) \<Rightarrow> key \<Rightarrow> event list \<Rightarrow> bool" for L r nows req where
  gone: "pass_events L r nows req [GotDevice req (Inl e)]"
| released: "om_DeletionTimestamp (ed_Meta dev) \<noteq> None \<Longrightarrow> \<not> lib_ContainsFinalizer L (ed_Meta dev) deviceFinalizer
    \<Longrightarrow> pass_events L r nows req [GotDevice req (Inr dev)]"
| held: "om_DeletionTimestamp (ed_Meta dev) \<noteq> None \<Longrightarrow> lib_ContainsFinalizer L (ed_Meta dev) deviceFinalizer
    \<Longrightarrow> e \<noteq> None \<Longrightarrow> e \<noteq> Some ErrNotFound \<Longrightarrow> pass_events L r nows req [GotDevice req (Inr dev), DeletedSecret (credential_of dev) e]"
| revoked: "om_DeletionTimestamp (ed_Meta dev) \<noteq> None \<Longrightarrow> lib_ContainsFinalizer L (ed_Meta dev) deviceFinalizer
    \<Longrightarrow> e = None \<or> e = Some ErrNotFound \<Longrightarrow> pass_events L r nows req [GotDevice req (Inr dev), DeletedSecret (credential_of dev) e,
          UpdatedDevice (dev\<lparr>ed_Meta := lib_RemoveFinalizer L (ed_Meta dev) deviceFinalizer\<rparr>) e']"
| adopted: "om_DeletionTimestamp (ed_Meta dev) = None \<Longrightarrow> \<not> lib_ContainsFinalizer L (ed_Meta dev) deviceFinalizer
    \<Longrightarrow> pass_events L r nows req [GotDevice req (Inr dev), UpdatedDevice (dev\<lparr>ed_Meta := lib_AddFinalizer L (ed_Meta dev) deviceFinalizer\<rparr>) e']"
| steady: "om_DeletionTimestamp (ed_Meta dev) = None \<Longrightarrow> lib_ContainsFinalizer L (ed_Meta dev) deviceFinalizer
    \<Longrightarrow> secret_events dev es \<Longrightarrow> pass_events L r nows req (GotDevice req (Inr dev) # es)"
| projected: "om_DeletionTimestamp (ed_Meta dev) = None \<Longrightarrow> lib_ContainsFinalizer L (ed_Meta dev) deviceFinalizer
    \<Longrightarrow> secret_events dev es \<Longrightarrow> newStatus = fst (projectStatus L r nows dev) \<Longrightarrow> \<not> statusEqual L (ed_Status dev) newStatus
    \<Longrightarrow> pass_events L r nows req (GotDevice req (Inr dev) # es @ [UpdatedDeviceStatus (dev\<lparr>ed_Status := (ed_Status dev)\<lparr>eds_Phase := eds_Phase newStatus,
                                                         eds_Conditions := eds_Conditions newStatus\<rparr>\<rparr>) e'])"

definition condition_laws :: "Libs \<Rightarrow> bool" where
  "condition_laws L \<longleftrightarrow> condition_api (lib_find L) (lib_set L)"

text \<open>The heartbeat of a device is overdue at time \<open>now\<close>.\<close>

definition overdue :: "EdgeDeviceReconciler \<Rightarrow> int \<Rightarrow> int \<Rightarrow> bool" where
  "overdue r now t \<longleftrightarrow> time_Sub now t > timeout_of r"

text \<open>A concrete instance of the helpers: the agent's condition helpers, and finalizers as a list.\<close>

definition demo_libs :: Libs where
  "demo_libs = \<lparr>lib_find = find_type, lib_set = upsert, lib_ContainsFinalizer = (\<lambda>m f. f \<in> set (om_Finalizers m)),
     lib_AddFinalizer = (\<lambda>m f. m\<lparr>om_Finalizers := om_Finalizers m @ [f]\<rparr>),
     lib_RemoveFinalizer = (\<lambda>m f. m\<lparr>om_Finalizers := filter (\<lambda>x. x \<noteq> f) (om_Finalizers m)\<rparr>)\<rparr>"

definition demo_device :: EdgeDevice where
  "demo_device = \<lparr>ed_Meta = \<lparr>om_Name = ''dev-0'', om_Namespace = ''default'', om_UID = ''uid-1'', om_Generation = 3, om_Labels = Map.empty,
       om_Finalizers = [deviceFinalizer], om_DeletionTimestamp = None\<rparr>,
     ed_Spec = \<lparr>es_DesiredFirmwareVersion = ''v1'', es_FirmwareURL = ''u'', es_ChecksumSHA256 = ''c'', es_Region = [],
       es_DeviceLabels = Map.empty, es_RolloutPaused = False\<rparr>,
     ed_Status = \<lparr>eds_Phase = PhaseUnset, eds_Conditions = [], eds_CurrentFirmwareVersion = ''v1'', eds_ActiveSlot = ''A'',
       eds_LastHeartbeat = Some 0, eds_ObservedGeneration = 3\<rparr>\<rparr>"

definition demo_reconciler :: EdgeDeviceReconciler where
  "demo_reconciler = \<lparr>er_HeartbeatTimeout = 0\<rparr>"

definition demo_server :: "EdgeDevice \<Rightarrow> (api_error + Secret) \<Rightarrow> Server" where
  "demo_server dev sec = \<lparr>on_GetDevice = (\<lambda>_ _. Inr dev), on_UpdateDevice = (\<lambda>_ _. None), on_UpdateDeviceStatus = (\<lambda>_ _. None),
     on_GetSecret = (\<lambda>_ _. sec), on_CreateSecret = (\<lambda>_ _. None), on_UpdateSecret = (\<lambda>_ _. None), on_DeleteSecret = (\<lambda>_ _. None),
     on_GetRollout = (\<lambda>_ _. Inl ErrNotFound), on_ListDevices = (\<lambda>_ _ _. Inr []), on_ListRollouts = (\<lambda>_ _. Inr []),
     on_UpdateRolloutStatus = (\<lambda>_ _. None)\<rparr>"

definition dying_device :: EdgeDevice where
  "dying_device = demo_device\<lparr>ed_Meta := (ed_Meta demo_device)\<lparr>om_DeletionTimestamp := Some 7\<rparr>\<rparr>"

section \<open>Lemmas\<close>

subsection \<open>The events of a pass\<close>

lemma cond_types_distinct [simp]: "ConditionFirmwareSynced \<noteq> ConditionHealthy" "ConditionHealthy \<noteq> ConditionFirmwareSynced"
  by (simp_all add: ConditionFirmwareSynced_def ConditionHealthy_def)

lemma ensureCredentialSecret_events:
  "wpK (ensureCredentialSecret S bytes dev) (\<lambda>r h'. \<exists>es. h' = hist @ es \<and> secret_events dev es \<and> (r = Panicked \<or> (\<exists>e. r = Done e))) hist"
proof (cases "on_GetSecret S hist (credential_of dev)")
  case (Inl e)
  show ?thesis
  proof (cases "e = ErrNotFound")
    case True
    then show ?thesis unfolding ensureCredentialSecret_def Let_def credential_of_def[symmetric] client_defs
      by (simp add: wp_rules Inl) (rule secret_events.created, simp_all add: fresh_secret_def credential_of_def)
  next
    case False
    then show ?thesis unfolding ensureCredentialSecret_def Let_def credential_of_def[symmetric] client_defs
      by (simp add: wp_rules Inl secret_events.failed)
  qed
next
  case (Inr s)
  show ?thesis
  proof (cases "annotation s credFingerprintKey = om_UID (ed_Meta dev)")
    case True
    then show ?thesis unfolding ensureCredentialSecret_def Let_def credential_of_def[symmetric] client_defs
      by (simp add: wp_rules Inr secret_events.kept)
  next
    case False
    then show ?thesis unfolding ensureCredentialSecret_def Let_def credential_of_def[symmetric] client_defs
      by (cases "se_Annotations s") (simp_all add: wp_rules Inr secret_events.nil_map secret_events.rotated fresh_secret_def)
  qed
qed

inductive_simps secret_events_simps: "secret_events dev es"

inductive_cases pass_eventsE: "pass_events L r nows req es"

lemma IgnoreNotFound_None: "IgnoreNotFound e = None \<longleftrightarrow> e = None \<or> e = Some ErrNotFound"
  by (simp add: IgnoreNotFound_def)

lemma steady_pass:
  assumes "om_DeletionTimestamp (ed_Meta dev) = None" "lib_ContainsFinalizer L (ed_Meta dev) deviceFinalizer"
  shows "wpK (bindK (ensureCredentialSecret S bytes dev) (\<lambda>e. if e \<noteq> None then retK (result 0 e)
           else
             let (newStatus, requeueAfter) = projectStatus L r nows dev in
             if statusEqual L (ed_Status dev) newStatus then retK (result requeueAfter None)
             else bindK (UpdateDeviceStatus S (dev\<lparr>ed_Status := (ed_Status dev)\<lparr>eds_Phase := eds_Phase newStatus,
                                                         eds_Conditions := eds_Conditions newStatus\<rparr>\<rparr>)) (\<lambda>e.
                    if e \<noteq> None then retK (result 0 e) else retK (result requeueAfter None))))
     (\<lambda>_ h'. \<exists>es. h' = hist @ GotDevice req (Inr dev) # es \<and> pass_events L r nows req (GotDevice req (Inr dev) # es)) (hist @ [GotDevice req (Inr dev)])"
  unfolding wpK_bindK
proof (rule wpK_mono[OF ensureCredentialSecret_events], goal_cases)
  case (1 out h')
  then obtain es where h': "h' = (hist @ [GotDevice req (Inr dev)]) @ es" and es: "secret_events dev es"
    and out: "out = Panicked \<or> (\<exists>e. out = Done e)" by blast
  have st: "\<exists>es'. h' = hist @ GotDevice req (Inr dev) # es' \<and> pass_events L r nows req (GotDevice req (Inr dev) # es')"
    using pass_events.steady[OF assms es] h' by auto
  have pr: "\<exists>es'. h' @ [UpdatedDeviceStatus (dev\<lparr>ed_Status := (ed_Status dev)\<lparr>eds_Phase := eds_Phase n, eds_Conditions := eds_Conditions n\<rparr>\<rparr>) e]
      = hist @ GotDevice req (Inr dev) # es' \<and> pass_events L r nows req (GotDevice req (Inr dev) # es')"
    if "\<not> statusEqual L (ed_Status dev) n" "n = fst (projectStatus L r nows dev)" for n e
    using pass_events.projected[OF assms es that(2,1), where e' = e] h' by auto
  show ?case
    using out st pr by (auto simp: wp_rules UpdateDeviceStatus_def Let_def split: prod.splits)
qed

lemma Reconcile_events:
  "\<exists>es. snd (Reconcile S L r nows bytes req hist) = hist @ es \<and> pass_events L r nows req es \<and> hd es = GotDevice req (on_GetDevice S hist req)"
proof -
  have "wpK (Reconcile S L r nows bytes req) (\<lambda>_ h'. \<exists>es. h' = hist @ es \<and> pass_events L r nows req es \<and> hd es = GotDevice req (on_GetDevice S hist req)) hist"
  proof (cases "on_GetDevice S hist req")
    case (Inl e)
    then show ?thesis by (simp add: Reconcile_def GetDevice_def wp_rules pass_events.gone)
  next
    case (Inr dev)
    show ?thesis
    proof (cases "om_DeletionTimestamp (ed_Meta dev) = None \<and> lib_ContainsFinalizer L (ed_Meta dev) deviceFinalizer")
      case True
      with Inr steady_pass[of dev L S bytes r nows hist req] show ?thesis
        unfolding Reconcile_def wpK_bindK[of "GetDevice S req"] unfolding GetDevice_def wpK_callK
        by (auto elim!: wpK_mono)
    next
      case False
      with Inr show ?thesis
        by (auto simp: Reconcile_def client_defs revokeCredential_def wp_rules IgnoreNotFound_def credential_of_def[symmetric]
            intro: pass_events.released pass_events.held pass_events.revoked pass_events.adopted)
    qed
  qed
  then show ?thesis by (simp add: wpK_run)
qed

lemma demo_libs_laws: "condition_laws demo_libs" "finalizer_laws demo_libs"
  using agent_conditions.condition_api_axioms by (auto simp: condition_laws_def finalizer_laws_def demo_libs_def)

lemma find_lib_set: "condition_laws L \<Longrightarrow> lib_find L (lib_set L now c cs) t =
     (if t = c_Type c then Some (c\<lparr>c_LastTransitionTime :=
           (case lib_find L cs t of
              Some old \<Rightarrow> if c_Status old = c_Status c then c_LastTransitionTime old else now
            | None \<Rightarrow> now)\<rparr>) else lib_find L cs t)"
  unfolding condition_laws_def by (rule condition_api.find_set)

lemma projectStatus_again:
  assumes L: "condition_laws L" and dev': "dev' = dev\<lparr>ed_Status := fst (projectStatus L r nows dev)\<rparr>"
    and same: "\<And>t. eds_LastHeartbeat (ed_Status dev) = Some t \<Longrightarrow> overdue r (nows' 0) t = overdue r (nows 0) t"
  shows "statusEqual L (ed_Status dev') (fst (projectStatus L r nows' dev'))"
proof (cases "eds_LastHeartbeat (ed_Status dev)")
  case None
  then show ?thesis using L by (simp add: dev' projectStatus_def Let_def statusEqual_def find_lib_set)
next
  case (Some t)
  with same[of t] L show ?thesis by (auto simp: dev' projectStatus_def Let_def statusEqual_def find_lib_set overdue_def)
qed

section \<open>Properties\<close>

text \<open>The phase tells the truth: a device is Provisioning exactly when it never reported, Degraded
  exactly when its heartbeat is overdue or its agent reports a failed transaction, Ready exactly
  when the heartbeat is fresh, no failure is reported and it runs the desired version, and
  Upgrading in the remaining case.\<close>

theorem projectStatus_phase:
  "(case eds_LastHeartbeat (ed_Status dev) of
      None \<Rightarrow> eds_Phase (fst (projectStatus L r nows dev)) = PhaseProvisioning
    | Some t \<Rightarrow>
        let failed = reports_failure (lib_find L (eds_Conditions (ed_Status dev)) ConditionFirmwareSynced);
            synced = eds_CurrentFirmwareVersion (ed_Status dev) = es_DesiredFirmwareVersion (ed_Spec dev);
            late = overdue r (nows 0) t; phase = eds_Phase (fst (projectStatus L r nows dev))
        in (phase = PhaseDegraded \<longleftrightarrow> late \<or> failed) \<and> (phase = PhaseReady \<longleftrightarrow> \<not> late \<and> \<not> failed \<and> synced) \<and>
           (phase = PhaseUpgrading \<longleftrightarrow> \<not> late \<and> \<not> failed \<and> \<not> synced))"
  by (auto simp: projectStatus_def Let_def overdue_def split: option.splits)

text \<open>C39. Writer discipline: the projection changes nothing of the status but the phase and the Healthy
  condition. Every fact the agent reported and every condition of another type reads back
  unchanged.\<close>

theorem projectStatus_writes_only_own_fields:
  assumes "condition_laws L" "t \<noteq> ConditionHealthy"
  shows "lib_find L (eds_Conditions (fst (projectStatus L r nows dev))) t = lib_find L (eds_Conditions (ed_Status dev)) t \<and>
    (fst (projectStatus L r nows dev))\<lparr>eds_Phase := eds_Phase (ed_Status dev), eds_Conditions := eds_Conditions (ed_Status dev)\<rparr> = ed_Status dev"
  using assms by (auto simp: projectStatus_def Let_def find_lib_set split: option.splits)

theorem projectStatus_writes_only_own_fields_witness:
  "let c = \<lparr>c_Type = ConditionFirmwareSynced, c_Status = ''False'', c_ObservedGeneration = 3, c_LastTransitionTime = 1, c_Reason = ''UpgradeInProgress'', c_Message = []\<rparr>;
       dev = demo_device\<lparr>ed_Status := (ed_Status demo_device)\<lparr>eds_Conditions := [c]\<rparr>\<rparr>; st = fst (projectStatus demo_libs demo_reconciler (\<lambda>_. 5) dev)
   in eds_Phase st = PhaseReady \<and> lib_find demo_libs (eds_Conditions st) ConditionFirmwareSynced = Some c \<and> eds_LastHeartbeat st = Some 0"
proof -
  let ?c = "\<lparr>c_Type = ConditionFirmwareSynced, c_Status = ''False'', c_ObservedGeneration = 3, c_LastTransitionTime = 1, c_Reason = ''UpgradeInProgress'', c_Message = []\<rparr>"
  let ?dev = "demo_device\<lparr>ed_Status := (ed_Status demo_device)\<lparr>eds_Conditions := [?c]\<rparr>\<rparr>"
  have n: "ConditionFirmwareSynced \<noteq> ConditionHealthy" by (simp add: ConditionFirmwareSynced_def ConditionHealthy_def)
  have p: "eds_Phase (fst (projectStatus demo_libs demo_reconciler (\<lambda>_. 5) ?dev)) = PhaseReady" "eds_LastHeartbeat (fst (projectStatus demo_libs demo_reconciler (\<lambda>_. 5) ?dev)) = Some 0"
    by (simp_all add: projectStatus_def Let_def timeout_of_def demo_reconciler_def defaultHeartbeatTimeout_def second_def demo_device_def demo_libs_def reports_failure_def find_type_def time_Sub_def max_int64_def min_int64_def)
  show ?thesis
    using projectStatus_writes_only_own_fields[OF demo_libs_laws(1) n, of demo_reconciler "\<lambda>_. 5" ?dev] p
    by (simp add: Let_def) (simp add: demo_libs_def find_type_def)
qed

text \<open>The first gate closes: once a projection has been written, projecting again (at any later
  time at which the heartbeat has the same freshness) compares equal, so no further status write
  is made and the controller does not wake itself up by its own writes.\<close>

theorem projection_written_once:
  assumes "condition_laws L" "dev' = dev\<lparr>ed_Status := fst (projectStatus L r nows dev)\<rparr>"
    and "\<forall>t. eds_LastHeartbeat (ed_Status dev) = Some t \<longrightarrow> overdue r (nows' 0) t = overdue r (nows 0) t"
    and "on_GetDevice S hist req = Inr dev'"
  shows "\<forall>d e. UpdatedDeviceStatus d e \<notin> set (drop (length hist) (snd (Reconcile S L r nows' bytes req hist)))"
proof -
  have eq: "statusEqual L (ed_Status dev') (fst (projectStatus L r nows' dev'))"
    using projectStatus_again[OF assms(1,2)] assms(3) by blast
  obtain es where es: "snd (Reconcile S L r nows' bytes req hist) = hist @ es" "pass_events L r nows' req es" "hd es = GotDevice req (Inr dev')"
    using Reconcile_events[of S L r nows' bytes req hist] assms(4) by auto
  from es(2,3) eq have "\<forall>d e. UpdatedDeviceStatus d e \<notin> set es"
    by (auto elim!: pass_eventsE secret_events.cases)
  with es(1) show ?thesis by simp
qed

theorem projection_written_once_witness:
  "\<forall>d e. UpdatedDeviceStatus d e \<notin> set (snd (Reconcile
      (demo_server (demo_device\<lparr>ed_Status := fst (projectStatus demo_libs demo_reconciler (\<lambda>_. 5) demo_device)\<rparr>) (Inl ErrNotFound))
      demo_libs demo_reconciler (\<lambda>_. 9) ''r'' (''default'', ''dev-0'') []))"
  using projection_written_once[OF demo_libs_laws(1) refl, of demo_device demo_reconciler "\<lambda>_. 9" "\<lambda>_. 5"
      "demo_server (demo_device\<lparr>ed_Status := fst (projectStatus demo_libs demo_reconciler (\<lambda>_. 5) demo_device)\<rparr>) (Inl ErrNotFound)" "[]" "(''default'', ''dev-0'')" "''r''"]
  by (simp add: demo_server_def demo_device_def overdue_def timeout_of_def demo_reconciler_def time_Sub_def min_int64_def max_int64_def defaultHeartbeatTimeout_def second_def)

text \<open>C32. A heartbeat that is fresh now is looked at again in time: the requeue delay of the projection
  ends one second after the heartbeat becomes overdue, neither earlier than the deadline nor
  later, so that a device that goes silent is Degraded by then.\<close>

theorem requeue_meets_deadline:
  assumes hb: "eds_LastHeartbeat (ed_Status dev) = Some t" and fresh: "\<not> overdue r (nows 0) t"
    and to: "0 < timeout_of r" "timeout_of r < 2 ^ 62" and n: "t \<le> nows 1" "nows 1 - t \<le> timeout_of r"
  shows "let q = snd (projectStatus L r nows dev) in
    0 < q \<and> overdue r (nows 1 + q) t \<and> \<not> overdue r (nows 1 + q - second) t \<and>
    (\<forall>nows'. nows' 0 \<ge> nows 1 + q \<longrightarrow> eds_Phase (fst (projectStatus L r nows' dev)) = PhaseDegraded)"
proof -
  have age: "time_Sub (nows 1) t = nows 1 - t" using n to by (intro time_Sub_exact) (auto simp: min_int64_def max_int64_def)
  have rem: "wrap64 (wrap64 (timeout_of r - (nows 1 - t)) + second) = timeout_of r - (nows 1 - t) + second"
    using n to by (subst wrap64_id; (subst wrap64_id)?) (auto simp: second_def)
  have q: "snd (projectStatus L r nows dev) = timeout_of r - (nows 1 - t) + second"
    using hb fresh n to by (simp add: projectStatus_def Let_def overdue_def age rem del: One_nat_def) (simp add: second_def)
  have late: "overdue r x t \<longleftrightarrow> timeout_of r < x - t" for x
    using to by (simp add: overdue_def time_Sub_gt max_int64_def)
  have deg: "eds_Phase (fst (projectStatus L r nows' dev)) = PhaseDegraded" if "overdue r (nows' 0) t" for nows'
    using that hb by (simp add: projectStatus_def Let_def overdue_def)
  show ?thesis unfolding Let_def q using n deg by (auto simp: late second_def)
qed

theorem requeue_meets_deadline_witness:
  "snd (projectStatus demo_libs demo_reconciler (\<lambda>_. 5) demo_device) > 0"
  using requeue_meets_deadline[of demo_device 0 demo_reconciler "\<lambda>_. 5" demo_libs]
  by (simp add: Let_def demo_device_def overdue_def timeout_of_def demo_reconciler_def time_Sub_def min_int64_def max_int64_def defaultHeartbeatTimeout_def second_def)

text \<open>C20. Revocation comes before release: whenever a pass writes a device without the finalizer, it
  has read the device as being deleted, has then deleted its credential Secret with success (or
  found it gone), and makes this write last.\<close>

theorem finalizer_removed_after_revocation:
  assumes "finalizer_laws L" "snd (Reconcile S L r nows bytes req hist) = hist @ es"
    and "UpdatedDevice d e \<in> set es" "\<not> lib_ContainsFinalizer L (ed_Meta d) deviceFinalizer"
  shows "\<exists>dev e'. es = [GotDevice req (Inr dev), DeletedSecret (credential_of dev) e', UpdatedDevice d e]
    \<and> (e' = None \<or> e' = Some ErrNotFound) \<and> om_DeletionTimestamp (ed_Meta dev) \<noteq> None"
proof -
  have "pass_events L r nows req es" using Reconcile_events[of S L r nows bytes req hist] assms(2) by auto
  then show ?thesis using assms(1,3,4)
    by (cases rule: pass_events.cases) (auto simp: finalizer_laws_def elim: secret_events.cases)
qed

theorem finalizer_removed_after_revocation_witness:
  "\<exists>dev e'. snd (Reconcile (demo_server dying_device (Inl ErrNotFound)) demo_libs demo_reconciler (\<lambda>_. 9) ''r'' (''default'', ''dev-0'') []) =
     [GotDevice (''default'', ''dev-0'') (Inr dev), DeletedSecret (credential_of dev) e',
      UpdatedDevice (dying_device\<lparr>ed_Meta := (ed_Meta dying_device)\<lparr>om_Finalizers := []\<rparr>\<rparr>) None]"
proof -
  let ?es = "snd (Reconcile (demo_server dying_device (Inl ErrNotFound)) demo_libs demo_reconciler (\<lambda>_. 9) ''r'' (''default'', ''dev-0'') [])"
  have m: "UpdatedDevice (dying_device\<lparr>ed_Meta := (ed_Meta dying_device)\<lparr>om_Finalizers := []\<rparr>\<rparr>) None \<in> set ?es"
    by (simp add: Reconcile_def revokeCredential_def client_defs bindK_def callK_def retK_def demo_server_def dying_device_def demo_device_def demo_libs_def
        IgnoreNotFound_def Let_def)
  have "\<not> lib_ContainsFinalizer demo_libs (ed_Meta (dying_device\<lparr>ed_Meta := (ed_Meta dying_device)\<lparr>om_Finalizers := []\<rparr>\<rparr>)) deviceFinalizer"
    by (simp add: demo_libs_def)
  from finalizer_removed_after_revocation[OF demo_libs_laws(2) _ m this, where hist = "[]"
      and S = "demo_server dying_device (Inl ErrNotFound)" and r = demo_reconciler and nows = "\<lambda>_. 9" and bytes = "''r''" and req = "(''default'', ''dev-0'')"]
  show ?thesis by auto
qed

text \<open>C37. No credential without a finalizer: a pass creates or rotates a Secret only for a device it has
  read as carrying the finalizer and not being deleted, and the Secret it writes bears the
  fingerprint of that very instance; one that already does is never written.\<close>

theorem credential_only_under_finalizer:
  assumes "snd (Reconcile S L r nows bytes req hist) = hist @ es" "CreatedSecret s e \<in> set es \<or> UpdatedSecret s e \<in> set es"
  shows "\<exists>dev. hd es = GotDevice req (Inr dev) \<and> lib_ContainsFinalizer L (ed_Meta dev) deviceFinalizer \<and>
    om_DeletionTimestamp (ed_Meta dev) = None \<and> annotation s credFingerprintKey = om_UID (ed_Meta dev) \<and>
    (\<forall>s0. GotSecret (credential_of dev) (Inr s0) \<in> set es \<longrightarrow> annotation s0 credFingerprintKey \<noteq> om_UID (ed_Meta dev))"
proof -
  have "pass_events L r nows req es" using Reconcile_events[of S L r nows bytes req hist] assms(1) by auto
  then show ?thesis using assms(2)
    by (cases rule: pass_events.cases) (auto elim!: secret_events.cases simp: fresh_secret_def annotation_def)
qed

theorem credential_only_under_finalizer_witness:
  "\<exists>s. CreatedSecret s None \<in> set (snd (Reconcile (demo_server demo_device (Inl ErrNotFound)) demo_libs demo_reconciler (\<lambda>_. 9) ''r'' (''default'', ''dev-0'') []))
     \<and> annotation s credFingerprintKey = ''uid-1''"
proof -
  let ?S = "demo_server demo_device (Inl ErrNotFound)"
  let ?es = "snd (Reconcile ?S demo_libs demo_reconciler (\<lambda>_. 9) ''r'' (''default'', ''dev-0'') [])"
  obtain s where s: "CreatedSecret s None \<in> set ?es"
    by (auto simp: Reconcile_def ensureCredentialSecret_def client_defs bindK_def callK_def retK_def demo_server_def demo_device_def demo_libs_def
        IgnoreAlreadyExists_def Let_def split: prod.splits)
  have h: "hd ?es = GotDevice (''default'', ''dev-0'') (Inr demo_device)"
    using Reconcile_events[of ?S demo_libs demo_reconciler "\<lambda>_. 9" "''r''" "(''default'', ''dev-0'')" "[]"] by (auto simp: demo_server_def)
  have "annotation s credFingerprintKey = ''uid-1''"
    using credential_only_under_finalizer[of ?S demo_libs demo_reconciler "\<lambda>_. 9" "''r''" "(''default'', ''dev-0'')" "[]" ?es s None] s h
    by (auto simp: demo_device_def)
  with s show ?thesis by blast
qed

text \<open>A Secret of the device's name that has no annotations at all makes the pass panic: the code
  assigns to the nil annotation map. Every later pass panics again, so the device is never
  projected.\<close>

theorem nil_annotations_panic:
  assumes "on_GetDevice S hist req = Inr dev" "om_DeletionTimestamp (ed_Meta dev) = None"
    and "lib_ContainsFinalizer L (ed_Meta dev) deviceFinalizer" "om_UID (ed_Meta dev) \<noteq> []"
    and "\<And>h. on_GetSecret S h (credential_of dev) = Inr s" "se_Annotations s = None"
  shows "fst (Reconcile S L r nows bytes req hist) = Panicked"
  using assms by (simp add: Reconcile_def ensureCredentialSecret_def client_defs bindK_def callK_def panicK_def Let_def credential_of_def annotation_def)

theorem nil_annotations_panic_witness:
  "fst (Reconcile (demo_server demo_device (Inr \<lparr>se_Name = ''device-cred-dev-0'', se_Namespace = ''default'', se_Annotations = None,
      se_Labels = Map.empty, se_Data = Map.empty\<rparr>)) demo_libs demo_reconciler (\<lambda>_. 9) ''r'' (''default'', ''dev-0'') []) = Panicked"
  by (rule nil_annotations_panic[where dev = demo_device and s = "\<lparr>se_Name = ''device-cred-dev-0'', se_Namespace = ''default'', se_Annotations = None,
      se_Labels = Map.empty, se_Data = Map.empty\<rparr>"]) (simp_all add: demo_server_def demo_device_def demo_libs_def)

end
