(* ===== verification/Rollout_Controller.thy ===== *)
theory Rollout_Controller
  imports Device_Controller
begin

text \<open>
  The rollout controller of \<open>internal/controller/fleetrollout_controller.go\<close>: the fleet arithmetic
  in 32-bit integers, the circuit breaker, the top-up of the batch, the status gate, and the map
  from a device event to the rollouts that select it.

  The listing is sorted by name; names are unique within a namespace, so the order does not depend
  on the sorting algorithm. A selector is a list of its key/value pairs.
\<close>

definition deviceFailed :: "Libs \<Rightarrow> EdgeDevice \<Rightarrow> bool" where
  "deviceFailed L dev =
     (if eds_Phase (ed_Status dev) = PhaseDegraded then True
      else reports_failure (lib_find L (eds_Conditions (ed_Status dev)) ConditionFirmwareSynced))"

record tally =
  ta_targeted :: int
  ta_succeeded :: int
  ta_failed :: int
  ta_untargeted :: "EdgeDevice list"

definition tally_step :: "Libs \<Rightarrow> FleetRollout \<Rightarrow> EdgeDevice \<Rightarrow> tally \<Rightarrow> tally" where
  "tally_step L ro dev t =
     (if eds_CurrentFirmwareVersion (ed_Status dev) = fs_TargetVersion (fr_Spec ro) then
        t\<lparr>ta_targeted := wrap32 (ta_targeted t + 1), ta_succeeded := wrap32 (ta_succeeded t + 1)\<rparr>
      else if es_DesiredFirmwareVersion (ed_Spec dev) \<noteq> fs_TargetVersion (fr_Spec ro) then
        t\<lparr>ta_untargeted := ta_untargeted t @ [dev]\<rparr>
      else
        (let t = t\<lparr>ta_targeted := wrap32 (ta_targeted t + 1)\<rparr>
         in if deviceFailed L dev then t\<lparr>ta_failed := wrap32 (ta_failed t + 1)\<rparr> else t))"

definition tally_fleet :: "Libs \<Rightarrow> FleetRollout \<Rightarrow> EdgeDevice list \<Rightarrow> tally" where
  "tally_fleet L ro devs = fold (tally_step L ro) devs \<lparr>ta_targeted = 0, ta_succeeded = 0, ta_failed = 0, ta_untargeted = []\<rparr>"

definition in_flight :: "tally \<Rightarrow> int" where
  "in_flight t = wrap32 (wrap32 (ta_targeted t - ta_succeeded t) - ta_failed t)"

definition breaker_tripped :: "FleetRollout \<Rightarrow> tally \<Rightarrow> bool" where
  "breaker_tripped ro t \<longleftrightarrow> ta_targeted t > 0 \<and>
     wrap32 (ta_failed t * 100) \<ge> wrap32 (fs_FailureThresholdPercent (fr_Spec ro) * ta_targeted t)"

definition pause_device :: "EdgeDevice \<Rightarrow> EdgeDevice" where
  "pause_device dev = dev\<lparr>ed_Spec := (ed_Spec dev)\<lparr>es_RolloutPaused := True\<rparr>\<rparr>"

definition target_device :: "FleetRollout \<Rightarrow> EdgeDevice \<Rightarrow> EdgeDevice" where
  "target_device ro dev = dev\<lparr>ed_Spec := (ed_Spec dev)\<lparr>es_DesiredFirmwareVersion := fs_TargetVersion (fr_Spec ro),
     es_FirmwareURL := fs_FirmwareURL (fr_Spec ro), es_ChecksumSHA256 := fs_ChecksumSHA256 (fr_Spec ro)\<rparr>\<rparr>"

fun freeze_loop :: "Server \<Rightarrow> EdgeDevice list \<Rightarrow> api_error option call" where
  "freeze_loop S [] = retK None"
| "freeze_loop S (dev # devs) =
     (if \<not> es_RolloutPaused (ed_Spec dev) then
        bindK (UpdateDevice S (pause_device dev)) (\<lambda>e. if e \<noteq> None then retK e else freeze_loop S devs)
      else freeze_loop S devs)"

text \<open>The top-up loop carries the capacity and the counter of targeted devices.\<close>

fun top_up_loop :: "Server \<Rightarrow> FleetRollout \<Rightarrow> int \<Rightarrow> int \<Rightarrow> EdgeDevice list \<Rightarrow> (api_error + int) call" where
  "top_up_loop S ro capacity targeted [] = retK (Inr targeted)"
| "top_up_loop S ro capacity targeted (dev # devs) =
     (if capacity \<le> 0 then retK (Inr targeted)
      else if es_RolloutPaused (ed_Spec dev) then top_up_loop S ro capacity targeted devs
      else bindK (UpdateDevice S (target_device ro dev)) (\<lambda>e. case e of
             Some e \<Rightarrow> retK (Inl e)
           | None \<Rightarrow> top_up_loop S ro (wrap32 (capacity - 1)) (wrap32 (targeted + 1)) devs))"

definition rolloutStatusEqual :: "Libs \<Rightarrow> FleetRolloutStatus \<Rightarrow> FleetRolloutStatus \<Rightarrow> bool" where
  "rolloutStatusEqual L a b =
     (if fst_Phase a \<noteq> fst_Phase b \<or> fst_Selected a \<noteq> fst_Selected b \<or> fst_Targeted a \<noteq> fst_Targeted b \<or>
         fst_Succeeded a \<noteq> fst_Succeeded b \<or> fst_Failed a \<noteq> fst_Failed b \<or> fst_ObservedGeneration a \<noteq> fst_ObservedGeneration b
      then False
      else case (lib_find L (fst_Conditions a) ConditionBreakerTripped, lib_find L (fst_Conditions b) ConditionBreakerTripped) of
             (None, None) \<Rightarrow> True
           | (Some ca, Some cb) \<Rightarrow> c_Status ca = c_Status cb \<and> c_Reason ca = c_Reason cb
           | _ \<Rightarrow> False)"

definition breaker_condition :: "FleetRollout \<Rightarrow> bool \<Rightarrow> int Condition" where
  "breaker_condition ro tripped =
     (let cond = \<lparr>c_Type = ConditionBreakerTripped, c_Status = CondFalse, c_ObservedGeneration = om_Generation (fr_Meta ro),
                  c_LastTransitionTime = 0, c_Reason = ''Healthy'', c_Message = ''failure rate below threshold''\<rparr>
      in if tripped then cond\<lparr>c_Status := CondTrue, c_Reason := ''FailureRateExceeded'',
                              c_Message := ''rollout halted; fix the cause and unpause devices to resume''\<rparr> else cond)"

definition newRolloutStatus ::
  "Libs \<Rightarrow> int \<Rightarrow> FleetRollout \<Rightarrow> RolloutPhase \<Rightarrow> nat \<Rightarrow> int \<Rightarrow> tally \<Rightarrow> bool \<Rightarrow> FleetRolloutStatus" where
  "newRolloutStatus L now ro phase selected targeted t tripped =
     (fr_Status ro)\<lparr>fst_Phase := phase, fst_Selected := wrap32 (int selected), fst_Targeted := targeted,
        fst_Succeeded := ta_succeeded t, fst_Failed := ta_failed t, fst_ObservedGeneration := om_Generation (fr_Meta ro),
        fst_Conditions := lib_set L now (breaker_condition ro tripped) (fst_Conditions (fr_Status ro))\<rparr>"

text \<open>The diff-gated status write at the end of a pass.\<close>

definition write_status :: "Server \<Rightarrow> Libs \<Rightarrow> FleetRollout \<Rightarrow> FleetRolloutStatus \<Rightarrow> Result call" where
  "write_status S L ro newStatus =
     (if \<not> rolloutStatusEqual L (fr_Status ro) newStatus then
        bindK (UpdateRolloutStatus S (ro\<lparr>fr_Status := newStatus\<rparr>)) (\<lambda>e.
          if e \<noteq> None then retK (result 0 e) else retK (result (30 * second) None))
      else retK (result (30 * second) None))"

definition Rollout_Reconcile :: "Server \<Rightarrow> Libs \<Rightarrow> int \<Rightarrow> key \<Rightarrow> Result call" where
  "Rollout_Reconcile S L now req =
     bindK (GetRollout S req) (\<lambda>g. case g of
       Inl e \<Rightarrow> retK (result 0 (IgnoreNotFound (Some e)))
     | Inr ro \<Rightarrow>
         bindK (ListDevices S (om_Namespace (fr_Meta ro)) (fs_Selector (fr_Spec ro))) (\<lambda>l. case l of
           Inl e \<Rightarrow> retK (result 0 (Some e))
         | Inr items \<Rightarrow>
             let devs = sort_key (\<lambda>d. om_Name (ed_Meta d)) items;
                 t = tally_fleet L ro devs;
                 tripped = breaker_tripped ro t
             in if tripped then
                  bindK (freeze_loop S devs) (\<lambda>e. if e \<noteq> None then retK (result 0 e)
                  else write_status S L ro (newRolloutStatus L now ro RolloutPaused (length devs) (ta_targeted t) t True))
                else if devs \<noteq> [] \<and> ta_succeeded t = wrap32 (int (length devs)) then
                  write_status S L ro (newRolloutStatus L now ro RolloutComplete (length devs) (ta_targeted t) t False)
                else
                  bindK (top_up_loop S ro (wrap32 (fs_MaxUnavailable (fr_Spec ro) - in_flight t)) (ta_targeted t) (ta_untargeted t)) (\<lambda>r.
                    case r of
                      Inl e \<Rightarrow> retK (result 0 (Some e))
                    | Inr targeted \<Rightarrow>
                        write_status S L ro (newRolloutStatus L now ro RolloutProgressing (length devs) targeted t False))))"

definition selects :: "(string \<times> string) list \<Rightarrow> (string \<rightharpoonup> string) \<Rightarrow> bool" where
  "selects sel labels \<longleftrightarrow> sel \<noteq> [] \<and> list_all (\<lambda>(k, v). (case labels k of None \<Rightarrow> [] | Some x \<Rightarrow> x) = v) sel"

definition rolloutsForDevice :: "Server \<Rightarrow> EdgeDevice \<Rightarrow> key list call" where
  "rolloutsForDevice S obj =
     bindK (ListRollouts S (om_Namespace (ed_Meta obj))) (\<lambda>r. case r of
       Inl _ \<Rightarrow> retK []
     | Inr ros \<Rightarrow>
         retK (map (\<lambda>ro. (om_Namespace (fr_Meta ro), om_Name (fr_Meta ro)))
                (filter (\<lambda>ro. selects (fs_Selector (fr_Spec ro)) (om_Labels (ed_Meta obj))) ros)))"

text \<open>The classes of devices that the arithmetic counts.\<close>

definition reached :: "FleetRollout \<Rightarrow> EdgeDevice \<Rightarrow> bool" where
  "reached ro d \<longleftrightarrow> eds_CurrentFirmwareVersion (ed_Status d) = fs_TargetVersion (fr_Spec ro)"

definition pending :: "FleetRollout \<Rightarrow> EdgeDevice \<Rightarrow> bool" where
  "pending ro d \<longleftrightarrow> \<not> reached ro d \<and> es_DesiredFirmwareVersion (ed_Spec d) = fs_TargetVersion (fr_Spec ro)"

definition untouched :: "FleetRollout \<Rightarrow> EdgeDevice \<Rightarrow> bool" where
  "untouched ro d \<longleftrightarrow> \<not> reached ro d \<and> \<not> pending ro d"

definition count :: "('a \<Rightarrow> bool) \<Rightarrow> 'a list \<Rightarrow> int" where
  "count P xs = int (length (filter P xs))"

text \<open>The calls made by a loop that updates the devices \<open>ds\<close> one by one and stops at the first error.\<close>

fun update_events :: "(EdgeDevice \<Rightarrow> EdgeDevice) \<Rightarrow> EdgeDevice list \<Rightarrow> event list \<Rightarrow> api_error option \<Rightarrow> bool" where
  "update_events f [] es r \<longleftrightarrow> es = [] \<and> r = None"
| "update_events f (d # ds) es r \<longleftrightarrow>
     (\<exists>e es'. es = UpdatedDevice (f d) e # es' \<and> (if e \<noteq> None then es' = [] \<and> r = e else update_events f ds es' r))"

text \<open>A pass that reads the rollout \<open>ro\<close> and the listing \<open>items\<close>.\<close>

definition reads_fleet :: "Server \<Rightarrow> history \<Rightarrow> key \<Rightarrow> FleetRollout \<Rightarrow> EdgeDevice list \<Rightarrow> bool" where
  "reads_fleet S hist req ro items \<longleftrightarrow> on_GetRollout S hist req = Inr ro \<and>
     on_ListDevices S (hist @ [GotRollout req (Inr ro)]) (om_Namespace (fr_Meta ro)) (fs_Selector (fr_Spec ro)) = Inr items"

definition fleet :: "EdgeDevice list \<Rightarrow> EdgeDevice list" where
  "fleet items = sort_key (\<lambda>d. om_Name (ed_Meta d)) items"

definition rollout_phase :: "Libs \<Rightarrow> FleetRollout \<Rightarrow> EdgeDevice list \<Rightarrow> RolloutPhase" where
  "rollout_phase L ro devs =
     (if breaker_tripped ro (tally_fleet L ro devs) then RolloutPaused
      else if devs \<noteq> [] \<and> ta_succeeded (tally_fleet L ro devs) = wrap32 (int (length devs)) then RolloutComplete
      else RolloutProgressing)"

definition unpaused :: "EdgeDevice \<Rightarrow> bool" where
  "unpaused d \<longleftrightarrow> \<not> es_RolloutPaused (ed_Spec d)"

text \<open>The next slice of the batch: by name, at most the free capacity, paused devices skipped.\<close>

definition next_batch :: "Libs \<Rightarrow> FleetRollout \<Rightarrow> EdgeDevice list \<Rightarrow> EdgeDevice list" where
  "next_batch L ro devs = take (nat (fs_MaxUnavailable (fr_Spec ro) - in_flight (tally_fleet L ro devs))) (filter unpaused (filter (untouched ro) devs))"

text \<open>The status a pass computes after the device writes \<open>us\<close>, and the gated write of it.\<close>

definition pass_status :: "Libs \<Rightarrow> int \<Rightarrow> FleetRollout \<Rightarrow> EdgeDevice list \<Rightarrow> event list \<Rightarrow> FleetRolloutStatus" where
  "pass_status L now ro devs us =
     (let t = tally_fleet L ro devs; ph = rollout_phase L ro devs
      in newRolloutStatus L now ro ph (length devs) (ta_targeted t + (if ph = RolloutProgressing then int (length us) else 0)) t (ph = RolloutPaused))"

definition status_events :: "Libs \<Rightarrow> FleetRollout \<Rightarrow> FleetRolloutStatus \<Rightarrow> event list \<Rightarrow> bool" where
  "status_events L ro st ss \<longleftrightarrow>
     (if rolloutStatusEqual L (fr_Status ro) st then ss = [] else \<exists>e. ss = [UpdatedRolloutStatus (ro\<lparr>fr_Status := st\<rparr>) e])"

definition pass_updates :: "Libs \<Rightarrow> FleetRollout \<Rightarrow> EdgeDevice list \<Rightarrow> event list \<Rightarrow> api_error option \<Rightarrow> bool" where
  "pass_updates L ro devs us e \<longleftrightarrow> (case rollout_phase L ro devs of
       RolloutPaused \<Rightarrow> update_events pause_device (filter unpaused devs) us e
     | RolloutComplete \<Rightarrow> us = [] \<and> e = None
     | _ \<Rightarrow> update_events (target_device ro) (next_batch L ro devs) us e)"

definition demo_rollout :: FleetRollout where
  "demo_rollout = \<lparr>fr_Meta = \<lparr>om_Name = ''ro'', om_Namespace = ''default'', om_UID = ''uid-9'', om_Generation = 1, om_Labels = Map.empty,
       om_Finalizers = [], om_DeletionTimestamp = None\<rparr>,
     fr_Spec = \<lparr>fs_Selector = [(''tier'', ''edge'')], fs_TargetVersion = ''v2'', fs_FirmwareURL = ''u2'', fs_ChecksumSHA256 = ''c2'',
       fs_MaxUnavailable = 1, fs_FailureThresholdPercent = 50\<rparr>,
     fr_Status = \<lparr>fst_Phase = RolloutUnset, fst_Selected = 0, fst_Targeted = 0, fst_Succeeded = 0, fst_Failed = 0,
       fst_Conditions = [], fst_ObservedGeneration = 0\<rparr>\<rparr>"

definition fleet_server :: "FleetRollout \<Rightarrow> EdgeDevice list \<Rightarrow> Server" where
  "fleet_server ro devs = (demo_server demo_device (Inl ErrNotFound))\<lparr>on_GetRollout := \<lambda>_ _. Inr ro, on_ListDevices := \<lambda>_ _ _. Inr devs\<rparr>"

definition named_device :: "string \<Rightarrow> EdgeDevice" where
  "named_device n = demo_device\<lparr>ed_Meta := (ed_Meta demo_device)\<lparr>om_Name := n\<rparr>\<rparr>"

text \<open>The fleet after the writes of a pass: a device is replaced by the first object that was
  successfully written under its name.\<close>

fun written :: "history \<Rightarrow> EdgeDevice list" where
  "written [] = []"
| "written (UpdatedDevice d None # es) = d # written es"
| "written (_ # es) = written es"

definition after_writes :: "history \<Rightarrow> EdgeDevice \<Rightarrow> EdgeDevice" where
  "after_writes es d = (case List.find (\<lambda>d'. om_Name (ed_Meta d') = om_Name (ed_Meta d)) (written es) of None \<Rightarrow> d | Some d' \<Rightarrow> d')"

definition flying :: "Libs \<Rightarrow> FleetRollout \<Rightarrow> EdgeDevice \<Rightarrow> bool" where
  "flying L ro d \<longleftrightarrow> pending ro d \<and> \<not> deviceFailed L d"

text \<open>What a pass has done when it ends, from the history \<open>h\<close> after its two reads.\<close>

definition pass_post :: "Libs \<Rightarrow> int \<Rightarrow> FleetRollout \<Rightarrow> EdgeDevice list \<Rightarrow> history \<Rightarrow> history \<Rightarrow> bool" where
  "pass_post L now ro devs h h' \<longleftrightarrow> (\<exists>us e ss. h' = h @ us @ ss \<and> pass_updates L ro devs us e \<and>
     (if e = None then status_events L ro (pass_status L now ro devs us) ss else ss = []))"

section \<open>Lemmas\<close>

subsection \<open>Fleet arithmetic\<close>

lemma count_simps [simp]: "count P [] = 0" "count P (x # xs) = (if P x then 1 else 0) + count P xs"
  by (simp_all add: count_def)

lemma count_bounds: "0 \<le> count P xs" "count P xs \<le> int (length xs)"
  by (simp_all add: count_def)

lemma count_mono: "(\<And>x. x \<in> set xs \<Longrightarrow> P x \<Longrightarrow> Q x) \<Longrightarrow> count P xs \<le> count Q xs"
  by (induction xs) auto

lemma count_disjoint: "(\<And>x. x \<in> set xs \<Longrightarrow> \<not> (P x \<and> Q x)) \<Longrightarrow> count P xs + count Q xs = count (\<lambda>x. P x \<or> Q x) xs"
  by (induction xs) auto

lemma tally_fold:
  assumes "0 \<le> ta_succeeded t" "0 \<le> ta_failed t" "ta_succeeded t + ta_failed t \<le> ta_targeted t" "ta_targeted t + int (length devs) < 2 ^ 31"
  shows "fold (tally_step L ro) devs t = \<lparr>ta_targeted = ta_targeted t + count (\<lambda>d. reached ro d \<or> pending ro d) devs,
     ta_succeeded = ta_succeeded t + count (reached ro) devs, ta_failed = ta_failed t + count (\<lambda>d. pending ro d \<and> deviceFailed L d) devs,
     ta_untargeted = ta_untargeted t @ filter (untouched ro) devs\<rparr>"
  using assms
proof (induction devs arbitrary: t)
  case (Cons d devs)
  have w: "wrap32 (ta_targeted t + 1) = ta_targeted t + 1" "wrap32 (ta_succeeded t + 1) = ta_succeeded t + 1" "wrap32 (ta_failed t + 1) = ta_failed t + 1"
    using Cons.prems by simp_all
  consider "reached ro d" | "untouched ro d" | "pending ro d" by (auto simp: untouched_def)
  then show ?case
  proof cases
    case 1
    then have "tally_step L ro d t = t\<lparr>ta_targeted := ta_targeted t + 1, ta_succeeded := ta_succeeded t + 1\<rparr>"
      by (simp add: tally_step_def reached_def w)
    with 1 Cons.IH[of "tally_step L ro d t"] Cons.prems show ?thesis by (simp add: pending_def untouched_def)
  next
    case 2
    then have "tally_step L ro d t = t\<lparr>ta_untargeted := ta_untargeted t @ [d]\<rparr>"
      by (auto simp: tally_step_def reached_def pending_def untouched_def)
    with 2 Cons.IH[of "tally_step L ro d t"] Cons.prems show ?thesis by (simp add: untouched_def)
  next
    case 3
    then have "tally_step L ro d t = t\<lparr>ta_targeted := ta_targeted t + 1, ta_failed := ta_failed t + (if deviceFailed L d then 1 else 0)\<rparr>"
      by (simp add: tally_step_def reached_def pending_def w Let_def)
    with 3 Cons.IH[of "tally_step L ro d t"] Cons.prems show ?thesis by (simp add: pending_def untouched_def)
  qed
qed simp

lemma tally_fleet_eq:
  assumes "int (length devs) < 2 ^ 31"
  shows "tally_fleet L ro devs = \<lparr>ta_targeted = count (\<lambda>d. reached ro d \<or> pending ro d) devs, ta_succeeded = count (reached ro) devs,
     ta_failed = count (\<lambda>d. pending ro d \<and> deviceFailed L d) devs, ta_untargeted = filter (untouched ro) devs\<rparr>"
  unfolding tally_fleet_def by (subst tally_fold) (use assms in simp_all)

lemma count_pending: "count (\<lambda>d. reached ro d \<or> pending ro d) devs = count (reached ro) devs + count (pending ro) devs"
  by (rule count_disjoint[symmetric]) (auto simp: pending_def)

lemma count_split: "count P xs = count (\<lambda>x. P x \<and> Q x) xs + count (\<lambda>x. P x \<and> \<not> Q x) xs"
  by (induction xs) auto

lemma count_wrap32: "int (length xs) < 2 ^ 31 \<Longrightarrow> wrap32 (count P xs) = count P xs"
  using count_bounds[of P xs] by (intro wrap32_id) auto

lemma in_flight_eq:
  assumes "int (length devs) < 2 ^ 31"
  shows "in_flight (tally_fleet L ro devs) = count (\<lambda>d. pending ro d \<and> \<not> deviceFailed L d) devs"
proof -
  have s: "count (pending ro) devs = count (\<lambda>d. pending ro d \<and> deviceFailed L d) devs + count (\<lambda>d. pending ro d \<and> \<not> deviceFailed L d) devs"
    by (rule count_split)
  have "wrap32 (count (pending ro) devs) = count (pending ro) devs"
    "wrap32 (count (\<lambda>d. pending ro d \<and> \<not> deviceFailed L d) devs) = count (\<lambda>d. pending ro d \<and> \<not> deviceFailed L d) devs"
    by (rule count_wrap32[OF assms])+
  then show ?thesis by (simp add: in_flight_def tally_fleet_eq[OF assms] count_pending) (simp add: s)
qed

subsection \<open>The events of a pass\<close>

lemma freeze_events:
  "wpK (freeze_loop S devs) (\<lambda>r h'. \<exists>es e. r = Done e \<and> h' = hist @ es \<and> update_events pause_device (filter (\<lambda>d. \<not> es_RolloutPaused (ed_Spec d)) devs) es e) hist"
proof (induction devs arbitrary: hist)
  case (Cons d devs)
  show ?case
  proof (cases "es_RolloutPaused (ed_Spec d)")
    case False
    let ?e = "on_UpdateDevice S hist (pause_device d)"
    show ?thesis
    proof (cases ?e)
      case None
      from Cons.IH[of "hist @ [UpdatedDevice (pause_device d) None]"] False None show ?thesis
        by (auto simp: wp_rules UpdateDevice_def elim!: wpK_mono)
    qed (use False in \<open>simp add: wp_rules UpdateDevice_def\<close>)
  qed (use Cons.IH in simp)
qed (simp add: wp_rules)

lemma top_up_events:
  assumes "capacity < 2 ^ 31" "0 \<le> targeted" "targeted + int (length devs) < 2 ^ 31"
  shows "wpK (top_up_loop S ro capacity targeted devs) (\<lambda>r h'. \<exists>es e. h' = hist @ es \<and>
      r = Done (case e of Some e \<Rightarrow> Inl e | None \<Rightarrow> Inr (targeted + int (length es))) \<and>
      update_events (target_device ro) (take (nat capacity) (filter (\<lambda>d. \<not> es_RolloutPaused (ed_Spec d)) devs)) es e) hist"
  using assms
proof (induction devs arbitrary: hist capacity targeted)
  case (Cons d devs)
  show ?case
  proof (cases "capacity \<le> 0")
    case False
    then have cap: "nat capacity = Suc (nat (capacity - 1))" "wrap32 (capacity - 1) = capacity - 1" "wrap32 (targeted + 1) = targeted + 1"
      using Cons.prems by auto
    show ?thesis
    proof (cases "es_RolloutPaused (ed_Spec d)")
      case True
      with Cons.IH[of capacity targeted hist] Cons.prems False show ?thesis by simp
    next
      case run: False
      let ?e = "on_UpdateDevice S hist (target_device ro d)"
      show ?thesis
      proof (cases ?e)
        case None
        let ?h = "hist @ [UpdatedDevice (target_device ro d) None]"
        have step: "top_up_loop S ro capacity targeted (d # devs) hist = top_up_loop S ro (capacity - 1) (targeted + 1) devs ?h"
          using None run False cap by (simp add: UpdateDevice_def bindK_def callK_def)
        from Cons.IH[of "capacity - 1" "targeted + 1" ?h] Cons.prems False obtain es e where
          "snd (top_up_loop S ro (capacity - 1) (targeted + 1) devs ?h) = ?h @ es"
          "fst (top_up_loop S ro (capacity - 1) (targeted + 1) devs ?h) = Done (case e of Some e \<Rightarrow> Inl e | None \<Rightarrow> Inr (targeted + 1 + int (length es)))"
          "update_events (target_device ro) (take (nat (capacity - 1)) (filter (\<lambda>d. \<not> es_RolloutPaused (ed_Spec d)) devs)) es e"
          by (auto simp: wpK_run)
        then show ?thesis unfolding wpK_run step
          by (intro exI[of _ "UpdatedDevice (target_device ro d) None # es"] exI[of _ e])
            (auto simp: run cap(1) split: option.splits)
      qed (use run False cap in \<open>simp add: wp_rules UpdateDevice_def\<close>)
    qed
  qed (simp add: wp_rules)
qed (simp add: wp_rules)

lemma update_events_D:
  "update_events f ds es r \<Longrightarrow> length es \<le> length ds \<and> (\<forall>x \<in> set es. \<exists>d \<in> set ds. \<exists>e. x = UpdatedDevice (f d) e) \<and>
     (r = None \<longrightarrow> es = map (\<lambda>d. UpdatedDevice (f d) None) ds)"
proof (induction ds arbitrary: es)
  case (Cons d ds)
  then obtain e es' where es: "es = UpdatedDevice (f d) e # es'" "if e \<noteq> None then es' = [] \<and> r = e else update_events f ds es' r" by auto
  show ?case
  proof (cases "e = None")
    case True
    with es Cons.IH[of es'] show ?thesis by auto
  qed (use es in auto)
qed simp

lemma length_fleet [simp]: "length (fleet items) = length items" "set (fleet items) = set items"
  by (simp_all add: fleet_def)

lemma unpaused_eq: "(\<lambda>d. \<not> es_RolloutPaused (ed_Spec d)) = unpaused"
  by (simp add: fun_eq_iff unpaused_def)

lemma write_status_events:
  "\<exists>ss. snd (write_status S L ro st hist) = hist @ ss \<and>
     (if rolloutStatusEqual L (fr_Status ro) st then ss = [] else \<exists>e. ss = [UpdatedRolloutStatus (ro\<lparr>fr_Status := st\<rparr>) e])"
  by (simp add: write_status_def UpdateRolloutStatus_def bindK_def callK_def retK_def Let_def split: if_splits)

lemma write_status_wp:
  "wpK (write_status S L ro st) (\<lambda>r h'. \<exists>ss. h' = hist @ ss \<and> status_events L ro st ss) hist"
  using write_status_events by (simp add: wpK_run status_events_def)

lemma capacity_eq:
  assumes "int (length devs) < 2 ^ 31" "0 \<le> fs_MaxUnavailable (fr_Spec ro)" "fs_MaxUnavailable (fr_Spec ro) < 2 ^ 31"
  shows "wrap32 (fs_MaxUnavailable (fr_Spec ro) - in_flight (tally_fleet L ro devs)) = fs_MaxUnavailable (fr_Spec ro) - in_flight (tally_fleet L ro devs)"
  using assms count_bounds[of "\<lambda>d. pending ro d \<and> \<not> deviceFailed L d" devs] by (intro wrap32_id) (auto simp: in_flight_eq)

lemma Rollout_Reconcile_run:
  assumes "reads_fleet S hist req ro items" and devs: "devs = fleet items"
  shows "Rollout_Reconcile S L now req hist =
      (if breaker_tripped ro (tally_fleet L ro devs) then bindK (freeze_loop S devs) (\<lambda>e. if e \<noteq> None then retK (result 0 e)
         else write_status S L ro (newRolloutStatus L now ro RolloutPaused (length devs) (ta_targeted (tally_fleet L ro devs)) (tally_fleet L ro devs) True))
       else if devs \<noteq> [] \<and> ta_succeeded (tally_fleet L ro devs) = wrap32 (int (length devs)) then
         write_status S L ro (newRolloutStatus L now ro RolloutComplete (length devs) (ta_targeted (tally_fleet L ro devs)) (tally_fleet L ro devs) False)
       else bindK (top_up_loop S ro (wrap32 (fs_MaxUnavailable (fr_Spec ro) - in_flight (tally_fleet L ro devs))) (ta_targeted (tally_fleet L ro devs)) (ta_untargeted (tally_fleet L ro devs))) (\<lambda>r.
         case r of Inl e \<Rightarrow> retK (result 0 (Some e))
         | Inr targeted \<Rightarrow> write_status S L ro (newRolloutStatus L now ro RolloutProgressing (length devs) targeted (tally_fleet L ro devs) False))) (hist @ [GotRollout req (Inr ro), ListedDevices (om_Namespace (fr_Meta ro)) (fs_Selector (fr_Spec ro)) (Inr items)])"
proof -
  have len: "length devs = length items" by (simp add: devs)
  show ?thesis using assms len by (simp add: Rollout_Reconcile_def reads_fleet_def client_defs bindK_def[of "callK _ _"] callK_def Let_def devs[unfolded fleet_def, symmetric] cong: if_cong)
qed

lemma pass_post_failed: "pass_updates L ro devs us (Some e) \<Longrightarrow> pass_post L now ro devs h (h @ us)"
  unfolding pass_post_def by (intro exI[of _ us] exI[of _ "Some e"] exI[of _ "[]"]) simp

lemma pass_post_status:
  assumes "pass_updates L ro devs us None" "st = pass_status L now ro devs us"
  shows "wpK (write_status S L ro st) (\<lambda>_. pass_post L now ro devs h) (h @ us)"
  by (rule wpK_mono[OF write_status_wp]) (use assms in \<open>auto simp: pass_post_def\<close>)

lemma pass_paused:
  assumes p: "rollout_phase L ro devs = RolloutPaused"
  shows "wpK (bindK (freeze_loop S devs) (\<lambda>e. if e \<noteq> None then retK (result 0 e)
      else write_status S L ro (newRolloutStatus L now ro RolloutPaused (length devs) (ta_targeted (tally_fleet L ro devs)) (tally_fleet L ro devs) True)))
    (\<lambda>_. pass_post L now ro devs h) h"
  unfolding wpK_bindK
proof (rule wpK_mono[OF freeze_events], goal_cases)
  case (1 r h')
  then obtain us e where r: "r = Done e" "h' = h @ us" "pass_updates L ro devs us e" by (auto simp: pass_updates_def p unpaused_eq)
  then show ?case
    by (cases e) (auto simp: wp_rules pass_status_def p Let_def intro!: pass_post_failed pass_post_status)
qed

lemma pass_progress:
  assumes p: "rollout_phase L ro devs = RolloutProgressing"
    and sz: "int (length devs) < 2 ^ 31" "0 \<le> fs_MaxUnavailable (fr_Spec ro)" "fs_MaxUnavailable (fr_Spec ro) < 2 ^ 31"
  shows "wpK (bindK (top_up_loop S ro (wrap32 (fs_MaxUnavailable (fr_Spec ro) - in_flight (tally_fleet L ro devs))) (ta_targeted (tally_fleet L ro devs))
        (ta_untargeted (tally_fleet L ro devs))) (\<lambda>r. case r of Inl e \<Rightarrow> retK (result 0 (Some e))
      | Inr targeted \<Rightarrow> write_status S L ro (newRolloutStatus L now ro RolloutProgressing (length devs) targeted (tally_fleet L ro devs) False)))
    (\<lambda>_. pass_post L now ro devs h) h"
proof -
  have ut: "ta_untargeted (tally_fleet L ro devs) = filter (untouched ro) devs" by (simp add: tally_fleet_eq[OF sz(1)])
  show ?thesis
    unfolding wpK_bindK
  proof (rule wpK_mono[OF top_up_events], goal_cases)
    case 1 show ?case using sz count_bounds[of "\<lambda>d. pending ro d \<and> \<not> deviceFailed L d" devs]
      by (simp add: capacity_eq[OF sz] in_flight_eq[OF sz(1)])
  next
    case 2 show ?case by (simp add: tally_fleet_eq[OF sz(1)] count_bounds)
  next
    case 3
    have "count (\<lambda>d. reached ro d \<or> pending ro d) devs + count (untouched ro) devs = count (\<lambda>_. True) devs"
      by (subst count_disjoint) (auto simp: untouched_def intro!: arg_cong[where f = "\<lambda>P. count P devs"])
    then show ?case using sz(1) by (simp add: tally_fleet_eq[OF sz(1)] count_def)
  next
    case (4 r h')
    then obtain us e where r: "h' = h @ us" "r = Done (case e of Some e \<Rightarrow> Inl e | None \<Rightarrow> Inr (ta_targeted (tally_fleet L ro devs) + int (length us)))"
      "pass_updates L ro devs us e"
      by (auto simp: pass_updates_def p next_batch_def unpaused_eq capacity_eq[OF sz] ut)
    then show ?case
      by (cases e) (auto simp: wp_rules pass_status_def p Let_def intro!: pass_post_failed pass_post_status)
  qed
qed

lemma rollout_pass:
  assumes rd: "reads_fleet S hist req ro items" and devs: "devs = fleet items"
    and sz: "int (length items) < 2 ^ 31" "0 \<le> fs_MaxUnavailable (fr_Spec ro)" "fs_MaxUnavailable (fr_Spec ro) < 2 ^ 31"
  shows "\<exists>us e ss. snd (Rollout_Reconcile S L now req hist) = hist @ [GotRollout req (Inr ro),
        ListedDevices (om_Namespace (fr_Meta ro)) (fs_Selector (fr_Spec ro)) (Inr items)] @ us @ ss \<and>
      pass_updates L ro devs us e \<and> (if e = None then status_events L ro (pass_status L now ro devs us) ss else ss = [])"
proof -
  let ?h = "hist @ [GotRollout req (Inr ro), ListedDevices (om_Namespace (fr_Meta ro)) (fs_Selector (fr_Spec ro)) (Inr items)]"
  have complete: "wpK (write_status S L ro (newRolloutStatus L now ro RolloutComplete (length devs) (ta_targeted (tally_fleet L ro devs)) (tally_fleet L ro devs) False))
      (\<lambda>_. pass_post L now ro devs ?h) ?h" if p: "rollout_phase L ro devs = RolloutComplete"
    using pass_post_status[where us = "[]" and h = ?h and L = L and ro = ro and devs = devs and now = now, OF _ refl]
    by (simp add: pass_updates_def pass_status_def p Let_def)
  have "int (length devs) < 2 ^ 31" using sz(1) devs by simp
  note progress = pass_progress[OF _ this sz(2,3)]
  have "pass_post L now ro devs ?h (snd (Rollout_Reconcile S L now req hist))"
    using complete[unfolded wpK_run] pass_paused[unfolded wpK_run, where L = L and ro = ro and devs = devs and S = S and now = now and h = ?h] progress[unfolded wpK_run, where L = L and S = S and now = now and h = ?h]
    unfolding Rollout_Reconcile_run[OF rd devs, of L now] by (simp add: rollout_phase_def)
  then show ?thesis by (simp add: pass_post_def)
qed

section \<open>Properties\<close>

lemma fleet_server_reads: "reads_fleet (fleet_server ro devs) hist req ro devs"
  by (simp add: reads_fleet_def fleet_server_def)

lemma target_device_simps [simp]:
  "ed_Status (target_device ro d) = ed_Status d" "ed_Meta (target_device ro d) = ed_Meta d"
  "reached ro (target_device ro d) = reached ro d" "deviceFailed L (target_device ro d) = deviceFailed L d"
  "pending ro (target_device ro d) \<longleftrightarrow> \<not> reached ro d"
  by (simp_all add: target_device_def reached_def deviceFailed_def pending_def)

text \<open>The counters are exact: for a fleet of fewer than $2^{31}$ devices no counter overflows, and
  they count what their comment says: succeeded and failed devices are among the targeted ones,
  targeted among the selected ones, and the in-flight number is the number of targeted devices
  that neither run the target nor failed.\<close>

theorem tally_exact:
  assumes "int (length devs) < 2 ^ 31"
  shows "let t = tally_fleet L ro devs in
    ta_targeted t = count (\<lambda>d. reached ro d \<or> pending ro d) devs \<and> ta_succeeded t = count (reached ro) devs \<and>
    ta_failed t = count (\<lambda>d. pending ro d \<and> deviceFailed L d) devs \<and> ta_untargeted t = filter (untouched ro) devs \<and>
    in_flight t = count (\<lambda>d. pending ro d \<and> \<not> deviceFailed L d) devs \<and>
    0 \<le> ta_succeeded t \<and> 0 \<le> ta_failed t \<and> ta_succeeded t + ta_failed t + in_flight t = ta_targeted t \<and> ta_targeted t \<le> int (length devs)"
  using count_split[of "pending ro" devs "deviceFailed L"] count_bounds(1)[of "reached ro" devs]
    count_bounds(1)[of "\<lambda>d. pending ro d \<and> deviceFailed L d" devs] count_bounds(2)[of "\<lambda>d. reached ro d \<or> pending ro d" devs]
    count_pending[of ro devs]
  unfolding Let_def in_flight_eq[OF assms] unfolding tally_fleet_eq[OF assms] by simp

theorem tally_exact_witness:
  "let t = tally_fleet demo_libs demo_rollout [named_device ''a'', named_device ''b''] in
     ta_targeted t = 0 \<and> ta_untargeted t = [named_device ''a'', named_device ''b'']"
  using tally_exact[of "[named_device ''a'', named_device ''b'']" demo_libs demo_rollout]
  by (simp add: Let_def untouched_def reached_def pending_def named_device_def demo_device_def demo_rollout_def)

lemma breaker_iff:
  assumes "length devs \<le> 21474836" "1 \<le> fs_FailureThresholdPercent (fr_Spec ro)" "fs_FailureThresholdPercent (fr_Spec ro) \<le> 100"
  shows "breaker_tripped ro (tally_fleet L ro devs) \<longleftrightarrow>
    count (\<lambda>d. reached ro d \<or> pending ro d) devs > 0 \<and>
    100 * count (\<lambda>d. pending ro d \<and> deviceFailed L d) devs \<ge> fs_FailureThresholdPercent (fr_Spec ro) * count (\<lambda>d. reached ro d \<or> pending ro d) devs"
proof -
  let ?p = "fs_FailureThresholdPercent (fr_Spec ro)" and ?n = "count (\<lambda>d. reached ro d \<or> pending ro d) devs"
    and ?f = "count (\<lambda>d. pending ro d \<and> deviceFailed L d) devs"
  have sz: "int (length devs) < 2 ^ 31" using assms(1) by simp
  have b: "0 \<le> ?n" "?n \<le> 21474836" "0 \<le> ?f" "?f \<le> 21474836"
    using assms(1) count_bounds[of "\<lambda>d. reached ro d \<or> pending ro d" devs] count_bounds[of "\<lambda>d. pending ro d \<and> deviceFailed L d" devs] by auto
  have "?p * ?n \<le> 100 * 21474836" using assms(3) b(1,2) by (intro mult_mono) auto
  moreover have "0 \<le> ?p * ?n" using assms(2) b(1) by simp
  ultimately have "wrap32 (?p * ?n) = ?p * ?n" "wrap32 (?f * 100) = ?f * 100" using b by (auto intro!: wrap32_id)
  then show ?thesis by (simp add: breaker_tripped_def tally_fleet_eq[OF sz] mult.commute)
qed

text \<open>C31. The breaker is exact: for up to 21474836 devices and a threshold between 1 and 100 percent, the
  32-bit comparison decides whether the failed share of the targeted devices has reached the
  threshold.\<close>

theorem breaker_exact:
  assumes "length devs \<le> 21474836" "1 \<le> fs_FailureThresholdPercent (fr_Spec ro)" "fs_FailureThresholdPercent (fr_Spec ro) \<le> 100"
  shows "breaker_tripped ro (tally_fleet L ro devs) \<longleftrightarrow>
    count (\<lambda>d. reached ro d \<or> pending ro d) devs > 0 \<and>
    100 * count (\<lambda>d. pending ro d \<and> deviceFailed L d) devs \<ge> fs_FailureThresholdPercent (fr_Spec ro) * count (\<lambda>d. reached ro d \<or> pending ro d) devs"
  using assms by (rule breaker_iff)

theorem breaker_exact_witness:
  "let up = target_device demo_rollout (named_device ''a''); dark = up\<lparr>ed_Status := (ed_Status up)\<lparr>eds_Phase := PhaseDegraded\<rparr>\<rparr>
   in breaker_tripped demo_rollout (tally_fleet demo_libs demo_rollout [dark, up]) \<and> \<not> breaker_tripped demo_rollout (tally_fleet demo_libs demo_rollout [dark, up, up])"
proof -
  let ?up = "target_device demo_rollout (named_device ''a'')"
  let ?dark = "?up\<lparr>ed_Status := (ed_Status ?up)\<lparr>eds_Phase := PhaseDegraded\<rparr>\<rparr>"
  have d: "pending demo_rollout ?up" "pending demo_rollout ?dark" "\<not> deviceFailed demo_libs ?up" "deviceFailed demo_libs ?dark" "fs_FailureThresholdPercent (fr_Spec demo_rollout) = 50"
    by (simp_all add: reached_def pending_def deviceFailed_def reports_failure_def target_device_def named_device_def demo_device_def demo_rollout_def demo_libs_def)
  show ?thesis using d breaker_exact[of "[?dark, ?up]" demo_rollout demo_libs] breaker_exact[of "[?dark, ?up, ?up]" demo_rollout demo_libs] by (simp add: Let_def)
qed

text \<open>C18. What a pass writes to devices, for every server: exactly the paused flag of every selected
  device that is not paused when the breaker has tripped; nothing when the rollout is complete;
  otherwise the target, copied verbatim, for the next slice of the batch: in name order, at most
  the free capacity, skipping devices that are paused. The loop stops at the first failed write,
  and then the status is not written; otherwise exactly the status computed from the fleet that was
  read and the devices just targeted is written, unless the stored one already says the same.\<close>

theorem rollout_pass_writes:
  assumes "reads_fleet S hist req ro items" "int (length items) < 2 ^ 31"
    and "0 \<le> fs_MaxUnavailable (fr_Spec ro)" "fs_MaxUnavailable (fr_Spec ro) < 2 ^ 31"
  shows "\<exists>us e ss. snd (Rollout_Reconcile S L now req hist) = hist @ [GotRollout req (Inr ro),
        ListedDevices (om_Namespace (fr_Meta ro)) (fs_Selector (fr_Spec ro)) (Inr items)] @ us @ ss \<and>
      (case rollout_phase L ro (fleet items) of
         RolloutPaused \<Rightarrow> update_events pause_device (filter unpaused (fleet items)) us e
       | RolloutComplete \<Rightarrow> us = [] \<and> e = None
       | _ \<Rightarrow> update_events (target_device ro) (next_batch L ro (fleet items)) us e) \<and>
      (if e = None then status_events L ro (pass_status L now ro (fleet items) us) ss else ss = [])"
  using rollout_pass[OF assms(1) refl assms(2-4), of L now] by (simp add: pass_updates_def)

theorem rollout_pass_writes_witness:
  "\<exists>us ss. snd (Rollout_Reconcile (fleet_server demo_rollout [named_device ''a'']) demo_libs 5 (''default'', ''ro'') []) =
     [GotRollout (''default'', ''ro'') (Inr demo_rollout), ListedDevices ''default'' [(''tier'', ''edge'')] (Inr [named_device ''a''])] @ us @ ss"
  using rollout_pass_writes[OF fleet_server_reads, where items = "[named_device ''a'']" and ro = demo_rollout and hist = "[]"
      and req = "(''default'', ''ro'')" and L = demo_libs and now = 5]
  by (auto simp: demo_rollout_def)

lemma written_mem: "d \<in> set (written es) \<longleftrightarrow> UpdatedDevice d None \<in> set es"
  by (induction es rule: written.induct) auto

lemma length_written: "length (written es) \<le> length es"
  by (induction es rule: written.induct) auto

lemma count_length_le:
  assumes "distinct (map f xs)" "\<And>x. x \<in> set xs \<Longrightarrow> P x \<Longrightarrow> f x \<in> f ` set ys"
  shows "count P xs \<le> int (length ys)"
proof -
  have "length (filter P xs) = card (f ` set (filter P xs))"
    using distinct_map_filter[OF assms(1), of P] by (metis distinct_card length_map set_map)
  also have "\<dots> \<le> card (f ` set ys)" by (rule card_mono) (use assms(2) in auto)
  also have "\<dots> \<le> length ys" by (meson card_image_le card_length finite_set le_trans)
  finally show ?thesis by (simp add: count_def)
qed

text \<open>The in-flight number grows by at most the number of writes.\<close>

lemma after_writes_cases:
  assumes ev: "update_events f ds us e" and ds: "set ds \<subseteq> set devs" and dist: "distinct (map (\<lambda>d. om_Name (ed_Meta d)) devs)"
    and f: "\<And>d. ed_Meta (f d) = ed_Meta d" and d: "d \<in> set devs"
  shows "after_writes us d = d \<or> d \<in> set ds \<and> after_writes us d = f d"
proof (cases "List.find (\<lambda>d'. om_Name (ed_Meta d') = om_Name (ed_Meta d)) (written us)")
  case (Some d')
  then have "UpdatedDevice d' None \<in> set us" "om_Name (ed_Meta d') = om_Name (ed_Meta d)" by (auto simp: find_Some_iff written_mem[symmetric])
  moreover then obtain x where x: "x \<in> set ds" "d' = f x" using update_events_D[OF ev] by blast
  ultimately have "x = d" using dist ds d f by (auto simp: distinct_map inj_on_def)
  with Some x show ?thesis by (simp add: after_writes_def)
qed (simp add: after_writes_def)

lemma flying_after_writes:
  assumes ev: "update_events f ds us e" and ds: "set ds \<subseteq> set devs" and dist: "distinct (map (\<lambda>d. om_Name (ed_Meta d)) devs)"
    and f: "\<And>d. ed_Meta (f d) = ed_Meta d"
  shows "count (\<lambda>d. P (after_writes us d)) devs \<le> count P devs + count (\<lambda>d. P (f d) \<and> \<not> P d) ds"
proof -
  note each = after_writes_cases[OF ev ds dist f]
  have "count (\<lambda>d. P (after_writes us d)) devs \<le> count (\<lambda>d. P d \<or> d \<in> set ds \<and> P (f d) \<and> \<not> P d) devs"
    by (rule count_mono) (metis each)
  also have "\<dots> = count P devs + count (\<lambda>d. d \<in> set ds \<and> P (f d) \<and> \<not> P d) devs"
    by (rule count_disjoint[symmetric]) auto
  also have "count (\<lambda>d. d \<in> set ds \<and> P (f d) \<and> \<not> P d) devs \<le> count (\<lambda>d. P (f d) \<and> \<not> P d) ds"
    unfolding count_def[of "\<lambda>d. P (f d) \<and> \<not> P d"] by (rule count_length_le[OF dist]) auto
  finally show ?thesis by simp
qed

lemma written_append [simp]: "written (xs @ ys) = written xs @ written ys"
  by (induction xs rule: written.induct) auto

lemma written_status [simp]: "status_events L ro ph ss \<Longrightarrow> written ss = []"
  by (auto simp: status_events_def split: if_splits)

lemma count_map [simp]: "count P (map f xs) = count (\<lambda>x. P (f x)) xs"
  by (induction xs) auto

lemma count_fleet [simp]: "count P (fleet items) = count P items"
  by (simp add: count_def fleet_def filter_sort)

lemma distinct_fleet: "distinct (map (\<lambda>d. om_Name (ed_Meta d)) items) \<Longrightarrow> distinct (map (\<lambda>d. om_Name (ed_Meta d)) (fleet items))"
  by (simp add: distinct_map fleet_def)

lemma pause_device_simps [simp]:
  "ed_Meta (pause_device d) = ed_Meta d" "ed_Status (pause_device d) = ed_Status d" "flying L ro (pause_device d) = flying L ro d"
  by (simp_all add: pause_device_def flying_def pending_def reached_def deviceFailed_def)

lemma flying_after_pass:
  assumes "pass_updates L ro (fleet items) us e" "int (length items) < 2 ^ 31" "distinct (map (\<lambda>d. om_Name (ed_Meta d)) items)"
  shows "count (\<lambda>d. flying L ro (after_writes us d)) items \<le> max (fs_MaxUnavailable (fr_Spec ro)) (count (flying L ro) items)"
proof -
  note D = distinct_fleet[OF assms(3)]
  let ?batch = "next_batch L ro (fleet items)"
  consider "update_events pause_device (filter unpaused (fleet items)) us e" | "us = []" | "update_events (target_device ro) ?batch us e"
    using assms(1) by (auto simp: pass_updates_def split: RolloutPhase.splits)
  then show ?thesis
  proof cases
    case 1
    have "count (\<lambda>d. flying L ro (pause_device d) \<and> \<not> flying L ro d) (filter unpaused (fleet items)) = 0" by (simp add: count_def)
    with flying_after_writes[OF 1 _ D, of "flying L ro"] show ?thesis by simp
  next
    case 2
    then show ?thesis by (simp add: after_writes_def)
  next
    case 3
    have sub: "set ?batch \<subseteq> set (fleet items)" by (auto simp: next_batch_def dest!: in_set_takeD)
    have "count (\<lambda>d. flying L ro (target_device ro d) \<and> \<not> flying L ro d) ?batch \<le> int (length ?batch)" by (rule count_bounds)
    also have "\<dots> \<le> max 0 (fs_MaxUnavailable (fr_Spec ro) - count (flying L ro) items)"
      using assms(2) by (simp add: next_batch_def in_flight_eq flying_def[abs_def])
    finally show ?thesis using flying_after_writes[OF 3 sub D, of "flying L ro"] by simp
  qed
qed

text \<open>C6. The blast radius holds: whichever writes succeed, and whatever the phase, the number of
  devices in flight after the writes of a pass is at most the configured maximum, or what it was
  before when it was already above it.\<close>

theorem rollout_blast_radius:
  assumes "reads_fleet S hist req ro items" "int (length items) < 2 ^ 31"
    and "0 \<le> fs_MaxUnavailable (fr_Spec ro)" "fs_MaxUnavailable (fr_Spec ro) < 2 ^ 31"
    and "distinct (map (\<lambda>d. om_Name (ed_Meta d)) items)"
  shows "\<exists>es. snd (Rollout_Reconcile S L now req hist) = hist @ es \<and>
     count (flying L ro) (map (after_writes es) items) \<le> max (fs_MaxUnavailable (fr_Spec ro)) (count (flying L ro) items)"
proof -
  from rollout_pass[OF assms(1) refl assms(2-4), of L now] obtain us e ss where
    run: "snd (Rollout_Reconcile S L now req hist) = hist @ [GotRollout req (Inr ro),
        ListedDevices (om_Namespace (fr_Meta ro)) (fs_Selector (fr_Spec ro)) (Inr items)] @ us @ ss" (is "_ = hist @ ?es")
    and us: "pass_updates L ro (fleet items) us e" "if e = None then status_events L ro (pass_status L now ro (fleet items) us) ss else ss = []" by blast
  have "after_writes ?es = after_writes us" using us(2) by (auto simp: after_writes_def fun_eq_iff split: if_splits)
  with run flying_after_pass[OF us(1) assms(2,5)] show ?thesis by (intro exI[of _ ?es]) simp
qed

theorem rollout_blast_radius_witness:
  "\<exists>es. snd (Rollout_Reconcile (fleet_server demo_rollout [named_device ''b'', named_device ''a'']) demo_libs 5 (''default'', ''ro'') []) = es \<and>
     count (flying demo_libs demo_rollout) (map (after_writes es) [named_device ''b'', named_device ''a'']) \<le> 1"
  using rollout_blast_radius[OF fleet_server_reads, where items = "[named_device ''b'', named_device ''a'']" and ro = demo_rollout and hist = "[]"
      and req = "(''default'', ''ro'')" and L = demo_libs and now = 5]
  by (simp add: demo_rollout_def named_device_def demo_device_def flying_def pending_def)

end
