(* ===== verification/Rollout_Campaign.thy ===== *)
theory Rollout_Campaign
  imports Rollout_Controller
begin

text \<open>
  The rollout controller over several passes: campaigns on a cooperative fleet and their
  completion, two situations in which the breaker does not do what its documentation says, and the
  device events that wake the controller up.
\<close>

text \<open>A device that was targeted installs the target.\<close>

definition install :: "FleetRollout \<Rightarrow> EdgeDevice \<Rightarrow> EdgeDevice" where
  "install ro d = (if pending ro d then d\<lparr>ed_Status := (ed_Status d)\<lparr>eds_CurrentFirmwareVersion := fs_TargetVersion (fr_Spec ro)\<rparr>\<rparr> else d)"

text \<open>
  A campaign on a cooperative fleet: rounds of a controller pass, in which the server accepts every
  device write, and of all targeted devices installing the target. The rollout may be read with
  another status in each round, and the history before a pass is arbitrary.
\<close>

inductive campaign :: "Libs \<Rightarrow> FleetRollout \<Rightarrow> EdgeDevice list \<Rightarrow> nat \<Rightarrow> EdgeDevice list \<Rightarrow> bool" for L ro items0 where
  start: "campaign L ro items0 0 items0"
| round: "campaign L ro items0 n items \<Longrightarrow> reads_fleet S hist req ro' items \<Longrightarrow> fr_Spec ro' = fr_Spec ro
    \<Longrightarrow> (\<forall>h d. on_UpdateDevice S h d = None) \<Longrightarrow> snd (Rollout_Reconcile S L now req hist) = hist @ es
    \<Longrightarrow> campaign L ro items0 (Suc n) (map (\<lambda>d. install ro (after_writes es d)) items)"

definition cooperative :: "Libs \<Rightarrow> EdgeDevice list \<Rightarrow> bool" where
  "cooperative L items \<longleftrightarrow> distinct (map (\<lambda>d. om_Name (ed_Meta d)) items) \<and> (\<forall>d \<in> set items. unpaused d \<and> \<not> deviceFailed L d)"

text \<open>The limits that the CRD validation puts on a rollout, and a fleet size that 32 bits can count.\<close>

definition valid_rollout :: "FleetRollout \<Rightarrow> bool" where
  "valid_rollout ro \<longleftrightarrow> 1 \<le> fs_MaxUnavailable (fr_Spec ro) \<and> fs_MaxUnavailable (fr_Spec ro) < 2 ^ 31 \<and>
     1 \<le> fs_FailureThresholdPercent (fr_Spec ro) \<and> fs_FailureThresholdPercent (fr_Spec ro) \<le> 100"

text \<open>A program all of whose device writes are accepted.\<close>

definition accepts :: "'a call \<Rightarrow> bool" where
  "accepts m \<longleftrightarrow> (\<forall>hist. \<exists>es. snd (m hist) = hist @ es \<and> (\<forall>d e. UpdatedDevice d e \<in> set es \<longrightarrow> e = None))"

text \<open>A device that is pending and dark, the rollout as a tripped pass leaves it, and the device later:
  still paused, but it has finished its transaction and reports again.\<close>

definition dark_device :: EdgeDevice where
  "dark_device = (target_device demo_rollout (named_device ''a''))\<lparr>ed_Status := (ed_Status demo_device)\<lparr>eds_Phase := PhaseDegraded\<rparr>\<rparr>"

definition tripped_rollout :: FleetRollout where
  "tripped_rollout = demo_rollout\<lparr>fr_Status := newRolloutStatus demo_libs 5 demo_rollout RolloutPaused 1 1
     (tally_fleet demo_libs demo_rollout [dark_device]) True\<rparr>"

definition back_device :: EdgeDevice where
  "back_device = (pause_device dark_device)\<lparr>ed_Status := (ed_Status demo_device)\<lparr>eds_Phase := PhaseReady, eds_CurrentFirmwareVersion := ''v2''\<rparr>\<rparr>"

text \<open>What \<open>client.MatchingLabels\<close> selects: every key is present with the value.\<close>

definition label_match :: "(string \<times> string) list \<Rightarrow> (string \<rightharpoonup> string) \<Rightarrow> bool" where
  "label_match sel labels \<longleftrightarrow> (\<forall>(k, v) \<in> set sel. labels k = Some v)"

section \<open>Lemmas\<close>

subsection \<open>Campaigns\<close>

lemma same_spec:
  assumes "fr_Spec ro' = fr_Spec ro"
  shows "reached ro' = reached ro" "pending ro' = pending ro" "untouched ro' = untouched ro" "target_device ro' = target_device ro"
    "valid_rollout ro' = valid_rollout ro" "install ro' = install ro"
  by (auto simp: assms reached_def[abs_def] pending_def[abs_def] untouched_def[abs_def] target_device_def[abs_def] valid_rollout_def install_def[abs_def] fun_eq_iff)

lemma install_simps [simp]:
  "ed_Meta (install ro d) = ed_Meta d" "unpaused (install ro d) = unpaused d" "deviceFailed L (install ro d) = deviceFailed L d"
  "reached ro (install ro d) \<longleftrightarrow> reached ro d \<or> pending ro d"
  by (simp_all add: install_def unpaused_def deviceFailed_def reached_def)

lemma unpaused_target [simp]: "unpaused (target_device ro d) = unpaused d"
  by (simp add: unpaused_def target_device_def)

lemma update_events_accepted:
  "update_events f ds es r \<Longrightarrow> (\<And>d e. UpdatedDevice d e \<in> set es \<Longrightarrow> e = None) \<Longrightarrow> r = None"
  by (induction ds arbitrary: es) (auto split: if_splits, blast)

lemma after_writes_hit:
  assumes "update_events f ds us None" "set ds \<subseteq> set devs" "distinct (map (\<lambda>d. om_Name (ed_Meta d)) devs)"
    "\<And>d. ed_Meta (f d) = ed_Meta d" "d \<in> set ds"
  shows "after_writes us d = f d"
proof -
  have "f d \<in> set (written us)" using update_events_D[OF assms(1)] assms(5) by (auto simp: written_mem)
  then have "List.find (\<lambda>d'. om_Name (ed_Meta d') = om_Name (ed_Meta d)) (written us) \<noteq> None"
    by (auto simp: find_None_iff assms(4))
  then obtain d' where d': "List.find (\<lambda>d'. om_Name (ed_Meta d') = om_Name (ed_Meta d)) (written us) = Some d'" by auto
  then have "UpdatedDevice d' None \<in> set us" "om_Name (ed_Meta d') = om_Name (ed_Meta d)" by (auto simp: find_Some_iff written_mem[symmetric])
  moreover then obtain x where x: "x \<in> set ds" "d' = f x" using update_events_D[OF assms(1)] by blast
  ultimately have "x = d" using assms(2-5) by (auto simp: distinct_map inj_on_def)
  with d' x show ?thesis by (simp add: after_writes_def)
qed

lemma accepts_retK: "accepts (retK x)"
  by (simp add: accepts_def retK_def)

lemma accepts_callK: "(\<And>r d e. entry r = UpdatedDevice d e \<Longrightarrow> e = None) \<Longrightarrow> accepts (callK reply entry)"
  by (fastforce simp: accepts_def callK_def Let_def dest: sym)

lemma accepts_bindK:
  assumes "accepts m" "\<And>x. accepts (f x)"
  shows "accepts (bindK m f)"
  unfolding accepts_def
proof
  fix hist
  from assms(1) obtain es where es: "snd (m hist) = hist @ es" "\<forall>d e. UpdatedDevice d e \<in> set es \<longrightarrow> e = None" unfolding accepts_def by blast
  show "\<exists>es. snd (bindK m f hist) = hist @ es \<and> (\<forall>d e. UpdatedDevice d e \<in> set es \<longrightarrow> e = None)"
  proof (cases "fst (m hist)")
    case (Done x)
    from assms(2) obtain es' where "snd (f x (hist @ es)) = (hist @ es) @ es'" "\<forall>d e. UpdatedDevice d e \<in> set es' \<longrightarrow> e = None" unfolding accepts_def by blast
    with es Done show ?thesis by (intro exI[of _ "es @ es'"]) (auto simp: bindK_def split: prod.splits)
  qed (use es in \<open>auto simp: bindK_def split: prod.splits\<close>)
qed

lemma accepts_UpdateDevice:
  assumes "\<forall>h d. on_UpdateDevice S h d = None"
  shows "accepts (UpdateDevice S d)"
  using assms by (simp add: accepts_def UpdateDevice_def callK_def Let_def)

lemma accepts_freeze: "\<forall>h d. on_UpdateDevice S h d = None \<Longrightarrow> accepts (freeze_loop S devs)"
  by (induction devs) (simp_all add: accepts_retK accepts_bindK accepts_UpdateDevice)

lemma accepts_top_up: "\<forall>h d. on_UpdateDevice S h d = None \<Longrightarrow> accepts (top_up_loop S ro c t devs)"
  by (induction devs arbitrary: c t) (simp_all add: accepts_retK accepts_bindK accepts_UpdateDevice split: option.split)

lemma accepts_Rollout_Reconcile:
  assumes S: "\<forall>h d. on_UpdateDevice S h d = None"
  shows "accepts (Rollout_Reconcile S L now req)"
  unfolding Rollout_Reconcile_def Let_def write_status_def GetRollout_def ListDevices_def UpdateRolloutStatus_def
  by (auto intro!: accepts_bindK accepts_retK accepts_callK accepts_freeze[OF S] accepts_top_up[OF S] split: sum.split)

lemma count_all: "count P xs = int (length xs) \<longleftrightarrow> (\<forall>x \<in> set xs. P x)"
proof (induction xs)
  case (Cons x xs)
  with count_bounds(2)[of P xs] show ?case by auto
qed simp

text \<open>One pass on a cooperative fleet: the whole batch is written.\<close>

lemma cooperative_pass:
  assumes rd: "reads_fleet S hist req ro items" and S: "\<forall>h d. on_UpdateDevice S h d = None" and ro: "valid_rollout ro"
    and sz: "length items \<le> 21474836" and co: "cooperative L items" and run: "snd (Rollout_Reconcile S L now req hist) = hist @ es"
  shows "\<exists>us. after_writes es = after_writes us \<and> update_events (target_device ro) (next_batch L ro (fleet items)) us None"
proof -
  have sz': "int (length items) < 2 ^ 31" and max: "0 \<le> fs_MaxUnavailable (fr_Spec ro)" "fs_MaxUnavailable (fr_Spec ro) < 2 ^ 31"
    using sz ro by (simp_all add: valid_rollout_def)
  from rollout_pass[OF rd refl sz' max, of L now] run obtain us e ss where
    es: "es = [GotRollout req (Inr ro), ListedDevices (om_Namespace (fr_Meta ro)) (fs_Selector (fr_Spec ro)) (Inr items)] @ us @ ss"
    and us: "pass_updates L ro (fleet items) us e" "if e = None then status_events L ro (pass_status L now ro (fleet items) us) ss else ss = []" by auto
  have none: "count (\<lambda>d. pending ro d \<and> deviceFailed L d) (fleet items) = 0"
    using co by (auto simp: count_def cooperative_def filter_empty_conv)
  have "\<not> breaker_tripped ro (tally_fleet L ro (fleet items))"
    using ro sz none by (simp add: breaker_iff valid_rollout_def) (smt (verit) mult_pos_pos)
  then have p: "rollout_phase L ro (fleet items) = RolloutProgressing \<or>
      rollout_phase L ro (fleet items) = RolloutComplete \<and> next_batch L ro (fleet items) = []"
    using sz' by (auto simp: rollout_phase_def tally_fleet_eq next_batch_def untouched_def count_all filter_empty_conv)
  have "\<exists>es'. hist @ es = hist @ es' \<and> (\<forall>d e. UpdatedDevice d e \<in> set es' \<longrightarrow> e = None)"
    using accepts_Rollout_Reconcile[OF S, of L now req] run unfolding accepts_def by metis
  then have "\<And>d e. UpdatedDevice d e \<in> set us \<Longrightarrow> e = None" by (auto simp: es)
  with us p have "update_events (target_device ro) (next_batch L ro (fleet items)) us None"
    using update_events_accepted by (fastforce simp: pass_updates_def)
  moreover have "after_writes es = after_writes us" using us(2) by (auto simp: es after_writes_def fun_eq_iff split: if_splits)
  ultimately show ?thesis by blast
qed

lemma count_less:
  assumes "\<And>x. x \<in> set xs \<Longrightarrow> P x \<Longrightarrow> Q x" "x \<in> set xs" "Q x" "\<not> P x"
  shows "count P xs + 1 \<le> count Q xs"
  using assms
proof (induction xs)
  case (Cons y ys)
  show ?case
  proof (cases "x = y")
    case True
    with Cons.prems count_mono[of ys P Q] show ?thesis by auto
  next
    case False
    with Cons.IH Cons.prems show ?thesis by auto
  qed
qed simp

lemma round_moves:
  assumes us: "update_events (target_device ro) (next_batch L ro (fleet items)) us None" and ro: "valid_rollout ro"
    and sz: "length items \<le> 21474836" and co: "cooperative L items" and op: "\<exists>d \<in> set items. \<not> reached ro d"
  shows "\<exists>d \<in> set items. \<not> reached ro d \<and> pending ro (after_writes us d)"
proof -
  let ?batch = "next_batch L ro (fleet items)"
  have dist: "distinct (map (\<lambda>d. om_Name (ed_Meta d)) (fleet items))" using co by (simp add: cooperative_def distinct_fleet)
  have sub: "set ?batch \<subseteq> set (fleet items)" by (auto simp: next_batch_def dest!: in_set_takeD)
  show ?thesis
  proof (cases "\<exists>d \<in> set items. pending ro d")
    case True
    then obtain d where d: "d \<in> set items" "pending ro d" by blast
    moreover from this after_writes_cases[OF us sub dist, of d] have "pending ro (after_writes us d)" by simp (metis pending_def target_device_simps(5))
    ultimately show ?thesis by (auto simp: pending_def)
  next
    case False
    then have "count (\<lambda>d. pending ro d \<and> \<not> deviceFailed L d) (fleet items) = 0" by (auto simp: count_def filter_empty_conv)
    moreover have "filter unpaused (filter (untouched ro) (fleet items)) \<noteq> []"
      using False op co by (auto simp: filter_empty_conv untouched_def cooperative_def)
    ultimately have "?batch \<noteq> []" using sz ro by (simp add: next_batch_def in_flight_eq valid_rollout_def)
    then obtain d where d: "d \<in> set ?batch" by (cases ?batch) auto
    moreover from d have "untouched ro d" "d \<in> set items" using sub by (auto simp: next_batch_def dest!: in_set_takeD)
    moreover have "after_writes us d = target_device ro d" using after_writes_hit[OF us sub dist _ d] by simp
    ultimately show ?thesis by (auto simp: untouched_def)
  qed
qed

lemma cooperative_round:
  assumes rd: "reads_fleet S hist req ro items" and S: "\<forall>h d. on_UpdateDevice S h d = None" and ro: "valid_rollout ro"
    and sz: "length items \<le> 21474836" and co: "cooperative L items" and run: "snd (Rollout_Reconcile S L now req hist) = hist @ es"
  defines "items' \<equiv> map (\<lambda>d. install ro (after_writes es d)) items"
  shows "cooperative L items' \<and> count (\<lambda>d. \<not> reached ro d) items' \<le> max 0 (count (\<lambda>d. \<not> reached ro d) items - 1)"
proof -
  let ?batch = "next_batch L ro (fleet items)"
  obtain us where us: "after_writes es = after_writes us" "update_events (target_device ro) ?batch us None"
    using cooperative_pass[OF rd S ro sz co run] by blast
  have dist: "distinct (map (\<lambda>d. om_Name (ed_Meta d)) (fleet items))" using co by (simp add: cooperative_def distinct_fleet)
  have sub: "set ?batch \<subseteq> set (fleet items)" by (auto simp: next_batch_def dest!: in_set_takeD)
  have each: "after_writes es d = d \<or> d \<in> set ?batch \<and> after_writes es d = target_device ro d" if "d \<in> set items" for d
    using after_writes_cases[OF us(2) sub dist, of d] that by (simp add: us(1))
  have keep: "\<not> reached ro d" if "d \<in> set items" "\<not> reached ro (install ro (after_writes es d))" for d
    using each[OF that(1)] that(2) by auto
  have le: "count (\<lambda>d. \<not> reached ro (install ro (after_writes es d))) items \<le> max 0 (count (\<lambda>d. \<not> reached ro d) items - 1)"
  proof (cases "\<exists>d \<in> set items. \<not> reached ro d")
    case True
    then obtain d where d: "d \<in> set items" "\<not> reached ro d" "pending ro (after_writes es d)"
      using round_moves[OF us(2) ro sz co] us(1) by auto
    have "count (\<lambda>d. \<not> reached ro (install ro (after_writes es d))) items + 1 \<le> count (\<lambda>d. \<not> reached ro d) items"
      by (rule count_less[OF keep d(1)]) (use d in auto)
    then show ?thesis by simp
  next
    case False
    with keep have "count (\<lambda>d. \<not> reached ro (install ro (after_writes es d))) items = 0" unfolding count_def by (auto simp: filter_empty_conv)
    then show ?thesis by simp
  qed
  have "map (\<lambda>d. om_Name (ed_Meta d)) items' = map (\<lambda>d. om_Name (ed_Meta d)) items"
    unfolding items'_def map_map by (rule map_cong) (use each in \<open>fastforce simp: comp_def\<close>)+
  moreover have "\<forall>d \<in> set items'. unpaused d \<and> \<not> deviceFailed L d"
    using co each by (fastforce simp: cooperative_def items'_def)
  ultimately have "cooperative L items'" using co unfolding cooperative_def by metis
  with le show ?thesis by (simp add: items'_def)
qed

lemma campaign_progress:
  assumes "campaign L ro items0 n items" "valid_rollout ro" "length items0 \<le> 21474836" "cooperative L items0"
  shows "cooperative L items \<and> length items = length items0 \<and> count (\<lambda>d. \<not> reached ro d) items \<le> max 0 (int (length items0) - int n)"
  using assms
proof (induction rule: campaign.induct)
  case start
  then show ?case using count_bounds[of "\<lambda>d. \<not> reached ro d" items0] by simp
next
  case (round n items S hist req ro' now es)
  then have IH: "cooperative L items" "length items = length items0" "count (\<lambda>d. \<not> reached ro d) items \<le> max 0 (int (length items0) - int n)"
    by simp_all
  note spec = same_spec[OF round.hyps(3)]
  have "length items \<le> 21474836" "valid_rollout ro'" using IH(2) round.prems by (simp_all add: spec)
  from cooperative_round[OF round.hyps(2,4) this(2,1) IH(1) round.hyps(5)] IH(2,3) show ?case by (auto simp: spec)
qed

text \<open>C7. A campaign completes: on a cooperative fleet (unique names, nobody paused, no device failing),
  with a server that accepts the writes and devices that install what they are told, all devices
  run the target after at most as many rounds as there are devices, and the phase is then
  Complete. Between the rounds the batch never stalls.\<close>

theorem campaign_completes:
  assumes "campaign L ro items0 n items" "valid_rollout ro" "length items0 \<le> 21474836" "cooperative L items0"
    and "length items0 \<le> n" "items0 \<noteq> []"
  shows "(\<forall>d \<in> set items. reached ro d) \<and> rollout_phase L ro (fleet items) = RolloutComplete"
proof -
  have co: "cooperative L items" "length items = length items0" "count (\<lambda>d. \<not> reached ro d) items = 0"
    using campaign_progress[OF assms(1-4)] assms(5) count_bounds(1)[of "\<lambda>d. \<not> reached ro d" items] by auto
  then have all: "\<forall>d \<in> set items. reached ro d" by (auto simp: count_def filter_empty_conv)
  have "count (\<lambda>d. pending ro d \<and> deviceFailed L d) (fleet items) = 0"
    using co(1) by (auto simp: count_def cooperative_def filter_empty_conv)
  then have "\<not> breaker_tripped ro (tally_fleet L ro (fleet items))"
    using assms(2,3) co(2) by (simp add: breaker_iff valid_rollout_def) (smt (verit) mult_pos_pos)
  moreover have "count (reached ro) items = int (length items)" using all by (simp add: count_all)
  moreover have "fleet items \<noteq> []" using co(2) assms(6) by (metis length_0_conv length_fleet(1))
  ultimately show ?thesis using all co(2) assms(3) by (simp add: rollout_phase_def tally_fleet_eq)
qed

theorem campaign_completes_witness:
  "\<exists>items. campaign demo_libs demo_rollout [named_device ''a''] 1 items \<and> (\<forall>d \<in> set items. reached demo_rollout d) \<and>
     rollout_phase demo_libs demo_rollout (fleet items) = RolloutComplete"
proof -
  let ?items = "[named_device ''a'']" and ?S = "fleet_server demo_rollout [named_device ''a'']"
  have S: "\<forall>h d. on_UpdateDevice ?S h d = None" by (simp add: fleet_server_def demo_server_def)
  then obtain es where es: "snd (Rollout_Reconcile ?S demo_libs 5 (''default'', ''ro'') []) = [] @ es"
    using accepts_Rollout_Reconcile[OF S] unfolding accepts_def by blast
  have c: "campaign demo_libs demo_rollout ?items (Suc 0) (map (\<lambda>d. install demo_rollout (after_writes es d)) ?items)"
    by (rule campaign.round[OF campaign.start fleet_server_reads _ S es]) simp
  have ok: "valid_rollout demo_rollout" "cooperative demo_libs ?items"
    by (simp_all add: valid_rollout_def demo_rollout_def cooperative_def named_device_def demo_device_def unpaused_def deviceFailed_def demo_libs_def reports_failure_def)
  from campaign_completes[OF c ok(1) _ ok(2)] c show ?thesis by (intro exI) auto
qed

lemmas demo_fleet_defs = dark_device_def tripped_rollout_def back_device_def demo_rollout_def named_device_def demo_device_def
  pause_device_def target_device_def fleet_server_def demo_server_def demo_libs_def

lemma demo_trips:
  "snd (Rollout_Reconcile (fleet_server demo_rollout [dark_device]) demo_libs 5 (''default'', ''ro'') []) =
     [GotRollout (''default'', ''ro'') (Inr demo_rollout), ListedDevices ''default'' [(''tier'', ''edge'')] (Inr [dark_device]),
      UpdatedDevice (pause_device dark_device) None, UpdatedRolloutStatus tripped_rollout None]"
proof -
  have t: "tally_fleet demo_libs demo_rollout [dark_device] = \<lparr>ta_targeted = 1, ta_succeeded = 0, ta_failed = 1, ta_untargeted = []\<rparr>"
    by (simp add: tally_fleet_eq reached_def pending_def untouched_def deviceFailed_def demo_fleet_defs)
  have f: "fleet [dark_device] = [dark_device]" by (simp add: fleet_def)
  have st: "\<not> rolloutStatusEqual demo_libs (fr_Status demo_rollout) (fr_Status tripped_rollout)"
    by (simp add: rolloutStatusEqual_def tripped_rollout_def newRolloutStatus_def) (simp add: demo_rollout_def)
  have up: "\<not> es_RolloutPaused (ed_Spec dark_device)" by (simp add: demo_fleet_defs)
  have br: "breaker_tripped demo_rollout (tally_fleet demo_libs demo_rollout [dark_device])" by (simp add: breaker_tripped_def t) (simp add: demo_rollout_def)
  let ?st = "newRolloutStatus demo_libs 5 demo_rollout RolloutPaused (Suc 0) 1 \<lparr>ta_targeted = 1, ta_succeeded = 0, ta_failed = 1, ta_untargeted = []\<rparr> True"
  have tr: "demo_rollout\<lparr>fr_Status := ?st\<rparr> = tripped_rollout" by (simp add: tripped_rollout_def t)
  have st': "\<not> rolloutStatusEqual demo_libs (fr_Status demo_rollout) ?st" using st by (simp add: tripped_rollout_def t)
  have sp: "om_Namespace (fr_Meta demo_rollout) = ''default''" "fs_Selector (fr_Spec demo_rollout) = [(''tier'', ''edge'')]"
    by (simp_all add: demo_rollout_def)
  show ?thesis
    using st up unfolding Rollout_Reconcile_run[OF fleet_server_reads refl] f
    by (simp add: br[unfolded t] t tr st' sp write_status_def client_defs fleet_server_def demo_server_def bindK_def callK_def retK_def Let_def)
qed

lemma demo_untrips:
  "\<exists>st. fst_Phase st = RolloutProgressing \<and>
     snd (Rollout_Reconcile (fleet_server tripped_rollout [back_device, named_device ''b'']) demo_libs 6 (''default'', ''ro'') []) =
     [GotRollout (''default'', ''ro'') (Inr tripped_rollout), ListedDevices ''default'' [(''tier'', ''edge'')] (Inr [back_device, named_device ''b'']),
      UpdatedDevice (target_device tripped_rollout (named_device ''b'')) None, UpdatedRolloutStatus (tripped_rollout\<lparr>fr_Status := st\<rparr>) None]"
proof -
  let ?b = "named_device ''b''"
  have t: "tally_fleet demo_libs tripped_rollout [back_device, ?b] =
      \<lparr>ta_targeted = 1, ta_succeeded = 1, ta_failed = 0, ta_untargeted = [?b]\<rparr>"
    by (simp add: tally_fleet_eq reached_def pending_def untouched_def deviceFailed_def demo_fleet_defs)
  have f: "fleet [back_device, ?b] = [back_device, ?b]" by (simp add: fleet_def demo_fleet_defs)
  let ?st = "newRolloutStatus demo_libs 6 tripped_rollout RolloutProgressing 2 2 (tally_fleet demo_libs tripped_rollout [back_device, ?b]) False"
  have st: "\<not> rolloutStatusEqual demo_libs (fr_Status tripped_rollout) ?st"
    by (simp add: rolloutStatusEqual_def tripped_rollout_def newRolloutStatus_def)
  have up: "\<not> es_RolloutPaused (ed_Spec ?b)" by (simp add: demo_fleet_defs)
  have br: "\<not> breaker_tripped tripped_rollout (tally_fleet demo_libs tripped_rollout [back_device, ?b])" by (simp add: breaker_tripped_def t) (simp add: demo_fleet_defs)
  have sp: "fs_MaxUnavailable (fr_Spec tripped_rollout) = 1" "om_Namespace (fr_Meta tripped_rollout) = ''default''" "fs_Selector (fr_Spec tripped_rollout) = [(''tier'', ''edge'')]"
    by (simp_all add: tripped_rollout_def demo_rollout_def)
  have "snd (Rollout_Reconcile (fleet_server tripped_rollout [back_device, ?b]) demo_libs 6 (''default'', ''ro'') []) =
     [GotRollout (''default'', ''ro'') (Inr tripped_rollout), ListedDevices ''default'' [(''tier'', ''edge'')] (Inr [back_device, ?b]),
      UpdatedDevice (target_device tripped_rollout ?b) None, UpdatedRolloutStatus (tripped_rollout\<lparr>fr_Status := ?st\<rparr>) None]"
    using st up unfolding Rollout_Reconcile_run[OF fleet_server_reads refl] f
    by (simp add: br[unfolded t] t sp in_flight_def write_status_def client_defs fleet_server_def demo_server_def bindK_def callK_def retK_def Let_def numeral_2_eq_2)
  then show ?thesis
    by (intro exI[of _ ?st]) (simp add: newRolloutStatus_def)
qed

text \<open>The breaker un-trips itself. A pass that finds the only targeted device dark pauses the
  rollout and the device; when the device finishes its transaction and reports again, the
  next pass, without anybody having resumed anything, sets the phase back to Progressing and
  targets a device that has joined since. The comment on RolloutPaused rules this out.\<close>

theorem breaker_untrips_itself:
  "snd (Rollout_Reconcile (fleet_server demo_rollout [dark_device]) demo_libs 5 (''default'', ''ro'') []) =
     [GotRollout (''default'', ''ro'') (Inr demo_rollout), ListedDevices ''default'' [(''tier'', ''edge'')] (Inr [dark_device]),
      UpdatedDevice (pause_device dark_device) None, UpdatedRolloutStatus tripped_rollout None] \<and>
   fst_Phase (fr_Status tripped_rollout) = RolloutPaused \<and> es_RolloutPaused (ed_Spec back_device) \<and>
   (\<exists>st. fst_Phase st = RolloutProgressing \<and>
     snd (Rollout_Reconcile (fleet_server tripped_rollout [back_device, named_device ''b'']) demo_libs 6 (''default'', ''ro'') []) =
     [GotRollout (''default'', ''ro'') (Inr tripped_rollout), ListedDevices ''default'' [(''tier'', ''edge'')] (Inr [back_device, named_device ''b'']),
      UpdatedDevice (target_device tripped_rollout (named_device ''b'')) None, UpdatedRolloutStatus (tripped_rollout\<lparr>fr_Status := st\<rparr>) None])"
  by (intro conjI demo_trips demo_untrips) (simp_all add: tripped_rollout_def newRolloutStatus_def back_device_def pause_device_def)

text \<open>A failure of an earlier target is charged to the new one. A device that failed before
  (or is Degraded) and is now targeted counts as failed at once, before it can have tried: it
  takes no capacity of the batch, and a fleet of such devices trips the breaker right after it was
  targeted.\<close>

theorem stale_failure_trips_breaker:
  assumes "valid_rollout ro" "devs \<noteq> []" "length devs \<le> 21474836" "\<forall>d \<in> set devs. untouched ro d \<and> deviceFailed L d"
  shows "rollout_phase L ro (map (target_device ro) devs) = RolloutPaused \<and> in_flight (tally_fleet L ro (map (target_device ro) devs)) = 0"
proof -
  let ?devs = "map (target_device ro) devs"
  have all: "\<And>d. d \<in> set devs \<Longrightarrow> \<not> reached ro d" "\<And>d. d \<in> set devs \<Longrightarrow> deviceFailed L d"
    using assms(4) by (auto simp: untouched_def)
  have "count (\<lambda>d. reached ro d \<or> pending ro d) ?devs = int (length devs)" "count (\<lambda>d. pending ro d \<and> deviceFailed L d) ?devs = int (length devs)"
    using all by (simp_all add: count_all)
  moreover have "count (\<lambda>d. pending ro d \<and> \<not> deviceFailed L d) ?devs = 0" using all by (auto simp: count_def filter_empty_conv)
  ultimately show ?thesis
    using assms(1-3) by (simp add: rollout_phase_def breaker_iff valid_rollout_def in_flight_eq)
qed

theorem stale_failure_trips_breaker_witness:
  "rollout_phase demo_libs demo_rollout [target_device demo_rollout (demo_device\<lparr>ed_Status := (ed_Status demo_device)\<lparr>eds_Phase := PhaseDegraded\<rparr>\<rparr>)] = RolloutPaused"
  using stale_failure_trips_breaker[of demo_rollout "[demo_device\<lparr>ed_Status := (ed_Status demo_device)\<lparr>eds_Phase := PhaseDegraded\<rparr>\<rparr>]" demo_libs]
  by (simp add: valid_rollout_def untouched_def reached_def pending_def deviceFailed_def) (simp add: demo_device_def demo_rollout_def)

lemma selects_match: "selects sel labels \<longleftrightarrow> sel \<noteq> [] \<and> (\<forall>(k, v) \<in> set sel. labels k = Some v \<or> v = [] \<and> labels k = None)"
  by (fastforce simp: selects_def list_all_iff split: option.splits)

text \<open>Device events reach the right rollouts: a device event wakes up every rollout of the
  namespace that would list the device, in the order of the listing; it wakes up another one only
  where a selector asks for an empty value and the device lacks the label, or the selector is
  empty. A failed listing wakes up none.\<close>

theorem rolloutsForDevice_wakes:
  assumes "on_ListRollouts S hist (om_Namespace (ed_Meta obj)) = Inr ros"
  shows "\<exists>keep. fst (rolloutsForDevice S obj hist) = Done (map (\<lambda>ro. (om_Namespace (fr_Meta ro), om_Name (fr_Meta ro))) (filter keep ros)) \<and>
    (\<forall>ro. fs_Selector (fr_Spec ro) \<noteq> [] \<and> label_match (fs_Selector (fr_Spec ro)) (om_Labels (ed_Meta obj)) \<longrightarrow> keep ro) \<and>
    (\<forall>ro. keep ro \<and> (\<forall>(k, v) \<in> set (fs_Selector (fr_Spec ro)). v \<noteq> []) \<longrightarrow> label_match (fs_Selector (fr_Spec ro)) (om_Labels (ed_Meta obj)))"
  by (intro exI[of _ "\<lambda>ro. selects (fs_Selector (fr_Spec ro)) (om_Labels (ed_Meta obj))"])
    (use assms in \<open>fastforce simp: rolloutsForDevice_def ListRollouts_def bindK_def callK_def retK_def Let_def selects_match label_match_def\<close>)

theorem rolloutsForDevice_wakes_witness:
  "fst (rolloutsForDevice ((fleet_server demo_rollout [])\<lparr>on_ListRollouts := \<lambda>_ _. Inr [demo_rollout]\<rparr>)
     (demo_device\<lparr>ed_Meta := (ed_Meta demo_device)\<lparr>om_Labels := [''tier'' \<mapsto> ''edge'']\<rparr>\<rparr>) []) = Done [(''default'', ''ro'')]"
  using rolloutsForDevice_wakes[where S = "(fleet_server demo_rollout [])\<lparr>on_ListRollouts := \<lambda>_ _. Inr [demo_rollout]\<rparr>" and ros = "[demo_rollout]"
      and obj = "demo_device\<lparr>ed_Meta := (ed_Meta demo_device)\<lparr>om_Labels := [''tier'' \<mapsto> ''edge'']\<rparr>\<rparr>" and hist = "[]"]
  by (auto simp: label_match_def demo_rollout_def)

end
