(* ===== verification/Deep_Copy.thy ===== *)
theory Deep_Copy
  imports Fleet_API
begin

text \<open>
  The deep copies of \<open>api/v1alpha1/zz_generated.deepcopy.go\<close>, over an explicit heap. A struct is its
  scalar fields together with references to the cells of its maps, slices and pointers; the record
  fields of the scalars that stand behind a reference are not used. An assignment of structs copies
  the references; the generated functions replace each of them by a reference to a new cell. The
  elements of a new slice are filled in before the slice is allocated, which no program can tell
  from the order of the source.

  The locale \<open>deep_copy\<close> is the contract of such a function, closed under pairs, structs, references and
  slices; all the generated functions meet it. Copies of types of the API machinery (conditions,
  times, object and list metadata) are parameters with this contract.
\<close>

record SpecRef =
  sr_scalars :: EdgeDeviceSpec
  sr_DeviceLabels :: "nat option"

record StatusRef =
  st_scalars :: EdgeDeviceStatus
  st_Conds :: "nat option"
  st_Heartbeat :: "nat option"

record 'm DeviceRef =
  dr_TypeMeta :: "string \<times> string"
  dr_Meta :: 'm
  dr_Spec :: SpecRef
  dr_Status :: StatusRef

record RolloutSpecRef =
  rs_scalars :: FleetRolloutSpec
  rs_Selector :: "nat option"

record RolloutStatusRef =
  rt_scalars :: FleetRolloutStatus
  rt_Conds :: "nat option"

record 'm RolloutRef =
  rr_TypeMeta :: "string \<times> string"
  rr_Meta :: 'm
  rr_Spec :: RolloutSpecRef
  rr_Status :: RolloutStatusRef

datatype 'm cell =
    MapCell "string \<rightharpoonup> string"
  | CondCell "int Condition list"
  | TimeCell int
  | DevCell "'m DeviceRef list"
  | RoCell "'m RolloutRef list"

record ('m, 'l) ListRef =
  li_TypeMeta :: "string \<times> string"
  li_ListMeta :: 'l
  li_Items :: "nat option"

record 'm heap =
  cells :: "nat \<rightharpoonup> 'm cell"
  hnext :: nat

definition alloc :: "'m cell \<Rightarrow> 'm heap \<Rightarrow> nat \<times> 'm heap" where
  "alloc c h = (hnext h, h\<lparr>cells := (cells h)(hnext h \<mapsto> c), hnext := Suc (hnext h)\<rparr>)"

text \<open>\<open>box\<close> copies what a reference points to into a new cell; a nil reference stays nil.\<close>

definition box :: "('m cell \<Rightarrow> 'x option) \<Rightarrow> ('x \<Rightarrow> 'm cell) \<Rightarrow> ('x \<Rightarrow> 'm heap \<Rightarrow> 'x \<times> 'm heap) \<Rightarrow> nat option \<Rightarrow> 'm heap \<Rightarrow> nat option \<times> 'm heap" where
  "box prj mk copy r h =
     (case Option.bind (Option.bind r (cells h)) prj of
        None \<Rightarrow> (None, h)
      | Some x \<Rightarrow> (let (y, h1) = copy x h; (q, h2) = alloc (mk y) h1 in (Some q, h2)))"

fun copy_each :: "('x \<Rightarrow> 'm heap \<Rightarrow> 'x \<times> 'm heap) \<Rightarrow> 'x list \<Rightarrow> 'm heap \<Rightarrow> 'x list \<times> 'm heap" where
  "copy_each copy [] h = ([], h)"
| "copy_each copy (x # xs) h = (let (y, h1) = copy x h; (ys, h2) = copy_each copy xs h1 in (y # ys, h2))"

fun get_map :: "'m cell \<Rightarrow> (string \<rightharpoonup> string) option" where "get_map (MapCell m) = Some m" | "get_map _ = None"

fun get_conds :: "'m cell \<Rightarrow> int Condition list option" where "get_conds (CondCell cs) = Some cs" | "get_conds _ = None"

fun get_time :: "'m cell \<Rightarrow> int option" where "get_time (TimeCell t) = Some t" | "get_time _ = None"

fun get_devs :: "'m cell \<Rightarrow> 'm DeviceRef list option" where "get_devs (DevCell ds) = Some ds" | "get_devs _ = None"

fun get_ros :: "'m cell \<Rightarrow> 'm RolloutRef list option" where "get_ros (RoCell rs) = Some rs" | "get_ros _ = None"

text \<open>The copies of the API machinery that the generated code calls.\<close>

record ('m, 'l) Copies =
  cp_Condition :: "int Condition \<Rightarrow> int Condition"
  cp_Time :: "int \<Rightarrow> int"
  cp_ObjectMeta :: "'m \<Rightarrow> 'm heap \<Rightarrow> 'm \<times> 'm heap"
  cp_ListMeta :: "'l \<Rightarrow> 'm heap \<Rightarrow> 'l \<times> 'm heap"

text \<open>The loop \<open>for key, val := range *in\<close> puts every entry into the new map, in an order that Go does not fix;
  the definition is its result, which lemma \<open>range_copies\<close> proves of every order.\<close>

definition copy_map :: "(string \<rightharpoonup> string) \<Rightarrow> 'm heap \<Rightarrow> (string \<rightharpoonup> string) \<times> 'm heap" where
  "copy_map m h = (Map.empty ++ m, h)"

definition copy_conds :: "('m, 'l) Copies \<Rightarrow> int Condition list \<Rightarrow> 'm heap \<Rightarrow> int Condition list \<times> 'm heap" where
  "copy_conds K = copy_each (\<lambda>c h. (cp_Condition K c, h))"

definition EdgeDeviceSpec_DeepCopyInto :: "SpecRef \<Rightarrow> 'm heap \<Rightarrow> SpecRef \<times> 'm heap" where
  "EdgeDeviceSpec_DeepCopyInto s h =
     (let (labels, h1) = box get_map MapCell copy_map (sr_DeviceLabels s) h in (s\<lparr>sr_DeviceLabels := labels\<rparr>, h1))"

definition EdgeDeviceStatus_DeepCopyInto :: "('m, 'l) Copies \<Rightarrow> StatusRef \<Rightarrow> 'm heap \<Rightarrow> StatusRef \<times> 'm heap" where
  "EdgeDeviceStatus_DeepCopyInto K s h =
     (let (conds, h1) = box get_conds CondCell (copy_conds K) (st_Conds s) h;
          (beat, h2) = box get_time TimeCell (\<lambda>t h. (cp_Time K t, h)) (st_Heartbeat s) h1
      in (s\<lparr>st_Conds := conds, st_Heartbeat := beat\<rparr>, h2))"

definition EdgeDevice_DeepCopyInto :: "('m, 'l) Copies \<Rightarrow> 'm DeviceRef \<Rightarrow> 'm heap \<Rightarrow> 'm DeviceRef \<times> 'm heap" where
  "EdgeDevice_DeepCopyInto K d h =
     (let (m, h1) = cp_ObjectMeta K (dr_Meta d) h;
          (sp, h2) = EdgeDeviceSpec_DeepCopyInto (dr_Spec d) h1;
          (st, h3) = EdgeDeviceStatus_DeepCopyInto K (dr_Status d) h2
      in (d\<lparr>dr_Meta := m, dr_Spec := sp, dr_Status := st\<rparr>, h3))"

definition EdgeDeviceList_DeepCopyInto :: "('m, 'l) Copies \<Rightarrow> ('m, 'l) ListRef \<Rightarrow> 'm heap \<Rightarrow> ('m, 'l) ListRef \<times> 'm heap" where
  "EdgeDeviceList_DeepCopyInto K l h =
     (let (m, h1) = cp_ListMeta K (li_ListMeta l) h;
          (items, h2) = box get_devs DevCell (copy_each (EdgeDevice_DeepCopyInto K)) (li_Items l) h1
      in (l\<lparr>li_ListMeta := m, li_Items := items\<rparr>, h2))"

definition FleetRolloutSpec_DeepCopyInto :: "RolloutSpecRef \<Rightarrow> 'm heap \<Rightarrow> RolloutSpecRef \<times> 'm heap" where
  "FleetRolloutSpec_DeepCopyInto s h =
     (let (sel, h1) = box get_map MapCell copy_map (rs_Selector s) h in (s\<lparr>rs_Selector := sel\<rparr>, h1))"

definition FleetRolloutStatus_DeepCopyInto :: "('m, 'l) Copies \<Rightarrow> RolloutStatusRef \<Rightarrow> 'm heap \<Rightarrow> RolloutStatusRef \<times> 'm heap" where
  "FleetRolloutStatus_DeepCopyInto K s h =
     (let (conds, h1) = box get_conds CondCell (copy_conds K) (rt_Conds s) h in (s\<lparr>rt_Conds := conds\<rparr>, h1))"

definition FleetRollout_DeepCopyInto :: "('m, 'l) Copies \<Rightarrow> 'm RolloutRef \<Rightarrow> 'm heap \<Rightarrow> 'm RolloutRef \<times> 'm heap" where
  "FleetRollout_DeepCopyInto K r h =
     (let (m, h1) = cp_ObjectMeta K (rr_Meta r) h;
          (sp, h2) = FleetRolloutSpec_DeepCopyInto (rr_Spec r) h1;
          (st, h3) = FleetRolloutStatus_DeepCopyInto K (rr_Status r) h2
      in (r\<lparr>rr_Meta := m, rr_Spec := sp, rr_Status := st\<rparr>, h3))"

definition FleetRolloutList_DeepCopyInto :: "('m, 'l) Copies \<Rightarrow> ('m, 'l) ListRef \<Rightarrow> 'm heap \<Rightarrow> ('m, 'l) ListRef \<times> 'm heap" where
  "FleetRolloutList_DeepCopyInto K l h =
     (let (m, h1) = cp_ListMeta K (li_ListMeta l) h;
          (items, h2) = box get_ros RoCell (copy_each (FleetRollout_DeepCopyInto K)) (li_Items l) h1
      in (l\<lparr>li_ListMeta := m, li_Items := items\<rparr>, h2))"

text \<open>\<open>DeepCopy\<close> of a pointer, nil being \<open>None\<close>; the struct that \<open>new\<close> makes is the value returned.\<close>

definition DeepCopy :: "('x \<Rightarrow> 'm heap \<Rightarrow> 'x \<times> 'm heap) \<Rightarrow> 'x option \<Rightarrow> 'm heap \<Rightarrow> 'x option \<times> 'm heap" where
  "DeepCopy copyInto x h = (case x of None \<Rightarrow> (None, h) | Some v \<Rightarrow> (let (out, h1) = copyInto v h in (Some out, h1)))"

definition EdgeDevice_DeepCopy :: "('m, 'l) Copies \<Rightarrow> 'm DeviceRef option \<Rightarrow> 'm heap \<Rightarrow> 'm DeviceRef option \<times> 'm heap" where
  "EdgeDevice_DeepCopy K = DeepCopy (EdgeDevice_DeepCopyInto K)"

definition EdgeDeviceList_DeepCopy :: "('m, 'l) Copies \<Rightarrow> ('m, 'l) ListRef option \<Rightarrow> 'm heap \<Rightarrow> ('m, 'l) ListRef option \<times> 'm heap" where
  "EdgeDeviceList_DeepCopy K = DeepCopy (EdgeDeviceList_DeepCopyInto K)"

definition EdgeDeviceSpec_DeepCopy :: "SpecRef option \<Rightarrow> 'm heap \<Rightarrow> SpecRef option \<times> 'm heap" where
  "EdgeDeviceSpec_DeepCopy = DeepCopy EdgeDeviceSpec_DeepCopyInto"

definition EdgeDeviceStatus_DeepCopy :: "('m, 'l) Copies \<Rightarrow> StatusRef option \<Rightarrow> 'm heap \<Rightarrow> StatusRef option \<times> 'm heap" where
  "EdgeDeviceStatus_DeepCopy K = DeepCopy (EdgeDeviceStatus_DeepCopyInto K)"

definition FleetRollout_DeepCopy :: "('m, 'l) Copies \<Rightarrow> 'm RolloutRef option \<Rightarrow> 'm heap \<Rightarrow> 'm RolloutRef option \<times> 'm heap" where
  "FleetRollout_DeepCopy K = DeepCopy (FleetRollout_DeepCopyInto K)"

definition FleetRolloutList_DeepCopy :: "('m, 'l) Copies \<Rightarrow> ('m, 'l) ListRef option \<Rightarrow> 'm heap \<Rightarrow> ('m, 'l) ListRef option \<times> 'm heap" where
  "FleetRolloutList_DeepCopy K = DeepCopy (FleetRolloutList_DeepCopyInto K)"

definition FleetRolloutSpec_DeepCopy :: "RolloutSpecRef option \<Rightarrow> 'm heap \<Rightarrow> RolloutSpecRef option \<times> 'm heap" where
  "FleetRolloutSpec_DeepCopy = DeepCopy FleetRolloutSpec_DeepCopyInto"

definition FleetRolloutStatus_DeepCopy :: "('m, 'l) Copies \<Rightarrow> RolloutStatusRef option \<Rightarrow> 'm heap \<Rightarrow> RolloutStatusRef option \<times> 'm heap" where
  "FleetRolloutStatus_DeepCopy K = DeepCopy (FleetRolloutStatus_DeepCopyInto K)"

text \<open>The interface value that the API machinery asks for; nil stays an interface without a value.\<close>

datatype ('m, 'l) runtime_Object = ObjDevice "'m DeviceRef" | ObjDeviceList "('m, 'l) ListRef" | ObjRollout "'m RolloutRef" | ObjRolloutList "('m, 'l) ListRef"

definition EdgeDevice_DeepCopyObject :: "('m, 'l) Copies \<Rightarrow> 'm DeviceRef option \<Rightarrow> 'm heap \<Rightarrow> ('m, 'l) runtime_Object option \<times> 'm heap" where
  "EdgeDevice_DeepCopyObject K x h = (case EdgeDevice_DeepCopy K x h of (Some c, h1) \<Rightarrow> (Some (ObjDevice c), h1) | (None, h1) \<Rightarrow> (None, h1))"

definition EdgeDeviceList_DeepCopyObject :: "('m, 'l) Copies \<Rightarrow> ('m, 'l) ListRef option \<Rightarrow> 'm heap \<Rightarrow> ('m, 'l) runtime_Object option \<times> 'm heap" where
  "EdgeDeviceList_DeepCopyObject K x h = (case EdgeDeviceList_DeepCopy K x h of (Some c, h1) \<Rightarrow> (Some (ObjDeviceList c), h1) | (None, h1) \<Rightarrow> (None, h1))"

definition FleetRollout_DeepCopyObject :: "('m, 'l) Copies \<Rightarrow> 'm RolloutRef option \<Rightarrow> 'm heap \<Rightarrow> ('m, 'l) runtime_Object option \<times> 'm heap" where
  "FleetRollout_DeepCopyObject K x h = (case FleetRollout_DeepCopy K x h of (Some c, h1) \<Rightarrow> (Some (ObjRollout c), h1) | (None, h1) \<Rightarrow> (None, h1))"

definition FleetRolloutList_DeepCopyObject :: "('m, 'l) Copies \<Rightarrow> ('m, 'l) ListRef option \<Rightarrow> 'm heap \<Rightarrow> ('m, 'l) runtime_Object option \<times> 'm heap" where
  "FleetRolloutList_DeepCopyObject K x h = (case FleetRolloutList_DeepCopy K x h of (Some c, h1) \<Rightarrow> (Some (ObjRolloutList c), h1) | (None, h1) \<Rightarrow> (None, h1))"

text \<open>References and values behind a boxed value.\<close>

definition box_refs :: "('m cell \<Rightarrow> 'x option) \<Rightarrow> ('x \<Rightarrow> 'm heap \<Rightarrow> nat set) \<Rightarrow> nat option \<Rightarrow> 'm heap \<Rightarrow> nat set" where
  "box_refs prj refs r h = (case r of None \<Rightarrow> {} | Some p \<Rightarrow> insert p (case Option.bind (cells h p) prj of None \<Rightarrow> {} | Some x \<Rightarrow> refs x h))"

definition box_val :: "('m cell \<Rightarrow> 'x option) \<Rightarrow> ('x \<Rightarrow> 'm heap \<Rightarrow> 'v) \<Rightarrow> nat option \<Rightarrow> 'm heap \<Rightarrow> 'v option" where
  "box_val prj val r h = map_option (\<lambda>x. val x h) (Option.bind (Option.bind r (cells h)) prj)"

text \<open>What a value with references denotes. A nil map or slice denotes the empty one. The selector of a
  rollout is kept beside the other fields of its spec as a map.\<close>

definition or_else :: "'v \<Rightarrow> 'v option \<Rightarrow> 'v" where
  "or_else d x = (case x of None \<Rightarrow> d | Some v \<Rightarrow> v)"

definition spec_refs :: "SpecRef \<Rightarrow> 'm heap \<Rightarrow> nat set" where
  "spec_refs s = box_refs get_map (\<lambda>_ _. {}) (sr_DeviceLabels s)"

definition spec_val :: "SpecRef \<Rightarrow> 'm heap \<Rightarrow> EdgeDeviceSpec" where
  "spec_val s h = (sr_scalars s)\<lparr>es_DeviceLabels := or_else Map.empty (box_val get_map (\<lambda>m _. m) (sr_DeviceLabels s) h)\<rparr>"

definition status_refs :: "StatusRef \<Rightarrow> 'm heap \<Rightarrow> nat set" where
  "status_refs s h = box_refs get_conds (\<lambda>_ _. {}) (st_Conds s) h \<union> box_refs get_time (\<lambda>_ _. {}) (st_Heartbeat s) h"

definition status_val :: "StatusRef \<Rightarrow> 'm heap \<Rightarrow> EdgeDeviceStatus" where
  "status_val s h = (st_scalars s)\<lparr>eds_Conditions := or_else [] (box_val get_conds (\<lambda>cs _. cs) (st_Conds s) h),
     eds_LastHeartbeat := box_val get_time (\<lambda>t _. t) (st_Heartbeat s) h\<rparr>"

definition rollout_spec_refs :: "RolloutSpecRef \<Rightarrow> 'm heap \<Rightarrow> nat set" where
  "rollout_spec_refs s = box_refs get_map (\<lambda>_ _. {}) (rs_Selector s)"

definition rollout_spec_val :: "RolloutSpecRef \<Rightarrow> 'm heap \<Rightarrow> FleetRolloutSpec \<times> (string \<rightharpoonup> string)" where
  "rollout_spec_val s h = (rs_scalars s, or_else Map.empty (box_val get_map (\<lambda>m _. m) (rs_Selector s) h))"

definition rollout_status_refs :: "RolloutStatusRef \<Rightarrow> 'm heap \<Rightarrow> nat set" where
  "rollout_status_refs s = box_refs get_conds (\<lambda>_ _. {}) (rt_Conds s)"

definition rollout_status_val :: "RolloutStatusRef \<Rightarrow> 'm heap \<Rightarrow> FleetRolloutStatus" where
  "rollout_status_val s h = (rt_scalars s)\<lparr>fst_Conditions := or_else [] (box_val get_conds (\<lambda>cs _. cs) (rt_Conds s) h)\<rparr>"

text \<open>
  The contract of a deep copy. \<open>refs\<close> are the cells a value reaches, \<open>val\<close> is the immutable value it
  denotes. A copy only allocates, denotes the same value, and reaches new cells only.
\<close>

locale deep_copy =
  fixes copy :: "'a \<Rightarrow> 'm heap \<Rightarrow> 'a \<times> 'm heap" and refs :: "'a \<Rightarrow> 'm heap \<Rightarrow> nat set" and val :: "'a \<Rightarrow> 'm heap \<Rightarrow> 'v"
  assumes grows: "copy x h = (y, h') \<Longrightarrow> hnext h \<le> hnext h' \<and> (\<forall>r < hnext h. cells h' r = cells h r)"
    and fresh: "copy x h = (y, h') \<Longrightarrow> refs y h' \<subseteq> {hnext h..<hnext h'}"
    and same: "refs x h \<subseteq> {..<hnext h} \<Longrightarrow> copy x h = (y, h') \<Longrightarrow> val y h' = val x h"
    and local_refs: "(\<forall>r \<in> refs x h. cells h' r = cells h r) \<Longrightarrow> refs x h' = refs x h"
    and local_val: "(\<forall>r \<in> refs x h. cells h' r = cells h r) \<Longrightarrow> val x h' = val x h"
begin

text \<open>Original and copy are independent: whatever is stored in the cells of one, or allocated later,
  the other one denotes the same value as before.\<close>

lemma independent:
  assumes "copy x h = (y, h')" "refs x h \<subseteq> {..<hnext h}"
  shows "(\<forall>r < hnext h. cells h2 r = cells h' r) \<Longrightarrow> val x h2 = val x h"
    "(\<forall>r \<in> {hnext h..<hnext h'}. cells h2 r = cells h' r) \<Longrightarrow> val y h2 = val x h"
proof -
  assume "\<forall>r < hnext h. cells h2 r = cells h' r"
  with grows[OF assms(1)] assms(2) show "val x h2 = val x h" by (intro local_val) auto
next
  assume "\<forall>r \<in> {hnext h..<hnext h'}. cells h2 r = cells h' r"
  with fresh[OF assms(1)] have "val y h2 = val y h'" by (intro local_val) auto
  with same[OF assms(2,1)] show "val y h2 = val x h" by simp
qed

end

text \<open>The documented behaviour of the copies of the API machinery.\<close>

definition plain_copies :: "('m, 'l) Copies \<Rightarrow> bool" where
  "plain_copies K \<longleftrightarrow> (\<forall>c. cp_Condition K c = c) \<and> (\<forall>t. cp_Time K t = t)"

definition copy_laws :: "('m, 'l) Copies \<Rightarrow> ('m \<Rightarrow> 'm heap \<Rightarrow> nat set) \<Rightarrow> ('m \<Rightarrow> 'm heap \<Rightarrow> 'mv) \<Rightarrow>
    ('l \<Rightarrow> 'm heap \<Rightarrow> nat set) \<Rightarrow> ('l \<Rightarrow> 'm heap \<Rightarrow> 'lv) \<Rightarrow> bool" where
  "copy_laws K mrefs mval lrefs lval \<longleftrightarrow> plain_copies K \<and> deep_copy (cp_ObjectMeta K) mrefs mval \<and> deep_copy (cp_ListMeta K) lrefs lval"

definition device_refs :: "('m \<Rightarrow> 'm heap \<Rightarrow> nat set) \<Rightarrow> 'm DeviceRef \<Rightarrow> 'm heap \<Rightarrow> nat set" where
  "device_refs mrefs d h = mrefs (dr_Meta d) h \<union> (spec_refs (dr_Spec d) h \<union> status_refs (dr_Status d) h)"

definition device_val :: "('m \<Rightarrow> 'm heap \<Rightarrow> 'mv) \<Rightarrow> 'm DeviceRef \<Rightarrow> 'm heap \<Rightarrow> (string \<times> string) \<times> 'mv \<times> EdgeDeviceSpec \<times> EdgeDeviceStatus" where
  "device_val mval d h = (dr_TypeMeta d, mval (dr_Meta d) h, spec_val (dr_Spec d) h, status_val (dr_Status d) h)"

definition rollout_refs :: "('m \<Rightarrow> 'm heap \<Rightarrow> nat set) \<Rightarrow> 'm RolloutRef \<Rightarrow> 'm heap \<Rightarrow> nat set" where
  "rollout_refs mrefs d h = mrefs (rr_Meta d) h \<union> (rollout_spec_refs (rr_Spec d) h \<union> rollout_status_refs (rr_Status d) h)"

definition rollout_val :: "('m \<Rightarrow> 'm heap \<Rightarrow> 'mv) \<Rightarrow> 'm RolloutRef \<Rightarrow> 'm heap \<Rightarrow>
    (string \<times> string) \<times> 'mv \<times> (FleetRolloutSpec \<times> (string \<rightharpoonup> string)) \<times> FleetRolloutStatus" where
  "rollout_val mval d h = (rr_TypeMeta d, mval (rr_Meta d) h, rollout_spec_val (rr_Spec d) h, rollout_status_val (rr_Status d) h)"

definition list_refs :: "('m cell \<Rightarrow> 'x list option) \<Rightarrow> ('x \<Rightarrow> 'm heap \<Rightarrow> nat set) \<Rightarrow> ('l \<Rightarrow> 'm heap \<Rightarrow> nat set) \<Rightarrow> ('m, 'l) ListRef \<Rightarrow> 'm heap \<Rightarrow> nat set" where
  "list_refs prj refs lrefs l h = lrefs (li_ListMeta l) h \<union> box_refs prj (\<lambda>xs h. \<Union>x \<in> set xs. refs x h) (li_Items l) h"

definition list_val :: "('m cell \<Rightarrow> 'x list option) \<Rightarrow> ('x \<Rightarrow> 'm heap \<Rightarrow> 'v) \<Rightarrow> ('l \<Rightarrow> 'm heap \<Rightarrow> 'lv) \<Rightarrow> ('m, 'l) ListRef \<Rightarrow> 'm heap \<Rightarrow>
    (string \<times> string) \<times> 'lv \<times> 'v list" where
  "list_val prj val lval l h = (li_TypeMeta l, lval (li_ListMeta l) h, or_else [] (box_val prj (\<lambda>xs h. map (\<lambda>x. val x h) xs) (li_Items l) h))"

definition demo_copies :: "(unit, unit) Copies" where
  "demo_copies = \<lparr>cp_Condition = (\<lambda>c. c), cp_Time = (\<lambda>t. t), cp_ObjectMeta = (\<lambda>m h. (m, h)), cp_ListMeta = (\<lambda>l h. (l, h))\<rparr>"

definition demo_heap :: "unit heap" where
  "demo_heap = \<lparr>cells = [0 \<mapsto> CondCell [], 1 \<mapsto> TimeCell 7], hnext = 2\<rparr>"

definition demo_status_ref :: StatusRef where
  "demo_status_ref = \<lparr>st_scalars = \<lparr>eds_Phase = PhaseReady, eds_Conditions = [], eds_CurrentFirmwareVersion = ''v1'', eds_ActiveSlot = ''A'',
       eds_LastHeartbeat = None, eds_ObservedGeneration = 1\<rparr>, st_Conds = Some 0, st_Heartbeat = Some 1\<rparr>"

section \<open>Lemmas\<close>

lemma deep_copy_pure: "(\<And>x. cp x = x) \<Longrightarrow> deep_copy (\<lambda>x h. (cp x, h)) (\<lambda>_ _. {}) (\<lambda>x _. x)"
  by unfold_locales auto

lemma deep_copy_pair:
  fixes c1 :: "'a \<Rightarrow> 'm heap \<Rightarrow> 'a \<times> 'm heap"
  assumes "deep_copy c1 r1 v1" "deep_copy c2 r2 v2"
  shows "deep_copy (\<lambda>(a, b) h. let (a', h1) = c1 a h; (b', h2) = c2 b h1 in ((a', b'), h2)) (\<lambda>(a, b) h. r1 a h \<union> r2 b h) (\<lambda>(a, b) h. (v1 a h, v2 b h))"
    (is "deep_copy ?c ?r ?v")
proof -
  note g1 = deep_copy.grows[OF assms(1)] and g2 = deep_copy.grows[OF assms(2)]
  note f1 = deep_copy.fresh[OF assms(1)] and f2 = deep_copy.fresh[OF assms(2)]
  note s1 = deep_copy.same[OF assms(1)] and s2 = deep_copy.same[OF assms(2)]
  note lr1 = deep_copy.local_refs[OF assms(1)] and lr2 = deep_copy.local_refs[OF assms(2)]
  note lv1 = deep_copy.local_val[OF assms(1)] and lv2 = deep_copy.local_val[OF assms(2)]
  have step: "\<exists>h1. c1 (fst x) h = (fst y, h1) \<and> c2 (snd x) h1 = (snd y, h')" if "?c x h = (y, h')" for x h y h'
    using that by (auto simp: Let_def split: prod.splits)
  show ?thesis
  proof
    fix x y and h h' :: "'m heap" assume c: "?c x h = (y, h')"
    from step[OF c] obtain h1 where h1: "c1 (fst x) h = (fst y, h1)" "c2 (snd x) h1 = (snd y, h')" by blast
    show gr: "hnext h \<le> hnext h' \<and> (\<forall>r<hnext h. cells h' r = cells h r)"
      using g1[OF h1(1)] g2[OF h1(2)] by (metis order_trans less_le_trans)
    have keep: "\<forall>r \<in> r1 (fst y) h1. cells h' r = cells h1 r" using f1[OF h1(1)] g2[OF h1(2)] by auto
    show "?r y h' \<subseteq> {hnext h..<hnext h'}"
    proof -
      have "{hnext h..<hnext h1} \<subseteq> {hnext h..<hnext h'}" "{hnext h1..<hnext h'} \<subseteq> {hnext h..<hnext h'}"
        using g1[OF h1(1)] g2[OF h1(2)] by auto
      then show ?thesis unfolding case_prod_beta lr1[OF keep]
        using order_trans[OF f1[OF h1(1)]] order_trans[OF f2[OF h1(2)]] by (intro Un_least) blast+
    qed
    assume "?r x h \<subseteq> {..<hnext h}"
    then have below: "r1 (fst x) h \<subseteq> {..<hnext h}" "r2 (snd x) h \<subseteq> {..<hnext h}" by (auto simp: case_prod_beta)
    have keep2: "\<forall>r \<in> r2 (snd x) h. cells h1 r = cells h r" using below(2) g1[OF h1(1)] by auto
    have "{..<hnext h} \<subseteq> {..<hnext h1}" using g1[OF h1(1)] by auto
    then have "r2 (snd x) h1 \<subseteq> {..<hnext h1}" unfolding lr2[OF keep2] by (rule order_trans[OF below(2)])
    then show "?v y h' = ?v x h"
      using s1[OF below(1) h1(1)] s2[OF _ h1(2)] lv1[OF keep] lv2[OF keep2] by (simp add: case_prod_beta)
  next
    fix x and h h' :: "'m heap" assume "\<forall>r \<in> ?r x h. cells h' r = cells h r"
    then have e: "\<forall>r \<in> r1 (fst x) h. cells h' r = cells h r" "\<forall>r \<in> r2 (snd x) h. cells h' r = cells h r" by (auto simp: case_prod_beta)
    show "?r x h' = ?r x h" "?v x h' = ?v x h" unfolding case_prod_beta lr1[OF e(1)] lr2[OF e(2)] lv1[OF e(1)] lv2[OF e(2)] by simp_all
  qed
qed

lemma deep_copy_struct:
  fixes copy :: "'a \<Rightarrow> 'm heap \<Rightarrow> 'a \<times> 'm heap"
  assumes "deep_copy copy refs val" "\<And>y s. get (put y s) = y" "\<And>y s v. f (put y s) v = f s v"
  shows "deep_copy (\<lambda>s h. let (y, h') = copy (get s) h in (put y s, h')) (\<lambda>s. refs (get s)) (\<lambda>s h. f s (val (get s) h))"
    (is "deep_copy ?c ?r ?v")
proof
  fix s s' and h h' :: "'m heap" assume "?c s h = (s', h')"
  then obtain y where y: "copy (get s) h = (y, h')" "s' = put y s" by (auto simp: Let_def split: prod.splits)
  show "hnext h \<le> hnext h' \<and> (\<forall>r<hnext h. cells h' r = cells h r)" by (rule deep_copy.grows[OF assms(1) y(1)])
  show "?r s' h' \<subseteq> {hnext h..<hnext h'}" using deep_copy.fresh[OF assms(1) y(1)] by (simp add: y(2) assms(2))
  assume "?r s h \<subseteq> {..<hnext h}"
  from deep_copy.same[OF assms(1) this y(1)] show "?v s' h' = ?v s h" by (simp add: y(2) assms(2,3))
next
  fix s and h h' :: "'m heap" assume "\<forall>r \<in> ?r s h. cells h' r = cells h r"
  then have "refs (get s) h' = refs (get s) h" "val (get s) h' = val (get s) h"
    by (rule deep_copy.local_refs[OF assms(1)], rule deep_copy.local_val[OF assms(1)])
  then show "?r s h' = ?r s h" "?v s h' = ?v s h" by simp_all
qed

lemma box_step:
  assumes "Option.bind (Option.bind r (cells h)) prj = Some x" "box prj mk copy r h = (q, h')"
  shows "\<exists>y h1. copy x h = (y, h1) \<and> q = Some (hnext h1) \<and> h' = snd (alloc (mk y) h1)"
  using assms by (auto simp: box_def alloc_def Let_def split: prod.splits)

lemma alloc_keeps:
  assumes "deep_copy copy refs val" "copy x h = (y, h1)"
  shows "refs y (snd (alloc c h1)) = refs y h1" "val y (snd (alloc c h1)) = val y h1"
proof -
  have "\<forall>r \<in> refs y h1. cells (snd (alloc c h1)) r = cells h1 r"
    using deep_copy.fresh[OF assms] by (auto simp: alloc_def)
  then show "refs y (snd (alloc c h1)) = refs y h1" "val y (snd (alloc c h1)) = val y h1"
    by (rule deep_copy.local_refs[OF assms(1)], rule deep_copy.local_val[OF assms(1)])
qed

lemma deep_copy_box:
  fixes copy :: "'x \<Rightarrow> 'm heap \<Rightarrow> 'x \<times> 'm heap"
  assumes D: "deep_copy copy refs val" and mk: "\<And>x. prj (mk x) = Some x"
  shows "deep_copy (box prj mk copy) (box_refs prj refs) (box_val prj val)"
proof
  fix r q and h h' :: "'m heap" assume b: "box prj mk copy r h = (q, h')"
  show "hnext h \<le> hnext h' \<and> (\<forall>r<hnext h. cells h' r = cells h r)"
    using b by (auto simp: box_def alloc_def Let_def split: option.splits prod.splits dest!: deep_copy.grows[OF D])
  show "box_refs prj refs q h' \<subseteq> {hnext h..<hnext h'}"
  proof (cases "Option.bind (Option.bind r (cells h)) prj")
    case None
    then show ?thesis using b by (simp add: box_def box_refs_def)
  next
    case (Some x)
    from box_step[OF Some b] obtain y h1 where y: "copy x h = (y, h1)" "q = Some (hnext h1)" "h' = snd (alloc (mk y) h1)" by blast
    note k = deep_copy.grows[OF D y(1)] deep_copy.fresh[OF D y(1)] alloc_keeps[OF D y(1), of "mk y"]
    have "refs y h' \<subseteq> {hnext h..<hnext h1}" using k(2,3) by (simp add: y(3))
    moreover have "{hnext h..<hnext h1} \<subseteq> {hnext h..<hnext h'}" by (auto simp: y(3) alloc_def)
    ultimately have "refs y h' \<subseteq> {hnext h..<hnext h'}" by blast
    then show ?thesis using k(1) by (simp add: box_refs_def y(2)) (simp add: y(3) alloc_def mk)
  qed
  assume below: "box_refs prj refs r h \<subseteq> {..<hnext h}"
  show "box_val prj val q h' = box_val prj val r h"
  proof (cases "Option.bind (Option.bind r (cells h)) prj")
    case None
    then show ?thesis using b by (simp add: box_def box_val_def)
  next
    case (Some x)
    from box_step[OF Some b] obtain y h1 where y: "copy x h = (y, h1)" "q = Some (hnext h1)" "h' = snd (alloc (mk y) h1)" by blast
    have "refs x h \<subseteq> {..<hnext h}" using below Some by (cases r) (auto simp: box_refs_def)
    from deep_copy.same[OF D this y(1)] alloc_keeps(2)[OF D y(1), of "mk y"] have "val y h' = val x h" by (simp add: y(3))
    then show ?thesis using Some by (simp add: box_val_def y(2)) (simp add: y(3) alloc_def mk)
  qed
next
  fix r and h h' :: "'m heap" assume eq: "\<forall>p \<in> box_refs prj refs r h. cells h' p = cells h p"
  have cell: "Option.bind r (cells h') = Option.bind r (cells h)" using eq by (cases r) (simp_all add: box_refs_def)
  have loc: "refs x h' = refs x h" "val x h' = val x h" if "Option.bind (Option.bind r (cells h)) prj = Some x" for x
  proof -
    have "\<forall>p \<in> refs x h. cells h' p = cells h p" using eq that by (cases r) (simp_all add: box_refs_def)
    then show "refs x h' = refs x h" "val x h' = val x h" by (rule deep_copy.local_refs[OF D], rule deep_copy.local_val[OF D])
  qed
  show "box_refs prj refs r h' = box_refs prj refs r h" "box_val prj val r h' = box_val prj val r h"
    using cell loc by (cases r; cases "Option.bind (Option.bind r (cells h)) prj"; simp add: box_refs_def box_val_def)+
qed

lemma deep_copy_each:
  fixes copy :: "'x \<Rightarrow> 'm heap \<Rightarrow> 'x \<times> 'm heap"
  assumes D: "deep_copy copy refs val"
  shows "deep_copy (copy_each copy) (\<lambda>xs h. \<Union>x \<in> set xs. refs x h) (\<lambda>xs h. map (\<lambda>x. val x h) xs)"
    (is "deep_copy ?c ?r ?v")
proof -
  have loc: "refs x h' = refs x h \<and> val x h' = val x h" if "\<forall>r \<in> ?r xs h. cells h' r = cells h r" "x \<in> set xs" for x xs h h'
  proof -
    have "\<forall>r \<in> refs x h. cells h' r = cells h r" using that by auto
    then show ?thesis using deep_copy.local_refs[OF D] deep_copy.local_val[OF D] by blast
  qed
  have all: "hnext h \<le> hnext h' \<and> (\<forall>r < hnext h. cells h' r = cells h r) \<and> ?r ys h' \<subseteq> {hnext h..<hnext h'} \<and>
      (?r xs h \<subseteq> {..<hnext h} \<longrightarrow> ?v ys h' = ?v xs h)" if "?c xs h = (ys, h')" for xs ys h h'
    using that
  proof (induction xs arbitrary: ys h)
    case (Cons x xs)
    then obtain y h1 zs where st: "copy x h = (y, h1)" "?c xs h1 = (zs, h')" "ys = y # zs" by (auto simp: Let_def split: prod.splits)
    note IH = Cons.IH[OF st(2)] and g = deep_copy.grows[OF D st(1)] and f = deep_copy.fresh[OF D st(1)]
    have "\<forall>r \<in> refs y h1. cells h' r = cells h1 r" using f IH by auto
    then have y: "refs y h' = refs y h1" "val y h' = val y h1" using deep_copy.local_refs[OF D] deep_copy.local_val[OF D] by blast+
    have gr: "hnext h \<le> hnext h' \<and> (\<forall>r < hnext h. cells h' r = cells h r)" using g IH by (metis order_trans less_le_trans)
    have "{hnext h..<hnext h1} \<subseteq> {hnext h..<hnext h'}" "{hnext h1..<hnext h'} \<subseteq> {hnext h..<hnext h'}" using g IH by auto
    then have fr: "?r ys h' \<subseteq> {hnext h..<hnext h'}" unfolding st(3) list.set UN_insert y
      using order_trans[OF f] order_trans[of "?r zs h'" "{hnext h1..<hnext h'}"] IH by (intro Un_least) blast+
    have "?v ys h' = ?v (x # xs) h" if below: "?r (x # xs) h \<subseteq> {..<hnext h}"
    proof -
      have bx: "refs x h \<subseteq> {..<hnext h}" and bs: "?r xs h \<subseteq> {..<hnext h}" using below by auto
      have keep: "\<forall>r \<in> ?r xs h. cells h1 r = cells h r" using bs g by auto
      have same: "refs z h1 = refs z h" "val z h1 = val z h" if "z \<in> set xs" for z using loc[OF keep that] by simp_all
      have "?r xs h1 = ?r xs h" using same(1) by simp
      moreover have "{..<hnext h} \<subseteq> {..<hnext h1}" using g by auto
      ultimately have "?r xs h1 \<subseteq> {..<hnext h1}" using bs by (metis order_trans)
      then have "?v zs h' = ?v xs h1" using IH by blast
      also have "\<dots> = ?v xs h" using same(2) by simp
      finally show ?thesis using deep_copy.same[OF D bx st(1)] y(2) by (simp add: st(3))
    qed
    with gr fr show ?case by blast
  qed simp
  show ?thesis
  proof
    fix xs and h h' :: "'m heap" assume eq: "\<forall>r \<in> ?r xs h. cells h' r = cells h r"
    show "?r xs h' = ?r xs h" "?v xs h' = ?v xs h" using loc[OF eq] by simp_all
  qed (use all in blast)+
qed

subsection \<open>The generated functions are deep copies\<close>

lemma range_copies:
  assumes "set ks = dom m"
  shows "fold (\<lambda>k out. out(k := m k)) ks Map.empty = fst (copy_map m h)"
proof -
  have "fold (\<lambda>k out. out(k := m k)) ks out = (\<lambda>x. if x \<in> set ks then m x else out x)" for out
    by (induction ks arbitrary: out) auto
  then show ?thesis using assms by (auto simp: copy_map_def fun_eq_iff domIff)
qed

lemma deep_copy_labels: "deep_copy (box get_map MapCell copy_map) (box_refs get_map (\<lambda>_ _. {})) (box_val get_map (\<lambda>m _. m))"
  unfolding copy_map_def[abs_def] by (intro deep_copy_box deep_copy_pure) simp_all

lemma deep_copy_time: "plain_copies K \<Longrightarrow> deep_copy (box get_time TimeCell (\<lambda>t h. (cp_Time K t, h))) (box_refs get_time (\<lambda>_ _. {})) (box_val get_time (\<lambda>t _. t))"
  by (intro deep_copy_box deep_copy_pure) (simp_all add: plain_copies_def)

lemma deep_copy_conds:
  assumes "plain_copies K"
  shows "deep_copy (box get_conds CondCell (copy_conds K)) (box_refs get_conds (\<lambda>_ _. {})) (box_val get_conds (\<lambda>cs _. cs))"
proof -
  have "deep_copy (copy_each (\<lambda>c h. (cp_Condition K c, h))) (\<lambda>xs h. \<Union>x \<in> set xs. {}) (\<lambda>xs h. map (\<lambda>x. x) xs)"
    by (rule deep_copy_each, rule deep_copy_pure) (use assms in \<open>simp add: plain_copies_def\<close>)
  then show ?thesis unfolding copy_conds_def by (intro deep_copy_box) simp_all
qed

lemma deep_copy_spec: "deep_copy EdgeDeviceSpec_DeepCopyInto spec_refs spec_val"
  using deep_copy_struct[OF deep_copy_labels, where get = sr_DeviceLabels and put = "\<lambda>y. sr_DeviceLabels_update (\<lambda>_. y)"
      and f = "\<lambda>s v. (sr_scalars s)\<lparr>es_DeviceLabels := or_else Map.empty v\<rparr>"]
  unfolding EdgeDeviceSpec_DeepCopyInto_def[abs_def] spec_refs_def[abs_def] spec_val_def[abs_def] by simp

lemma deep_copy_rollout_spec: "deep_copy FleetRolloutSpec_DeepCopyInto rollout_spec_refs rollout_spec_val"
  using deep_copy_struct[OF deep_copy_labels, where get = rs_Selector and put = "\<lambda>y. rs_Selector_update (\<lambda>_. y)"
      and f = "\<lambda>s v. (rs_scalars s, or_else Map.empty v)"]
  unfolding FleetRolloutSpec_DeepCopyInto_def[abs_def] rollout_spec_refs_def[abs_def] rollout_spec_val_def[abs_def] by simp

lemma deep_copy_rollout_status:
  assumes "plain_copies K"
  shows "deep_copy (FleetRolloutStatus_DeepCopyInto K) rollout_status_refs rollout_status_val"
  using deep_copy_struct[OF deep_copy_conds[OF assms], where get = rt_Conds and put = "\<lambda>y. rt_Conds_update (\<lambda>_. y)"
      and f = "\<lambda>s v. (rt_scalars s)\<lparr>fst_Conditions := or_else [] v\<rparr>"]
  unfolding FleetRolloutStatus_DeepCopyInto_def[abs_def] rollout_status_refs_def[abs_def] rollout_status_val_def[abs_def] by simp

lemma deep_copy_status:
  assumes "plain_copies K"
  shows "deep_copy (EdgeDeviceStatus_DeepCopyInto K) status_refs status_val"
  using deep_copy_struct[OF deep_copy_pair[OF deep_copy_conds[OF assms] deep_copy_time[OF assms]],
      where get = "\<lambda>s. (st_Conds s, st_Heartbeat s)" and put = "\<lambda>y s. s\<lparr>st_Conds := fst y, st_Heartbeat := snd y\<rparr>"
      and f = "\<lambda>s v. (st_scalars s)\<lparr>eds_Conditions := or_else [] (fst v), eds_LastHeartbeat := snd v\<rparr>"]
  unfolding EdgeDeviceStatus_DeepCopyInto_def[abs_def] status_refs_def[abs_def] status_val_def[abs_def] by (simp add: Let_def case_prod_beta)

lemma deep_copy_device:
  assumes "plain_copies K" "deep_copy (cp_ObjectMeta K) mrefs mval"
  shows "deep_copy (EdgeDevice_DeepCopyInto K) (device_refs mrefs) (device_val mval)"
  using deep_copy_struct[OF deep_copy_pair[OF assms(2) deep_copy_pair[OF deep_copy_spec deep_copy_status[OF assms(1)]]],
      where get = "\<lambda>d. (dr_Meta d, dr_Spec d, dr_Status d)"
      and put = "\<lambda>y d. d\<lparr>dr_Meta := fst y, dr_Spec := fst (snd y), dr_Status := snd (snd y)\<rparr>" and f = "\<lambda>d v. (dr_TypeMeta d, v)"]
  unfolding EdgeDevice_DeepCopyInto_def[abs_def] device_refs_def[abs_def] device_val_def[abs_def] by (simp add: Let_def case_prod_beta)

lemma deep_copy_rollout:
  assumes "plain_copies K" "deep_copy (cp_ObjectMeta K) mrefs mval"
  shows "deep_copy (FleetRollout_DeepCopyInto K) (rollout_refs mrefs) (rollout_val mval)"
  using deep_copy_struct[OF deep_copy_pair[OF assms(2) deep_copy_pair[OF deep_copy_rollout_spec deep_copy_rollout_status[OF assms(1)]]],
      where get = "\<lambda>d. (rr_Meta d, rr_Spec d, rr_Status d)"
      and put = "\<lambda>y d. d\<lparr>rr_Meta := fst y, rr_Spec := fst (snd y), rr_Status := snd (snd y)\<rparr>" and f = "\<lambda>d v. (rr_TypeMeta d, v)"]
  unfolding FleetRollout_DeepCopyInto_def[abs_def] rollout_refs_def[abs_def] rollout_val_def[abs_def] by (simp add: Let_def case_prod_beta)

lemma deep_copy_list:
  assumes "deep_copy copy refs val" "deep_copy (cp_ListMeta K) lrefs lval" "\<And>x. prj (mk x) = Some x"
  shows "deep_copy (\<lambda>l h. let (m, h1) = cp_ListMeta K (li_ListMeta l) h; (items, h2) = box prj mk (copy_each copy) (li_Items l) h1
      in (l\<lparr>li_ListMeta := m, li_Items := items\<rparr>, h2)) (list_refs prj refs lrefs) (list_val prj val lval)"
  using deep_copy_struct[OF deep_copy_pair[OF assms(2) deep_copy_box[OF deep_copy_each[OF assms(1)] assms(3)]],
      where get = "\<lambda>l. (li_ListMeta l, li_Items l)" and put = "\<lambda>y l. l\<lparr>li_ListMeta := fst y, li_Items := snd y\<rparr>"
      and f = "\<lambda>l v. (li_TypeMeta l, fst v, or_else [] (snd v))"]
  unfolding list_refs_def[abs_def] list_val_def[abs_def] by (simp add: Let_def case_prod_beta)

lemma deep_copy_device_list:
  assumes "copy_laws K mrefs mval lrefs lval"
  shows "deep_copy (EdgeDeviceList_DeepCopyInto K) (list_refs get_devs (device_refs mrefs) lrefs) (list_val get_devs (device_val mval) lval)"
  unfolding EdgeDeviceList_DeepCopyInto_def[abs_def]
  by (rule deep_copy_list) (use assms in \<open>auto simp: copy_laws_def intro: deep_copy_device\<close>)

lemma deep_copy_rollout_list:
  assumes "copy_laws K mrefs mval lrefs lval"
  shows "deep_copy (FleetRolloutList_DeepCopyInto K) (list_refs get_ros (rollout_refs mrefs) lrefs) (list_val get_ros (rollout_val mval) lval)"
  unfolding FleetRolloutList_DeepCopyInto_def[abs_def]
  by (rule deep_copy_list) (use assms in \<open>auto simp: copy_laws_def intro: deep_copy_rollout\<close>)

interpretation spec_copy: deep_copy EdgeDeviceSpec_DeepCopyInto spec_refs spec_val
  by (rule deep_copy_spec)

interpretation rollout_spec_copy: deep_copy FleetRolloutSpec_DeepCopyInto rollout_spec_refs rollout_spec_val
  by (rule deep_copy_rollout_spec)

section \<open>Properties\<close>

text \<open>C36. The status copy that a reconcile pass works on is a value of its own: the copy denotes the same
  status as the original, and whatever is later stored in the cells that the copy reaches (the
  condition helpers write into the slice in place) or allocated, the original still denotes what it
  did when it was copied. This is what lets the model treat \<open>DeepCopy\<close> as the identity, and what the
  comparison of old and new status in the pass relies on.\<close>

theorem status_DeepCopy_independent:
  assumes "plain_copies K" "status_refs s h \<subseteq> {..<hnext h}" "EdgeDeviceStatus_DeepCopy K (Some s) h = (out, h')"
  shows "\<exists>y. out = Some y \<and> status_val y h' = status_val s h \<and> status_refs y h' \<subseteq> {hnext h..<hnext h'} \<and>
    (\<forall>h2. (\<forall>r. r \<notin> {hnext h..<hnext h'} \<and> r < hnext h' \<longrightarrow> cells h2 r = cells h' r) \<longrightarrow> status_val s h2 = status_val s h)"
proof -
  obtain y where y: "EdgeDeviceStatus_DeepCopyInto K s h = (y, h')" "out = Some y"
    using assms(3) by (auto simp: EdgeDeviceStatus_DeepCopy_def DeepCopy_def Let_def split: prod.splits)
  note D = deep_copy_status[OF assms(1)]
  have "status_val s h2 = status_val s h" if "\<forall>r. r \<notin> {hnext h..<hnext h'} \<and> r < hnext h' \<longrightarrow> cells h2 r = cells h' r" for h2
    using deep_copy.grows[OF D y(1)] that by (intro deep_copy.independent(1)[OF D y(1) assms(2)]) auto
  with deep_copy.same[OF D assms(2) y(1)] deep_copy.fresh[OF D y(1)] y(2) show ?thesis by blast
qed

theorem status_DeepCopy_independent_witness:
  "\<exists>y h'. EdgeDeviceStatus_DeepCopy demo_copies (Some demo_status_ref) demo_heap = (Some y, h') \<and>
     eds_LastHeartbeat (status_val y h') = Some 7 \<and> status_refs y h' \<subseteq> {2..<hnext h'}"
proof -
  obtain out h' where c: "EdgeDeviceStatus_DeepCopy demo_copies (Some demo_status_ref) demo_heap = (out, h')" by fastforce
  have "status_refs demo_status_ref demo_heap \<subseteq> {..<hnext demo_heap}" "plain_copies demo_copies"
    "eds_LastHeartbeat (status_val demo_status_ref demo_heap) = Some 7" "hnext demo_heap = 2"
    by (simp_all add: status_refs_def status_val_def box_refs_def box_val_def demo_status_ref_def demo_heap_def plain_copies_def demo_copies_def)
  with status_DeepCopy_independent[OF _ _ c] c show ?thesis by fastforce
qed

text \<open>A copied device list, the form in which a cache hands out listings, shares no cell with the
  original: the items, their labels, conditions and heartbeats are the same values in new cells.\<close>

theorem device_list_DeepCopy:
  assumes "copy_laws K mrefs mval lrefs lval" "list_refs get_devs (device_refs mrefs) lrefs l h \<subseteq> {..<hnext h}"
    and "EdgeDeviceList_DeepCopyInto K l h = (l', h')"
  shows "list_val get_devs (device_val mval) lval l' h' = list_val get_devs (device_val mval) lval l h \<and>
    list_refs get_devs (device_refs mrefs) lrefs l' h' \<subseteq> {hnext h..<hnext h'} \<and>
    list_refs get_devs (device_refs mrefs) lrefs l h \<inter> list_refs get_devs (device_refs mrefs) lrefs l' h' = {}"
proof -
  note D = deep_copy_device_list[OF assms(1)]
  have f: "list_refs get_devs (device_refs mrefs) lrefs l' h' \<subseteq> {hnext h..<hnext h'}" by (rule deep_copy.fresh[OF D assms(3)])
  moreover have "{..<hnext h} \<inter> {hnext h..<hnext h'} = {}" by auto
  ultimately show ?thesis using deep_copy.same[OF D assms(2,3)] assms(2) by blast
qed

theorem rollout_list_DeepCopy:
  assumes "copy_laws K mrefs mval lrefs lval" "list_refs get_ros (rollout_refs mrefs) lrefs l h \<subseteq> {..<hnext h}"
    and "FleetRolloutList_DeepCopyInto K l h = (l', h')"
  shows "list_val get_ros (rollout_val mval) lval l' h' = list_val get_ros (rollout_val mval) lval l h \<and>
    list_refs get_ros (rollout_refs mrefs) lrefs l' h' \<subseteq> {hnext h..<hnext h'}"
  using deep_copy.same[OF deep_copy_rollout_list[OF assms(1)] assms(2,3)] deep_copy.fresh[OF deep_copy_rollout_list[OF assms(1)] assms(3)] by blast

end
