(* ===== verification/Operator_Main.thy ===== *)
theory Operator_Main
  imports Rollout_Controller Go_Flag
begin

text \<open>
  The operator process (\<open>cmd/main.go\<close>), the registration of the API types with the scheme
  (\<open>api/v1alpha1/groupversion_info.go\<close> and the \<open>init\<close> functions) and of the two reconcilers with the
  manager (\<open>SetupWithManager\<close>).

  The scheme and its builder (apimachinery), the manager (controller-runtime) and the flags that
  these libraries add to the command line are arguments. The manager is an adversary like the API
  server of \<open>Fleet_API\<close>: it chooses the result of every call from the calls made so far; the calls
  and their results are recorded.
\<close>

subsection \<open>Registration with the scheme\<close>

record GroupVersion =
  gv_Group :: string
  gv_Version :: string

definition SchemeGroupVersion :: GroupVersion where
  "SchemeGroupVersion = \<lparr>gv_Group = ''edge.example.com'', gv_Version = ''v1alpha1''\<rparr>"

type_synonym 'sch register = "'sch \<Rightarrow> string + 'sch"

text \<open>What the sources call of package \<open>runtime\<close> and of \<open>clientgoscheme\<close>.\<close>

record ('sch, 'b) scheme_lib =
  sl_AddToGroupVersion :: "GroupVersion \<Rightarrow> 'sch \<Rightarrow> 'sch"
  sl_AddKnownTypes :: "GroupVersion \<Rightarrow> string list \<Rightarrow> 'sch \<Rightarrow> 'sch"
  sl_Recognizes :: "'sch \<Rightarrow> GroupVersion \<Rightarrow> string \<Rightarrow> bool"
  sl_NewSchemeBuilder :: "'sch register \<Rightarrow> 'b"
  sl_Register :: "'sch register \<Rightarrow> 'b \<Rightarrow> 'b"
  sl_AddToScheme :: "'b \<Rightarrow> 'sch register"
  sl_clientgo :: "'sch register"
  sl_NewScheme :: 'sch

definition SchemeBuilder :: "('sch, 'b) scheme_lib \<Rightarrow> 'b" where
  "SchemeBuilder L = sl_NewSchemeBuilder L (\<lambda>scheme. Inr (sl_AddToGroupVersion L SchemeGroupVersion scheme))"

definition edgedevice_init :: "('sch, 'b) scheme_lib \<Rightarrow> 'b \<Rightarrow> 'b" where
  "edgedevice_init L = sl_Register L (\<lambda>s. Inr (sl_AddKnownTypes L SchemeGroupVersion [''EdgeDevice'', ''EdgeDeviceList''] s))"

definition fleetrollout_init :: "('sch, 'b) scheme_lib \<Rightarrow> 'b \<Rightarrow> 'b" where
  "fleetrollout_init L = sl_Register L (\<lambda>s. Inr (sl_AddKnownTypes L SchemeGroupVersion [''FleetRollout'', ''FleetRolloutList''] s))"

text \<open>
  The package is initialised before \<open>main\<close>: its variables, then its \<open>init\<close> functions in the order of
  the files. \<open>AddToScheme\<close> is a method value on the address of the builder, so it sees them.
\<close>

definition AddToScheme :: "('sch, 'b) scheme_lib \<Rightarrow> 'sch register" where
  "AddToScheme L = sl_AddToScheme L (fleetrollout_init L (edgedevice_init L (SchemeBuilder L)))"

text \<open>The \<open>init\<close> of package \<open>main\<close>: \<open>Must\<close> panics on an error.\<close>

definition main_init :: "('sch, 'b) scheme_lib \<Rightarrow> 'sch outcome" where
  "main_init L = (case sl_clientgo L (sl_NewScheme L) of
     Inl _ \<Rightarrow> Panicked
   | Inr s \<Rightarrow> (case AddToScheme L s of Inl _ \<Rightarrow> Panicked | Inr s' \<Rightarrow> Done s'))"

subsection \<open>Flags\<close>

record 'x OperatorFlags =
  of_metricsAddr :: string
  of_metricsCertPath :: string
  of_metricsCertName :: string
  of_metricsCertKey :: string
  of_webhookCertPath :: string
  of_webhookCertName :: string
  of_webhookCertKey :: string
  of_enableLeaderElection :: bool
  of_probeAddr :: string
  of_secureMetrics :: bool
  of_enableHTTP2 :: bool
  of_heartbeatTimeout :: int
  of_ext :: 'x

definition operator_defaults :: "'x \<Rightarrow> 'x OperatorFlags" where
  "operator_defaults x = \<lparr>of_metricsAddr = ''0'', of_metricsCertPath = [], of_metricsCertName = ''tls.crt'', of_metricsCertKey = ''tls.key'',
     of_webhookCertPath = [], of_webhookCertName = ''tls.crt'', of_webhookCertKey = ''tls.key'', of_enableLeaderElection = False,
     of_probeAddr = '':8081'', of_secureMetrics = True, of_enableHTTP2 = False, of_heartbeatTimeout = 30 * second, of_ext = x\<rparr>"

text \<open>A flag of a library sets only variables of the library.\<close>

definition ext_flag :: "'x flag_def \<Rightarrow> 'x OperatorFlags flag_def" where
  "ext_flag f = \<lparr>fd_name = fd_name f, fd_isBool = fd_isBool f,
     fd_set = (\<lambda>s v. map_option (\<lambda>x. v\<lparr>of_ext := x\<rparr>) (fd_set f s (of_ext v)))\<rparr>"

definition operator_flags :: "(string \<Rightarrow> int option) \<Rightarrow> 'x flag_def list \<Rightarrow> 'x OperatorFlags flag_def list" where
  "operator_flags ParseDuration ext =
     [DurationVar ParseDuration ''heartbeat-timeout'' (\<lambda>d v. v\<lparr>of_heartbeatTimeout := d\<rparr>),
      StringVar ''metrics-bind-address'' (\<lambda>s v. v\<lparr>of_metricsAddr := s\<rparr>),
      StringVar ''health-probe-bind-address'' (\<lambda>s v. v\<lparr>of_probeAddr := s\<rparr>),
      BoolVar ''leader-elect'' (\<lambda>b v. v\<lparr>of_enableLeaderElection := b\<rparr>),
      BoolVar ''metrics-secure'' (\<lambda>b v. v\<lparr>of_secureMetrics := b\<rparr>),
      StringVar ''webhook-cert-path'' (\<lambda>s v. v\<lparr>of_webhookCertPath := s\<rparr>),
      StringVar ''webhook-cert-name'' (\<lambda>s v. v\<lparr>of_webhookCertName := s\<rparr>),
      StringVar ''webhook-cert-key'' (\<lambda>s v. v\<lparr>of_webhookCertKey := s\<rparr>),
      StringVar ''metrics-cert-path'' (\<lambda>s v. v\<lparr>of_metricsCertPath := s\<rparr>),
      StringVar ''metrics-cert-name'' (\<lambda>s v. v\<lparr>of_metricsCertName := s\<rparr>),
      StringVar ''metrics-cert-key'' (\<lambda>s v. v\<lparr>of_metricsCertKey := s\<rparr>),
      BoolVar ''enable-http2'' (\<lambda>b v. v\<lparr>of_enableHTTP2 := b\<rparr>)] @ map ext_flag ext"

subsection \<open>Options of the servers and of the manager\<close>

record tlsConf =
  tc_NextProtos :: "string list"

type_synonym tls_opt = "tlsConf \<Rightarrow> tlsConf"

definition disableHTTP2 :: tls_opt where
  "disableHTTP2 c = c\<lparr>tc_NextProtos := [''http/1.1'']\<rparr>"

definition tlsOpts :: "'x OperatorFlags \<Rightarrow> tls_opt list" where
  "tlsOpts fl = (if \<not> of_enableHTTP2 fl then [disableHTTP2] else [])"

record webhook_Options =
  wo_TLSOpts :: "tls_opt list"
  wo_CertDir :: string
  wo_CertName :: string
  wo_KeyName :: string

definition webhookServerOptions :: "'x OperatorFlags \<Rightarrow> webhook_Options" where
  "webhookServerOptions fl =
     (let opts = \<lparr>wo_TLSOpts = tlsOpts fl, wo_CertDir = [], wo_CertName = [], wo_KeyName = []\<rparr>
      in if length (of_webhookCertPath fl) > 0
         then opts\<lparr>wo_CertDir := of_webhookCertPath fl, wo_CertName := of_webhookCertName fl, wo_KeyName := of_webhookCertKey fl\<rparr>
         else opts)"

datatype FilterProvider = NoFilter | WithAuthenticationAndAuthorization

record metrics_Options =
  mo_BindAddress :: string
  mo_SecureServing :: bool
  mo_TLSOpts :: "tls_opt list"
  mo_FilterProvider :: FilterProvider
  mo_CertDir :: string
  mo_CertName :: string
  mo_KeyName :: string

definition metricsServerOptions :: "'x OperatorFlags \<Rightarrow> metrics_Options" where
  "metricsServerOptions fl =
     (let opts = \<lparr>mo_BindAddress = of_metricsAddr fl, mo_SecureServing = of_secureMetrics fl, mo_TLSOpts = tlsOpts fl,
                  mo_FilterProvider = NoFilter, mo_CertDir = [], mo_CertName = [], mo_KeyName = []\<rparr>;
          opts = (if of_secureMetrics fl then opts\<lparr>mo_FilterProvider := WithAuthenticationAndAuthorization\<rparr> else opts)
      in if length (of_metricsCertPath fl) > 0
         then opts\<lparr>mo_CertDir := of_metricsCertPath fl, mo_CertName := of_metricsCertName fl, mo_KeyName := of_metricsCertKey fl\<rparr>
         else opts)"

record 'sch manager_Options =
  co_Scheme :: 'sch
  co_Metrics :: metrics_Options
  co_WebhookServer :: webhook_Options
  co_HealthProbeBindAddress :: string
  co_LeaderElection :: bool
  co_LeaderElectionID :: string

definition manager_options :: "'sch \<Rightarrow> 'x OperatorFlags \<Rightarrow> 'sch manager_Options" where
  "manager_options scheme fl = \<lparr>co_Scheme = scheme, co_Metrics = metricsServerOptions fl, co_WebhookServer = webhookServerOptions fl,
     co_HealthProbeBindAddress = of_probeAddr fl, co_LeaderElection = of_enableLeaderElection fl,
     co_LeaderElectionID = ''08f1c462.example.com''\<rparr>"

subsection \<open>Controllers\<close>

text \<open>
  What a controller registers: the kind it reconciles, the other kinds it watches with the map from
  an object to requests, the predicates that filter events (none here), its name and its reconciler.
\<close>

datatype reconciler = DeviceReconciler EdgeDeviceReconciler | RolloutReconciler

record registration =
  rg_For :: string
  rg_Watches :: "(string \<times> (EdgeDevice \<Rightarrow> key list call)) list"
  rg_Predicates :: "string list"
  rg_Named :: string
  rg_Reconciler :: reconciler

definition EdgeDevice_SetupWithManager :: "EdgeDeviceReconciler \<Rightarrow> registration" where
  "EdgeDevice_SetupWithManager r = \<lparr>rg_For = ''EdgeDevice'', rg_Watches = [], rg_Predicates = [], rg_Named = ''edgedevice'',
     rg_Reconciler = DeviceReconciler r\<rparr>"

definition FleetRollout_SetupWithManager :: "Server \<Rightarrow> registration" where
  "FleetRollout_SetupWithManager S = \<lparr>rg_For = ''FleetRollout'', rg_Watches = [(''EdgeDevice'', rolloutsForDevice S)], rg_Predicates = [],
     rg_Named = ''fleetrollout'', rg_Reconciler = RolloutReconciler\<rparr>"

subsection \<open>The process\<close>

datatype 'sch setup_call =
    GetConfigOrDie
  | NewManager "'sch manager_Options"
  | Complete registration
  | AddHealthzCheck string
  | AddReadyzCheck string
  | Start

type_synonym 'sch setup_log = "('sch setup_call \<times> string option) list"
type_synonym 'sch manager = "'sch setup_log \<Rightarrow> 'sch setup_call \<Rightarrow> string option"
type_synonym 'sch bringup = "'sch setup_log \<Rightarrow> int \<times> 'sch setup_log"

text \<open>A call whose error ends the process with code 1; the process that goes on after it.\<close>

definition orExit1 :: "'sch manager \<Rightarrow> 'sch setup_call \<Rightarrow> 'sch bringup \<Rightarrow> 'sch bringup" where
  "orExit1 mgr c k log = (case mgr log c of Some e \<Rightarrow> (1, log @ [(c, Some e)]) | None \<Rightarrow> k (log @ [(c, None)]))"

definition exit0 :: "'sch bringup" where
  "exit0 log = (0, log)"

definition run_manager :: "'sch manager \<Rightarrow> Server \<Rightarrow> 'sch \<Rightarrow> 'x OperatorFlags \<Rightarrow> 'sch bringup" where
  "run_manager mgr S scheme fl =
     orExit1 mgr GetConfigOrDie
    (orExit1 mgr (NewManager (manager_options scheme fl))
    (orExit1 mgr (Complete (EdgeDevice_SetupWithManager \<lparr>er_HeartbeatTimeout = of_heartbeatTimeout fl\<rparr>))
    (orExit1 mgr (Complete (FleetRollout_SetupWithManager S))
    (orExit1 mgr (AddHealthzCheck ''healthz'')
    (orExit1 mgr (AddReadyzCheck ''readyz'')
    (orExit1 mgr Start exit0))))))"

text \<open>
  The whole process: exit code and calls to the manager. A panic ends a Go process with code 2, and
  so does the definition of a flag that already exists.
\<close>

definition operator_main ::
  "('sch, 'b) scheme_lib \<Rightarrow> 'sch manager \<Rightarrow> Server \<Rightarrow> (string \<Rightarrow> int option) \<Rightarrow> 'x flag_def list \<Rightarrow> 'x \<Rightarrow> string list \<Rightarrow> int \<times> 'sch setup_log" where
  "operator_main L mgr S ParseDuration ext x args =
     (case main_init L of
        Done scheme \<Rightarrow>
          if \<not> distinct (map fd_name (operator_flags ParseDuration ext)) then (2, [])
          else (case Parse (operator_flags ParseDuration ext) args (operator_defaults x) of
                  Inl code \<Rightarrow> (code, [])
                | Inr fl \<Rightarrow> run_manager mgr S scheme fl [])
      | _ \<Rightarrow> (2, []))"

text \<open>Documented behaviour of the scheme, of its builder and of the client scheme.\<close>

definition scheme_laws :: "('sch, 'b) scheme_lib \<Rightarrow> bool" where
  "scheme_laws L \<longleftrightarrow>
     (\<forall>f s. sl_AddToScheme L (sl_NewSchemeBuilder L f) s = f s) \<and>
     (\<forall>f b s. sl_AddToScheme L (sl_Register L f b) s = (case sl_AddToScheme L b s of Inl e \<Rightarrow> Inl e | Inr s' \<Rightarrow> f s')) \<and>
     (\<forall>gv ks s gv' k. sl_Recognizes L (sl_AddKnownTypes L gv ks s) gv' k = (gv' = gv \<and> k \<in> set ks \<or> sl_Recognizes L s gv' k)) \<and>
     (\<forall>gv s gv' k. sl_Recognizes L s gv' k \<longrightarrow> sl_Recognizes L (sl_AddToGroupVersion L gv s) gv' k)"









text \<open>The protocols a server offers after its TLS options are applied to a configuration.\<close>

definition offered :: "tls_opt list \<Rightarrow> tlsConf \<Rightarrow> string list" where
  "offered opts c = tc_NextProtos (fold (\<lambda>f. f) opts c)"

text \<open>The calls to the manager, in the order of the code.\<close>

definition bringup_calls :: "Server \<Rightarrow> 'sch \<Rightarrow> 'x OperatorFlags \<Rightarrow> 'sch setup_call list" where
  "bringup_calls S scheme fl =
     [GetConfigOrDie, NewManager (manager_options scheme fl),
      Complete (EdgeDevice_SetupWithManager \<lparr>er_HeartbeatTimeout = of_heartbeatTimeout fl\<rparr>),
      Complete (FleetRollout_SetupWithManager S), AddHealthzCheck ''healthz'', AddReadyzCheck ''readyz'', Start]"

text \<open>A scheme as the list of what was added to it, with a builder that is the list of its functions.\<close>

definition list_scheme :: "((GroupVersion \<times> string) list, (GroupVersion \<times> string) list register list) scheme_lib" where
  "list_scheme = \<lparr>sl_AddToGroupVersion = (\<lambda>gv s. s @ [(gv, ''WatchEvent'')]), sl_AddKnownTypes = (\<lambda>gv ks s. s @ map (Pair gv) ks),
     sl_Recognizes = (\<lambda>s gv k. (gv, k) \<in> set s), sl_NewSchemeBuilder = (\<lambda>f. [f]), sl_Register = (\<lambda>f b. b @ [f]),
     sl_AddToScheme = (\<lambda>b s. foldl (\<lambda>r f. case r of Inl e \<Rightarrow> Inl e | Inr s \<Rightarrow> f s) (Inr s) b), sl_clientgo = Inr, sl_NewScheme = []\<rparr>"

text \<open>A chain of calls runs through a list of calls and stops at the first error.\<close>

fun call_chain :: "'sch manager \<Rightarrow> 'sch setup_call list \<Rightarrow> 'sch bringup" where
  "call_chain mgr [] = exit0"
| "call_chain mgr (c # cs) = orExit1 mgr c (call_chain mgr cs)"

text \<open>A manager whose \<open>Start\<close> fails, and a command line.\<close>

definition demo_args :: "string list" where
  "demo_args = [''--leader-elect'', ''--metrics-bind-address=:8443'']"

definition bad_start :: "'sch manager" where
  "bad_start log c = (if c = Start then Some ''lease lost'' else None)"

section \<open>Lemmas\<close>

lemma run_manager_chain: "run_manager mgr S scheme fl = call_chain mgr (bringup_calls S scheme fl)"
  by (simp add: run_manager_def bringup_calls_def)

lemma call_chain_log:
  assumes "call_chain mgr cs log = (code, log')"
  shows "\<exists>made. log' = log @ made \<and> prefix (map fst made) cs \<and> (\<forall>(c, e) \<in> set (butlast made). e = None) \<and>
    (code = 0 \<and> map fst made = cs \<and> (\<forall>(c, e) \<in> set made. e = None) \<or> code = 1 \<and> made \<noteq> [] \<and> snd (last made) \<noteq> None)"
  using assms
proof (induction cs arbitrary: log)
  case Nil
  then show ?case by (simp add: exit0_def)
next
  case (Cons c cs)
  show ?case
  proof (cases "mgr log c")
    case None
    with Cons.prems have "call_chain mgr cs (log @ [(c, None)]) = (code, log')" by (simp add: orExit1_def)
    from Cons.IH[OF this] obtain made where d: "log' = (log @ [(c, None)]) @ made" "prefix (map fst made) cs" "\<forall>(c, e) \<in> set (butlast made). e = None"
      "code = 0 \<and> map fst made = cs \<and> (\<forall>(c, e) \<in> set made. e = None) \<or> code = 1 \<and> made \<noteq> [] \<and> snd (last made) \<noteq> None" by blast
    then show ?thesis by (intro exI[of _ "(c, None) # made"]) auto
  next
    case (Some e)
    with Cons.prems show ?thesis by (intro exI[of _ "[(c, Some e)]"]) (simp add: orExit1_def)
  qed
qed

lemma call_chain_last:
  "call_chain mgr (cs @ [c]) log = (code, log') \<Longrightarrow> c \<notin> set cs \<Longrightarrow> (c, None) \<notin> set log \<Longrightarrow> code = 0 \<longleftrightarrow> (c, None) \<in> set log'"
proof (induction cs arbitrary: log)
  case (Cons a cs)
  then show ?case using Cons.IH[of "log @ [(a, None)]"] by (cases "mgr log a") (auto simp: orExit1_def)
qed (auto simp: orExit1_def exit0_def split: option.splits)

lemma AddToScheme_recognizes:
  assumes "scheme_laws L" "AddToScheme L s = Inr s'"
    "k \<in> {''EdgeDevice'', ''EdgeDeviceList'', ''FleetRollout'', ''FleetRolloutList''}"
  shows "sl_Recognizes L s' SchemeGroupVersion k"
  using assms by (auto simp: AddToScheme_def fleetrollout_init_def edgedevice_init_def SchemeBuilder_def scheme_laws_def)

lemma AddToScheme_succeeds: "scheme_laws L \<Longrightarrow> \<exists>s'. AddToScheme L s = Inr s'"
  by (auto simp: AddToScheme_def fleetrollout_init_def edgedevice_init_def SchemeBuilder_def scheme_laws_def)

lemma list_scheme_laws: "scheme_laws list_scheme"
  by (auto simp: scheme_laws_def list_scheme_def)

lemma operator_flags_frame:
  assumes "f \<in> set (operator_flags dur ext)" "fd_set f val v = Some v'"
  shows "fd_name f \<notin> {''enable-http2''} \<Longrightarrow> of_enableHTTP2 v' = of_enableHTTP2 v"
    "fd_name f \<notin> {''metrics-secure''} \<Longrightarrow> of_secureMetrics v' = of_secureMetrics v"
    "fd_name f \<notin> {''heartbeat-timeout''} \<Longrightarrow> of_heartbeatTimeout v' = of_heartbeatTimeout v"
  using assms by (auto simp: operator_flags_def StringVar_def BoolVar_def DurationVar_def ext_flag_def)

lemma operator_main_cases:
  assumes "operator_main L mgr S dur ext x args = (code, log)" "log \<noteq> []"
  obtains s0 scheme fl where "sl_clientgo L (sl_NewScheme L) = Inr s0" "AddToScheme L s0 = Inr scheme"
    "Parse (operator_flags dur ext) args (operator_defaults x) = Inr fl" "call_chain mgr (bringup_calls S scheme fl) [] = (code, log)"
  using assms by (auto simp: operator_main_def main_init_def run_manager_chain split: outcome.splits sum.splits if_splits)

text \<open>C16. The operator serves nothing before it is fully set up: the calls to the manager are made in the
  order of the code, the next one only after the one before succeeded. So when \<open>Start\<close> is called,
  the manager was created with a scheme that knows the four types of the API group, both
  controllers are registered and both health checks added, all without error; the process exits
  with 0 only after \<open>Start\<close> returned without error, and with 1 exactly when the last call failed.\<close>

theorem operator_start_order:
  assumes "operator_main L mgr S dur ext x args = (code, log)" "log \<noteq> []" "scheme_laws L"
  shows "(\<exists>scheme fl. prefix (map fst log) [GetConfigOrDie, NewManager (manager_options scheme fl),
        Complete (EdgeDevice_SetupWithManager \<lparr>er_HeartbeatTimeout = of_heartbeatTimeout fl\<rparr>), Complete (FleetRollout_SetupWithManager S),
        AddHealthzCheck ''healthz'', AddReadyzCheck ''readyz'', Start] \<and>
      Parse (operator_flags dur ext) args (operator_defaults x) = Inr fl \<and>
      (\<forall>k \<in> {''EdgeDevice'', ''EdgeDeviceList'', ''FleetRollout'', ''FleetRolloutList''}. sl_Recognizes L scheme SchemeGroupVersion k)) \<and>
    (\<forall>(c, e) \<in> set (butlast log). e = None) \<and> (code = 0 \<longleftrightarrow> (Start, None) \<in> set log) \<and> (code = 1 \<longleftrightarrow> snd (last log) \<noteq> None)"
proof -
  from operator_main_cases[OF assms(1,2)] obtain s0 scheme fl where m: "AddToScheme L s0 = Inr scheme"
    "Parse (operator_flags dur ext) args (operator_defaults x) = Inr fl" "call_chain mgr (bringup_calls S scheme fl) [] = (code, log)" .
  from call_chain_log[OF m(3)] have l: "prefix (map fst log) (bringup_calls S scheme fl)" "\<forall>(c, e) \<in> set (butlast log). e = None"
    "code = 0 \<and> map fst log = bringup_calls S scheme fl \<and> (\<forall>(c, e) \<in> set log. e = None) \<or> code = 1 \<and> snd (last log) \<noteq> None" by auto
  have k: "\<forall>k \<in> {''EdgeDevice'', ''EdgeDeviceList'', ''FleetRollout'', ''FleetRolloutList''}. sl_Recognizes L scheme SchemeGroupVersion k"
    using AddToScheme_recognizes[OF assms(3) m(1)] by blast
  have "call_chain mgr (butlast (bringup_calls S scheme fl) @ [Start]) [] = (code, log)" using m(3) by (simp add: bringup_calls_def)
  then have "code = 0 \<longleftrightarrow> (Start, None) \<in> set log" by (rule call_chain_last) (simp_all add: bringup_calls_def)
  moreover have "code = 1 \<longleftrightarrow> snd (last log) \<noteq> None" using l(3) last_in_set[OF assms(2)] by (auto simp: case_prod_beta)
  ultimately show ?thesis using l(1,2) k m(2) unfolding bringup_calls_def by blast
qed

text \<open>C24. The servers of the operator are hardened by default: whatever else is on the command line, unless
  an argument names \<open>enable-http2\<close> the webhook and the metrics server offer HTTP/1.1 only, whatever
  TLS configuration they start from; and unless an argument names \<open>metrics-secure\<close> the metrics
  are served over TLS, to authenticated and authorised callers only. Each holds on its own.\<close>

theorem operator_hardened:
  assumes "operator_main L mgr S dur ext x args = (code, log)" "NewManager opts \<in> fst ` set log"
  shows "((\<forall>arg \<in> set args. names_flag arg \<noteq> ''enable-http2'') \<longrightarrow>
      (\<forall>c. offered (wo_TLSOpts (co_WebhookServer opts)) c = [''http/1.1''] \<and> offered (mo_TLSOpts (co_Metrics opts)) c = [''http/1.1''])) \<and>
    ((\<forall>arg \<in> set args. names_flag arg \<noteq> ''metrics-secure'') \<longrightarrow>
      mo_SecureServing (co_Metrics opts) \<and> mo_FilterProvider (co_Metrics opts) = WithAuthenticationAndAuthorization) \<and>
    (mo_SecureServing (co_Metrics opts) \<longrightarrow> mo_FilterProvider (co_Metrics opts) = WithAuthenticationAndAuthorization)"
proof -
  from assms(2) have "log \<noteq> []" by auto
  from operator_main_cases[OF assms(1) this] obtain s0 scheme fl where
    p: "Parse (operator_flags dur ext) args (operator_defaults x) = Inr fl" and c: "call_chain mgr (bringup_calls S scheme fl) [] = (code, log)" .
  from call_chain_log[OF c] have "prefix (map fst log) (bringup_calls S scheme fl)" by auto
  from set_mono_prefix[OF this] have "NewManager opts \<in> set (bringup_calls S scheme fl)" using assms(2) by auto
  then have o: "opts = manager_options scheme fl" by (simp add: bringup_calls_def)
  have http2: "\<not> of_enableHTTP2 fl" if "\<forall>arg \<in> set args. names_flag arg \<noteq> ''enable-http2''"
    using Parse_frame[of _ "{''enable-http2''}" of_enableHTTP2, OF operator_flags_frame(1) p] that by (simp add: operator_defaults_def)
  have secure: "of_secureMetrics fl" if "\<forall>arg \<in> set args. names_flag arg \<noteq> ''metrics-secure''"
    using Parse_frame[of _ "{''metrics-secure''}" of_secureMetrics, OF operator_flags_frame(2) p] that by (simp add: operator_defaults_def)
  show ?thesis
    using http2 secure by (auto simp: o manager_options_def webhookServerOptions_def metricsServerOptions_def tlsOpts_def offered_def disableHTTP2_def Let_def)
qed







subsection \<open>Witnesses\<close>

lemma demo_run:
  "operator_main list_scheme mgr S (\<lambda>_. None) [] () demo_args =
     run_manager mgr S [(SchemeGroupVersion, ''WatchEvent''), (SchemeGroupVersion, ''EdgeDevice''), (SchemeGroupVersion, ''EdgeDeviceList''),
         (SchemeGroupVersion, ''FleetRollout''), (SchemeGroupVersion, ''FleetRolloutList'')]
       ((operator_defaults ())\<lparr>of_enableLeaderElection := True, of_metricsAddr := '':8443''\<rparr>) []"
  by (simp add: operator_main_def main_init_def list_scheme_def AddToScheme_def fleetrollout_init_def edgedevice_init_def SchemeBuilder_def
      operator_flags_def StringVar_def BoolVar_def DurationVar_def Parse.simps parseOne_def parse_flag_def flag_body_def cut_equals_def lookup_flag_def
      set_flag_def ParseBool_def demo_args_def)

lemma demo_run_logs:
  obtains opts log where "operator_main list_scheme bad_start S (\<lambda>_. None) [] () demo_args = (1, log)" "log \<noteq> []" "Start \<in> fst ` set log"
    "NewManager opts \<in> fst ` set log"
  unfolding demo_run run_manager_def by (simp add: orExit1_def bad_start_def)

theorem operator_start_order_witness:
  "\<exists>log. operator_main list_scheme bad_start (fleet_server demo_rollout []) (\<lambda>_. None) [] () demo_args = (1, log) \<and>
     snd (last log) \<noteq> None \<and> (Start, None) \<notin> set log"
proof -
  obtain opts log where l: "operator_main list_scheme bad_start (fleet_server demo_rollout []) (\<lambda>_. None) [] () demo_args = (1, log)" "log \<noteq> []"
    by (rule demo_run_logs)
  from operator_start_order[OF l list_scheme_laws] l(1) show ?thesis by auto
qed

theorem operator_hardened_witness:
  "\<exists>log opts. operator_main list_scheme bad_start (fleet_server demo_rollout []) (\<lambda>_. None) [] () demo_args = (1, log) \<and>
     NewManager opts \<in> fst ` set log \<and> offered (mo_TLSOpts (co_Metrics opts)) \<lparr>tc_NextProtos = [''h2'']\<rparr> = [''http/1.1''] \<and>
     mo_FilterProvider (co_Metrics opts) = WithAuthenticationAndAuthorization"
proof -
  obtain opts log where l: "operator_main list_scheme bad_start (fleet_server demo_rollout []) (\<lambda>_. None) [] () demo_args = (1, log)"
    "NewManager opts \<in> fst ` set log" by (rule demo_run_logs)
  have "\<forall>arg \<in> set demo_args. names_flag arg \<noteq> ''enable-http2''" "\<forall>arg \<in> set demo_args. names_flag arg \<noteq> ''metrics-secure''"
    by (simp_all add: demo_args_def names_flag_def flag_body_def cut_equals_def)
  with operator_hardened[OF l] l show ?thesis by blast
qed


end
