(* ===== verification/Firmware_Server.thy ===== *)
theory Firmware_Server
  imports Download Go_Flag
begin

text \<open>
  The firmware server (\<open>cmd/firmware-server/main.go\<close>): the process, and the part of \<open>net/http\<close> it
  consists of, \<open>http.FileServer\<close> over \<open>http.Dir\<close>. What \<open>os.Open\<close> finds at a path (links resolved) and
  the rendering of a directory listing are arguments, and so is the request path that the HTTP
  client sends for a URL (\<open>net/url\<close>). A request is its path and the offset of a Range header
  (0 stands for no header); a response is a status code and a body.

  The network between the server and an agent may refuse a connection or break off a body. The
  lemmas show that the server then meets the contract that the agent's download relies on.
\<close>

datatype file_entry = Regular string | Directory

datatype open_error = FsNotExist | FsPermission | FsOther

type_synonym opener = "path \<Rightarrow> open_error + file_entry"

definition HasSuffix :: "string \<Rightarrow> string \<Rightarrow> bool" where
  "HasSuffix s p \<longleftrightarrow> HasPrefix (rev s) (rev p)"

text \<open>The elements of \<open>path.Clean("/" + s)\<close>: at the root there is nothing to go up to.\<close>

definition clean_step :: "path \<Rightarrow> string \<Rightarrow> path" where
  "clean_step acc e = (if e = [] \<or> e = ''.'' then acc else if e = ''..'' then butlast acc else acc @ [e])"

definition rooted_Clean :: "string \<Rightarrow> path" where
  "rooted_Clean s = foldl clean_step [] (Split (CHR ''/'') s)"

definition toHTTPError :: "open_error \<Rightarrow> int \<times> string" where
  "toHTTPError e = (case e of FsNotExist \<Rightarrow> (404, ''404 page not found'') | FsPermission \<Rightarrow> (403, ''403 Forbidden'')
     | FsOther \<Rightarrow> (500, ''500 Internal Server Error''))"

text \<open>\<open>serveContent\<close> on \<open>Range: bytes=off-\<close>: an empty file is served whole, an offset past the end is refused.\<close>

definition serveContent :: "string \<Rightarrow> nat \<Rightarrow> int \<times> string" where
  "serveContent data off = (if off = 0 \<or> data = [] then (200, data)
     else if off < length data then (206, drop off data) else (416, ''invalid range: failed to overlap''))"

definition FileServer :: "path \<Rightarrow> opener \<Rightarrow> (path \<Rightarrow> int \<times> string) \<Rightarrow> string \<Rightarrow> nat \<Rightarrow> int \<times> string" where
  "FileServer root openf dirList upath off =
     (let url = (if HasPrefix upath ''/'' then upath else CHR ''/'' # upath); name = root @ rooted_Clean url in
      if HasSuffix url ''/index.html'' then (301, [])
      else (case openf name of
        Inl e \<Rightarrow> toHTTPError e
      | Inr (Regular data) \<Rightarrow>
          if last url = CHR ''/'' then (if Base url = ''/'' \<or> Base url = ''.'' then (500, ''http: attempting to traverse a non-directory'') else (301, []))
          else serveContent data off
      | Inr Directory \<Rightarrow>
          if last url \<noteq> CHR ''/'' then (301, [])
          else (case openf (name @ [''index.html'']) of
                  Inr (Regular data) \<Rightarrow> serveContent data off
                | Inr Directory \<Rightarrow> dirList (name @ [''index.html''])
                | Inl _ \<Rightarrow> dirList name)))"

record ServerFlags =
  sf_dir :: string
  sf_addr :: string

definition server_defaults :: ServerFlags where
  "server_defaults = \<lparr>sf_dir = ''.'', sf_addr = '':8000''\<rparr>"

definition server_flags :: "ServerFlags flag_def list" where
  "server_flags = [StringVar ''dir'' (\<lambda>s v. v\<lparr>sf_dir := s\<rparr>), StringVar ''addr'' (\<lambda>s v. v\<lparr>sf_addr := s\<rparr>)]"

text \<open>
  The process: an exit code, or the address it listens on and the handler it serves. \<open>listens\<close> is
  whether \<open>ListenAndServe\<close> gets to serve; when it returns, \<open>log.Fatal\<close> exits with 1. \<open>path_of\<close> turns
  the directory of the flag into a path of the store.
\<close>

definition firmware_main ::
  "(string \<Rightarrow> path) \<Rightarrow> (string \<Rightarrow> bool) \<Rightarrow> opener \<Rightarrow> (path \<Rightarrow> int \<times> string) \<Rightarrow> string list \<Rightarrow> int + string \<times> (string \<Rightarrow> nat \<Rightarrow> int \<times> string)" where
  "firmware_main path_of listens openf dirList args =
     (case Parse server_flags args server_defaults of
        Inl code \<Rightarrow> Inl code
      | Inr fl \<Rightarrow> if listens (sf_addr fl) then Inr (sf_addr fl, FileServer (path_of (sf_dir fl)) openf dirList) else Inl 1)"

text \<open>
  The server as an agent sees it, over a network that chooses the fate of each attempt: no
  connection, or the body broken off after some bytes, or everything.
\<close>

datatype link_fate = Down go_error | Cut nat | Up

definition over_link :: "link_fate \<Rightarrow> int \<times> string \<Rightarrow> dl_reply" where
  "over_link l resp = (case l of
     Down e \<Rightarrow> DlTransport e
   | Cut k \<Rightarrow> DlReply (fst resp) (take k (snd resp)) True
   | Up \<Rightarrow> DlReply (fst resp) (snd resp) False)"

definition remote :: "(string \<Rightarrow> nat \<Rightarrow> int \<times> string) \<Rightarrow> (nat \<Rightarrow> link_fate) \<Rightarrow> (string \<Rightarrow> string) \<Rightarrow> firmware_server" where
  "remote serve link url_path i url off = over_link (link i) (serve (url_path url) off)"

text \<open>A request path that names a regular file directly.\<close>

definition names_image :: "path \<Rightarrow> opener \<Rightarrow> string \<Rightarrow> string \<Rightarrow> bool" where
  "names_image root openf upath F \<longleftrightarrow> HasPrefix upath ''/'' \<and> last upath \<noteq> CHR ''/'' \<and> \<not> HasSuffix upath ''/index.html'' \<and>
     openf (root @ rooted_Clean upath) = Inr (Regular F)"

text \<open>A proper file name: one step down.\<close>

definition proper :: "string \<Rightarrow> bool" where
  "proper e \<longleftrightarrow> e \<noteq> ''..'' \<and> e \<noteq> ''.'' \<and> e \<noteq> [] \<and> CHR ''/'' \<notin> set e"

text \<open>A directory with one image, and a file beside it.\<close>

definition demo_open :: opener where
  "demo_open p = (if p = [''srv'', ''fw'', ''v2.bin''] then Inr (Regular ''image1'') else if p = [''srv'', ''passwd''] then Inr (Regular ''root'')
     else if p = [''srv'', ''fw''] then Inr Directory else Inl FsNotExist)"

definition demo_link :: "nat \<Rightarrow> link_fate" where
  "demo_link i = (if i < 2 then Cut 2 else Up)"

section \<open>Lemmas\<close>

lemma Split_no_sep: "\<forall>e \<in> set (Split sep s). sep \<notin> set e"
proof (induction s)
  case (Cons c s)
  then show ?case by (cases "Split sep s") auto
qed simp

lemma clean_steps_proper:
  "list_all proper acc \<Longrightarrow> \<forall>e \<in> set es. CHR ''/'' \<notin> set e \<Longrightarrow> list_all proper (foldl clean_step acc es)"
proof (induction es arbitrary: acc)
  case (Cons e es)
  have "list_all proper (butlast acc)" using Cons.prems(1) by (meson in_set_butlastD list_all_iff)
  moreover have "proper e" if "e \<noteq> []" "e \<noteq> ''.''" "e \<noteq> ''..''" using that Cons.prems(2) by (simp add: proper_def)
  ultimately have "list_all proper (clean_step acc e)" using Cons.prems(1) by (simp add: clean_step_def)
  with Cons show ?case by simp
qed simp

lemma rooted_Clean_proper: "list_all proper (rooted_Clean s)"
  unfolding rooted_Clean_def by (rule clean_steps_proper) (use Split_no_sep in auto)

lemma FileServer_image: "names_image root openf upath F \<Longrightarrow> FileServer root openf dirList upath off = serveContent F off"
  by (simp add: FileServer_def names_image_def)

lemma remote_serves:
  assumes "names_image root openf (url_path url) F"
  shows "serves (remote (FileServer root openf dirList) link url_path) url F"
  by (auto simp: serves_def remote_def over_link_def FileServer_image[OF assms] serveContent_def take_is_prefix split: link_fate.splits)

lemma remote_answers:
  assumes "names_image root openf (url_path url) F" "link i = Up"
  shows "answers (remote (FileServer root openf dirList) link url_path) url F i"
  by (auto simp: answers_def remote_def over_link_def FileServer_image[OF assms(1)] serveContent_def assms(2))

text \<open>The firmware server gives away nothing outside its directory: its answer to any request path,
  however it climbs with dots, depends only on what lies below the directory, on paths whose
  further elements are proper file names.\<close>

theorem FileServer_confined:
  assumes "\<And>p. list_all proper p \<Longrightarrow> openf (root @ p) = openf' (root @ p) \<and> dirList (root @ p) = dirList' (root @ p)"
  shows "FileServer root openf dirList upath off = FileServer root openf' dirList' upath off"
proof -
  let ?u = "if HasPrefix upath ''/'' then upath else CHR ''/'' # upath"
  define n where "n = root @ rooted_Clean ?u"
  have "list_all proper (rooted_Clean ?u @ [''index.html''])" unfolding list_all_append using rooted_Clean_proper by (simp add: proper_def)
  from assms[OF this] assms[OF rooted_Clean_proper]
  have e: "openf n = openf' n" "dirList n = dirList' n" "openf (n @ [''index.html'']) = openf' (n @ [''index.html''])"
    "dirList (n @ [''index.html'']) = dirList' (n @ [''index.html''])" unfolding n_def append_assoc by blast+
  show ?thesis unfolding FileServer_def Let_def n_def[symmetric] e by (rule refl)
qed

theorem FileServer_confined_witness:
  "FileServer [''srv'', ''fw''] demo_open (\<lambda>p. (200, concat p)) ''/../passwd'' 0 =
   FileServer [''srv'', ''fw''] (\<lambda>p. if prefix [''srv'', ''fw''] p then demo_open p else Inl FsOther) (\<lambda>p. (200, concat p)) ''/../passwd'' 0"
  by (rule FileServer_confined) simp

text \<open>C19. An agent gets its image from the repository's firmware server over a bad network: whatever part of
  the image an earlier run left in the staging file, none, some or all of it, if among the
  five attempts two in a row are connected, the download returns with exactly the image, whatever
  the network did to the others. One of the two may be lost on a file that was already complete,
  which the server refuses to continue and the agent removes.\<close>

theorem resume_from_firmware_server:
  assumes "firmware_main path_of listens openf dirList args = Inr (addr, serve)"
    and "Parse server_flags args server_defaults = Inr fl" "names_image (path_of (sf_dir fl)) openf (url_path url) F"
    and "Suc i < 5" "link i = Up" "link (Suc i) = Up"
    and "all_ok w" "parent_ok dest w" "partial_of F dest w"
  shows "wp (DownloadWithResume (remote serve link url_path) (\<lambda>_. False) url dest default_options)
    (\<lambda>r w'. r = Inr () \<and> files w' dest = Some (File F)) (\<lambda>_. False) w"
proof -
  have s: "serve = FileServer (path_of (sf_dir fl)) openf dirList" using assms(1,2) by (simp add: firmware_main_def split: if_splits)
  have "responsive (remote serve link url_path) url F 0 5"
    unfolding s responsive_def using assms(4-6) remote_answers[where url = url and url_path = url_path, OF assms(3)] by (intro disjI2 exI[of _ i]) simp
  then show ?thesis
    by (intro DownloadWithResume_responsive[OF remote_serves[where url = url and url_path = url_path and dirList = dirList and link = link, OF assms(3), folded s]]) (use assms(7-9) in simp_all)
qed

theorem resume_from_firmware_server_witness:
  "\<exists>addr serve. firmware_main (\<lambda>_. [''srv'', ''fw'']) (\<lambda>_. True) demo_open (\<lambda>p. (200, concat p)) [''--dir=/srv/fw''] = Inr (addr, serve) \<and>
     wp (DownloadWithResume (remote serve demo_link (drop 10)) (\<lambda>_. False) ''http://fw1/v2.bin'' [''d'', ''f''] default_options)
       (\<lambda>r w'. r = Inr () \<and> files w' [''d'', ''f''] = Some (File ''image1'')) (\<lambda>_. False)
       (download_world\<lparr>files := (files download_world)([''d'', ''f''] \<mapsto> File ''image1'')\<rparr>)"
proof -
  have p: "Parse server_flags [''--dir=/srv/fw''] server_defaults = Inr \<lparr>sf_dir = ''/srv/fw'', sf_addr = '':8000''\<rparr>"
    by (simp add: server_flags_def server_defaults_def StringVar_def Parse.simps parseOne_def parse_flag_def flag_body_def cut_equals_def lookup_flag_def set_flag_def)
  then have m: "firmware_main (\<lambda>_. [''srv'', ''fw'']) (\<lambda>_. True) demo_open (\<lambda>p. (200, concat p)) [''--dir=/srv/fw''] =
      Inr ('':8000'', FileServer [''srv'', ''fw''] demo_open (\<lambda>p. (200, concat p)))" by (simp add: firmware_main_def)
  have "names_image [''srv'', ''fw''] demo_open (drop 10 ''http://fw1/v2.bin'') ''image1''"
    by (simp add: names_image_def HasPrefix_def HasSuffix_def rooted_Clean_def clean_step_def demo_open_def)
  with resume_from_firmware_server[OF m p, where url = "''http://fw1/v2.bin''" and url_path = "drop 10" and F = "''image1''" and i = 2 and link = demo_link
      and dest = "[''d'', ''f'']" and w = "download_world\<lparr>files := (files download_world)([''d'', ''f''] \<mapsto> File ''image1'')\<rparr>"] m
  show ?thesis by (simp add: demo_link_def all_ok_def parent_ok_def partial_of_def download_world_def)
qed

text \<open>A complete image is thrown away: when the staging file already holds the whole image, the server
  refuses the range after its end and the agent, taking its file for bogus, removes it.\<close>

theorem complete_image_refetched:
  assumes "names_image root openf (url_path url) F" "link i = Up" "F \<noteq> []" "all_ok w" "parent_ok dest w" "files w dest = Some (File F)"
  shows "wp (downloadOnce (remote (FileServer root openf dirList) link url_path) i url dest)
    (\<lambda>r w'. (\<exists>e. r = Inl e) \<and> files w' dest = None) (\<lambda>_. False) w"
proof -
  have n: "remote (FileServer root openf dirList) link url_path i url (length F) = DlReply 416 ''invalid range: failed to overlap'' False"
    using assms(2,3) by (simp add: remote_def over_link_def FileServer_image[OF assms(1)] serveContent_def)
  show ?thesis
    unfolding downloadOnce_defs wp_bindp Let_def using assms(4-6) n
    by (simp add: os_Stat_def wp_atomic_call_all_ok wp_def[of "http_get _ _ _ _"] http_get_def os_Remove_def wp_rules)
qed

theorem complete_image_refetched_witness:
  "wp (downloadOnce (remote (FileServer [''srv'', ''fw''] demo_open (\<lambda>p. (200, concat p))) (\<lambda>_. Up) (drop 10)) 0 ''http://fw1/v2.bin'' [''d'', ''f''])
     (\<lambda>r w'. (\<exists>e. r = Inl e) \<and> files w' [''d'', ''f''] = None) (\<lambda>_. False)
     (download_world\<lparr>files := (files download_world)([''d'', ''f''] \<mapsto> File ''image1'')\<rparr>)"
  by (rule complete_image_refetched[where F = "''image1''"])
    (simp_all add: names_image_def HasPrefix_def HasSuffix_def rooted_Clean_def clean_step_def demo_open_def all_ok_def parent_ok_def download_world_def)

end
