(* ===== verification/API_Validation.thy ===== *)
theory API_Validation
  imports Rollout_Controller
begin

text \<open>
  What the API server accepts: the validation markers of the API types (\<open>api/v1alpha1\<close>) and, for
  conditions, the schema generated from them (\<open>config/crd/bases\<close>), as predicates. An enumerated
  phase is valid by its datatype. The markers on list types say that a condition list is a map
  keyed by the type of a condition.

  The comment on the rollout status adds what its numbers mean (selected, targeted, succeeded,
  failed are nested); this is part of the predicate for the statuses that the rollout controller
  writes. The theorem is that of a type system: valid objects in, valid objects out.
\<close>

definition matches_url :: "string \<Rightarrow> bool" where
  "matches_url s \<longleftrightarrow> HasPrefix s ''http://'' \<or> HasPrefix s ''https://''"

definition matches_sha256 :: "string \<Rightarrow> bool" where
  "matches_sha256 s \<longleftrightarrow> length s = 64 \<and> list_all is_hex s"

definition valid_EdgeDeviceSpec :: "EdgeDeviceSpec \<Rightarrow> bool" where
  "valid_EdgeDeviceSpec sp \<longleftrightarrow> length (es_DesiredFirmwareVersion sp) \<ge> 1 \<and> matches_url (es_FirmwareURL sp) \<and> matches_sha256 (es_ChecksumSHA256 sp)"

definition valid_FleetRolloutSpec :: "FleetRolloutSpec \<Rightarrow> bool" where
  "valid_FleetRolloutSpec sp \<longleftrightarrow> length (fs_Selector sp) \<ge> 1 \<and> length (fs_TargetVersion sp) \<ge> 1 \<and> matches_url (fs_FirmwareURL sp) \<and>
     matches_sha256 (fs_ChecksumSHA256 sp) \<and> fs_MaxUnavailable sp \<ge> 1 \<and> fs_FailureThresholdPercent sp \<ge> 1 \<and> fs_FailureThresholdPercent sp \<le> 100"

definition is_alpha :: "char \<Rightarrow> bool" where
  "is_alpha c \<longleftrightarrow> (65 :: nat) \<le> of_char c \<and> of_char c \<le> (90 :: nat) \<or> (97 :: nat) \<le> of_char c \<and> of_char c \<le> (122 :: nat)"

definition is_alnum :: "char \<Rightarrow> bool" where
  "is_alnum c \<longleftrightarrow> is_alpha c \<or> is_digit c"

text \<open>\<open>^[A-Za-z]([A-Za-z0-9_,:]*[A-Za-z0-9_])?$\<close>\<close>

definition matches_reason :: "string \<Rightarrow> bool" where
  "matches_reason s \<longleftrightarrow> s \<noteq> [] \<and> is_alpha (hd s) \<and> (is_alnum (last s) \<or> last s = CHR ''_'') \<and>
     list_all (\<lambda>c. is_alnum c \<or> c \<in> {CHR ''_'', CHR '','', CHR '':''}) s"

text \<open>A qualified name: an optional DNS name and a slash, then a name.\<close>

definition matches_label :: "string \<Rightarrow> bool" where
  "matches_label s \<longleftrightarrow> s \<noteq> [] \<and> hd s \<noteq> CHR ''-'' \<and> last s \<noteq> CHR ''-'' \<and>
     list_all (\<lambda>c. is_digit c \<or> c = CHR ''-'' \<or> (97 :: nat) \<le> of_char c \<and> of_char c \<le> (122 :: nat)) s"

definition matches_name :: "string \<Rightarrow> bool" where
  "matches_name s \<longleftrightarrow> s \<noteq> [] \<and> is_alnum (hd s) \<and> is_alnum (last s) \<and>
     list_all (\<lambda>c. is_alnum c \<or> c \<in> {CHR ''-'', CHR ''_'', CHR ''.''}) s"

definition matches_type :: "string \<Rightarrow> bool" where
  "matches_type s = (case Split (CHR ''/'') s of
     [n] \<Rightarrow> matches_name n | [p, n] \<Rightarrow> list_all matches_label (Split (CHR ''.'') p) \<and> matches_name n | _ \<Rightarrow> False)"

definition valid_Condition :: "'t Condition \<Rightarrow> bool" where
  "valid_Condition c \<longleftrightarrow> c_Status c \<in> {''True'', ''False'', ''Unknown''} \<and> length (c_Reason c) \<le> 1024 \<and> matches_reason (c_Reason c) \<and>
     length (c_Message c) \<le> 32768 \<and> c_ObservedGeneration c \<ge> 0 \<and> length (c_Type c) \<le> 316 \<and> matches_type (c_Type c)"

definition valid_conditions :: "'t Condition list \<Rightarrow> bool" where
  "valid_conditions cs \<longleftrightarrow> distinct (map c_Type cs) \<and> list_all valid_Condition cs"

definition valid_EdgeDeviceStatus :: "EdgeDeviceStatus \<Rightarrow> bool" where
  "valid_EdgeDeviceStatus st \<longleftrightarrow> valid_conditions (eds_Conditions st)"

text \<open>Selected contains targeted, which contains the disjoint sets of succeeded and failed devices.\<close>

definition valid_FleetRolloutStatus :: "FleetRolloutStatus \<Rightarrow> bool" where
  "valid_FleetRolloutStatus st \<longleftrightarrow> valid_conditions (fst_Conditions st) \<and> 0 \<le> fst_Succeeded st \<and> 0 \<le> fst_Failed st \<and>
     fst_Succeeded st + fst_Failed st \<le> fst_Targeted st \<and> fst_Targeted st \<le> fst_Selected st \<and> fst_Selected st < 2 ^ 31"

definition valid_device :: "EdgeDevice \<Rightarrow> bool" where
  "valid_device d \<longleftrightarrow> valid_EdgeDeviceSpec (ed_Spec d) \<and> valid_EdgeDeviceStatus (ed_Status d) \<and> 0 \<le> om_Generation (ed_Meta d)"

definition valid_rollout :: "FleetRollout \<Rightarrow> bool" where
  "valid_rollout r \<longleftrightarrow> valid_FleetRolloutSpec (fr_Spec r) \<and> valid_FleetRolloutStatus (fr_Status r) \<and> 0 \<le> om_Generation (fr_Meta r)"

fun valid_write :: "event \<Rightarrow> bool" where
  "valid_write (UpdatedDevice d e) = valid_device d"
| "valid_write (UpdatedDeviceStatus d e) = valid_device d"
| "valid_write (UpdatedRolloutStatus r e) = valid_rollout r"
| "valid_write _ = True"

text \<open>
  The condition helpers as list operations: an upsert keeps the list a map by type, and its members
  are old ones or the new one with a transition time.
\<close>

locale condition_list = condition_api find_c set_c
  for find_c :: "'t Condition list \<Rightarrow> string \<Rightarrow> 't Condition option" and set_c :: "'t \<Rightarrow> 't Condition \<Rightarrow> 't Condition list \<Rightarrow> 't Condition list" +
  assumes set_distinct: "distinct (map c_Type cs) \<Longrightarrow> distinct (map c_Type (set_c now c cs))"
    and set_members: "x \<in> set (set_c now c cs) \<Longrightarrow> x \<in> set cs \<or> (\<exists>t. x = c\<lparr>c_LastTransitionTime := t\<rparr>)"
begin

lemma set_valid:
  assumes "valid_conditions cs" "valid_Condition c"
  shows "valid_conditions (set_c now c cs)"
proof -
  have "valid_Condition (c\<lparr>c_LastTransitionTime := t\<rparr>)" for t using assms(2) by (simp add: valid_Condition_def)
  then show ?thesis using assms(1) set_distinct[of cs now c] set_members[of _ now c cs] by (auto simp: valid_conditions_def list_all_iff)
qed

end

definition list_laws :: "Libs \<Rightarrow> bool" where
  "list_laws L \<longleftrightarrow> condition_list (lib_find L) (lib_set L)"

text \<open>The finalizer helpers change the finalizers and nothing else.\<close>

definition finalizers_only :: "Libs \<Rightarrow> bool" where
  "finalizers_only L \<longleftrightarrow> (\<forall>m f. (lib_AddFinalizer L m f)\<lparr>om_Finalizers := om_Finalizers m\<rparr> = m \<and>
     (lib_RemoveFinalizer L m f)\<lparr>om_Finalizers := om_Finalizers m\<rparr> = m)"

text \<open>Valid objects for the witnesses.\<close>

definition crd_device :: EdgeDevice where
  "crd_device = demo_device\<lparr>ed_Spec := (ed_Spec demo_device)\<lparr>es_FirmwareURL := ''http://fw1/v1.bin'', es_ChecksumSHA256 := replicate 64 CHR ''0''\<rparr>\<rparr>"

definition crd_rollout :: FleetRollout where
  "crd_rollout = demo_rollout\<lparr>fr_Spec := (fr_Spec demo_rollout)\<lparr>fs_FirmwareURL := ''https://fw1/v2.bin'', fs_ChecksumSHA256 := replicate 64 CHR ''a''\<rparr>\<rparr>"

section \<open>Lemmas\<close>

lemma SetCondition_members:
  "x \<in> set (SetCondition now cs ctype status reason msg gen) \<Longrightarrow> x \<in> set cs \<or>
     (\<exists>t. x = \<lparr>c_Type = ctype, c_Status = status, c_ObservedGeneration = gen, c_LastTransitionTime = t, c_Reason = reason, c_Message = msg\<rparr>)"
proof (induction cs)
  case (Cons a cs)
  then show ?case by (cases a) (auto split: if_splits)
qed simp

interpretation agent_condition_list: condition_list find_type upsert
proof unfold_locales
  fix x now and c :: "'t Condition" and cs
  assume "x \<in> set (upsert now c cs)"
  then show "x \<in> set cs \<or> (\<exists>t. x = c\<lparr>c_LastTransitionTime := t\<rparr>)"
    using SetCondition_members[of x now cs] by (cases c) (fastforce simp: upsert_def)
qed (simp add: upsert_def distinct_SetCondition)

lemma set_conditions_valid: "list_laws L \<Longrightarrow> valid_conditions cs \<Longrightarrow> valid_Condition c \<Longrightarrow> valid_conditions (lib_set L now c cs)"
  unfolding list_laws_def by (rule condition_list.set_valid)

lemma length_nat_digits: "n < 10 ^ k \<Longrightarrow> 0 < k \<Longrightarrow> length (nat_digits n) \<le> k"
proof (induction n arbitrary: k rule: nat_digits.induct)
  case (1 n)
  show ?case
  proof (cases "n < 10")
    case False
    then obtain j where k: "k = Suc j" "0 < j" using "1.prems" by (cases k; cases "k - 1") auto
    then have "n div 10 < 10 ^ j" using "1.prems" by (simp add: less_mult_imp_div_less mult.commute)
    with "1.IH"[OF False] k False show ?thesis by (subst nat_digits.simps) simp
  qed (use "1.prems" in \<open>subst nat_digits.simps, simp\<close>)
qed

lemma length_fmtFrac: "length (fmtFrac v prec) \<le> Suc prec"
  using length_dropWhile_le[of "\<lambda>c. c = CHR ''0''" "map (\<lambda>i. digit_char (v div 10 ^ i mod 10)) [0..<prec]"]
  by (simp add: fmtFrac_def Let_def rev_map)

lemma length_Duration_String: "\<bar>d\<bar> < 10 ^ 20 \<Longrightarrow> length (Duration_String d) \<le> 80"
proof -
  assume "\<bar>d\<bar> < 10 ^ 20"
  then have u: "nat \<bar>d\<bar> < 10 ^ 20" by (simp add: nat_less_iff)
  have small: "length (nat_digits k) \<le> 20" if "k \<le> nat \<bar>d\<bar>" for k
    using length_nat_digits[of k 20] le_less_trans[OF that u] by simp
  have n: "length (nat_digits (nat \<bar>d\<bar> div k)) \<le> 20" "length (nat_digits (nat \<bar>d\<bar> div k mod m)) \<le> 20" "length (nat_digits (nat \<bar>d\<bar>)) \<le> 20"
    "length (nat_digits (nat \<bar>d\<bar> div k div l)) \<le> 20" "length (nat_digits (nat \<bar>d\<bar> div k div l mod m)) \<le> 20" "length (nat_digits (nat \<bar>d\<bar> div k div l div m)) \<le> 20" for k l m
    by (rule small, meson div_le_dividend mod_less_eq_dividend order_trans order_refl)+
  have f: "length (fmtFrac (nat \<bar>d\<bar>) p) \<le> Suc p" for p by (rule length_fmtFrac)
  define h where "h = nat_digits (nat \<bar>d\<bar> div 1000000000 div 60 div 60)"
  define m where "m = nat_digits (nat \<bar>d\<bar> div 1000000000 div 60 mod 60)"
  define s where "s = nat_digits (nat \<bar>d\<bar> div 1000000000 mod 60)"
  have hms: "length h \<le> 20" "length m \<le> 20" "length s \<le> 20" unfolding h_def m_def s_def by (rule n)+
  have long: "length ((if b then h @ ''h'' else []) @ (if b' then m @ ''m'' else []) @ s @ fmtFrac (nat \<bar>d\<bar>) 9 @ ''s'') \<le> 75" for b b'
    using hms f[of 9] by (cases b; cases b') simp_all
  have mid: "length (nat_digits (nat \<bar>d\<bar> div k) @ fmtFrac (nat \<bar>d\<bar>) 6 @ x) \<le> 75" "length (nat_digits (nat \<bar>d\<bar> div k) @ fmtFrac (nat \<bar>d\<bar>) 3 @ x) \<le> 75"
    "length (nat_digits (nat \<bar>d\<bar>) @ x) \<le> 75" if "length x \<le> 3" for k x
    using n(1)[of k] n(3) f[of 6] f[of 3] that by simp_all
  have cons: "length (if d < 0 then CHR ''-'' # x else x) \<le> 80" if "length x \<le> 75" for x using that by simp
  have pick: "length (if b then x else y) \<le> 75" if "length x \<le> 75" "length y \<le> 75" for b and x y :: string using that by simp
  show ?thesis
    unfolding Duration_String_def Let_def h_def[symmetric] m_def[symmetric] s_def[symmetric]
    by (rule cons, intro pick long mid) simp_all
qed

lemmas schema_defs = valid_Condition_def matches_reason_def matches_type_def matches_name_def is_alnum_def is_alpha_def is_digit_def

lemma healthy_valid:
  assumes "(status, reason) \<in> {(ConditionUnknown, ''AwaitingFirstHeartbeat''), (CondFalse, ''HeartbeatTimeout''), (CondTrue, ''HeartbeatFresh'')}"
    "length msg \<le> 32768" "0 \<le> g"
  shows "valid_Condition \<lparr>c_Type = ConditionHealthy, c_Status = status, c_ObservedGeneration = g, c_LastTransitionTime = t, c_Reason = reason, c_Message = msg\<rparr>"
  using assms by (auto simp: schema_defs ConditionHealthy_def ConditionUnknown_def CondFalse_def CondTrue_def)

lemma projectStatus_valid:
  assumes L: "list_laws L" and d: "valid_device dev" and t: "\<bar>timeout_of r\<bar> < 10 ^ 20"
  shows "valid_EdgeDeviceStatus (fst (projectStatus L r nows dev))"
proof -
  have cs: "valid_conditions (eds_Conditions (ed_Status dev))" and g: "0 \<le> om_Generation (ed_Meta dev)"
    using d by (simp_all add: valid_device_def valid_EdgeDeviceStatus_def)
  have m: "length (''no heartbeat for more than '' @ Duration_String (timeout_of r)) \<le> 32768" using length_Duration_String[OF t] by simp
  show ?thesis
    unfolding valid_EdgeDeviceStatus_def projectStatus_def Let_def
    by (simp split: option.split) (intro conjI impI allI set_conditions_valid[OF L cs] healthy_valid; use g m in simp)
qed

lemma finalizers_only_meta:
  assumes "finalizers_only L"
  shows "om_Generation (lib_AddFinalizer L m f) = om_Generation m" "om_Generation (lib_RemoveFinalizer L m f) = om_Generation m"
proof -
  have "om_Generation ((lib_AddFinalizer L m f)\<lparr>om_Finalizers := om_Finalizers m\<rparr>) = om_Generation m"
    "om_Generation ((lib_RemoveFinalizer L m f)\<lparr>om_Finalizers := om_Finalizers m\<rparr>) = om_Generation m"
    using assms unfolding finalizers_only_def by simp_all
  then show "om_Generation (lib_AddFinalizer L m f) = om_Generation m" "om_Generation (lib_RemoveFinalizer L m f) = om_Generation m" by simp_all
qed

lemma device_pass_valid:
  assumes L: "list_laws L" "finalizers_only L" and t: "\<bar>timeout_of r\<bar> < 10 ^ 20"
    and d: "\<And>dev. on_GetDevice S hist req = Inr dev \<Longrightarrow> valid_device dev" and es: "snd (Reconcile S L r nows bytes req hist) = hist @ es"
  shows "list_all valid_write es"
proof -
  have ev: "pass_events L r nows req es" "hd es = GotDevice req (on_GetDevice S hist req)"
    using Reconcile_events[of S L r nows bytes req hist] es by auto
  have sec: "list_all valid_write es'" if "secret_events dev es'" for dev es' using that by (auto elim: secret_events.cases)
  have st: "valid_device (dev\<lparr>ed_Status := (ed_Status dev)\<lparr>eds_Phase := p, eds_Conditions := eds_Conditions (fst (projectStatus L r nows dev))\<rparr>\<rparr>)"
    if "valid_device dev" for dev p
    using that projectStatus_valid[OF L(1) that t] by (simp add: valid_device_def valid_EdgeDeviceStatus_def)
  from ev(1) show ?thesis
    using d ev(2) st by (cases rule: pass_events.cases) (auto simp: sec valid_device_def finalizers_only_meta[OF L(2)])
qed

lemma breaker_condition_valid: "0 \<le> om_Generation (fr_Meta ro) \<Longrightarrow> valid_Condition (breaker_condition ro b)"
  by (cases b) (simp_all add: breaker_condition_def schema_defs ConditionBreakerTripped_def CondFalse_def CondTrue_def)

lemma count_partition: "count (\<lambda>d. reached ro d \<or> pending ro d) devs + count (untouched ro) devs = int (length devs)"
proof -
  have "count (\<lambda>d. reached ro d \<or> pending ro d) devs + count (untouched ro) devs = count (\<lambda>_. True) devs"
    by (subst count_disjoint) (auto simp: untouched_def intro!: arg_cong[where f = "\<lambda>P. count P devs"])
  then show ?thesis by (simp add: count_def)
qed

lemma pass_status_valid:
  assumes L: "list_laws L" and ro: "valid_rollout ro" and sz: "int (length devs) < 2 ^ 31"
    and us: "pass_updates L ro devs us None"
  shows "valid_FleetRolloutStatus (pass_status L now ro devs us)"
proof -
  have c: "valid_conditions (lib_set L now (breaker_condition ro b) (fst_Conditions (fr_Status ro)))" for b
    by (rule set_conditions_valid[OF L _ breaker_condition_valid]) (use ro in \<open>simp_all add: valid_rollout_def valid_FleetRolloutStatus_def\<close>)
  have "int (length us) \<le> count (untouched ro) devs" if "rollout_phase L ro devs = RolloutProgressing"
  proof -
    have "length us \<le> length (next_batch L ro devs)" using us that update_events_D[of "target_device ro" "next_batch L ro devs" us None] by (simp add: pass_updates_def)
    also have "\<dots> \<le> length (filter unpaused (filter (untouched ro) devs))" by (simp add: next_batch_def)
    also have "\<dots> \<le> length (filter (untouched ro) devs)" by (rule length_filter_le)
    finally show ?thesis by (simp add: count_def)
  qed
  moreover have "count (reached ro) devs + count (\<lambda>d. pending ro d \<and> deviceFailed L d) devs \<le> count (\<lambda>d. reached ro d \<or> pending ro d) devs"
    unfolding count_pending by (auto intro: count_mono)
  ultimately show ?thesis
    using count_partition[of ro devs] count_bounds[of "reached ro" devs] count_bounds[of "\<lambda>d. pending ro d \<and> deviceFailed L d" devs]
      count_bounds[of "untouched ro" devs] sz c
    by (auto simp: pass_status_def Let_def newRolloutStatus_def valid_FleetRolloutStatus_def tally_fleet_eq[OF sz])
qed

lemma rollout_pass_valid:
  assumes L: "list_laws L" and rd: "reads_fleet S hist req ro items" and ro: "valid_rollout ro" and ds: "list_all valid_device items"
    and sz: "int (length items) < 2 ^ 31" "fs_MaxUnavailable (fr_Spec ro) < 2 ^ 31" and es: "snd (Rollout_Reconcile S L now req hist) = hist @ es"
  shows "list_all valid_write es"
proof -
  have "0 \<le> fs_MaxUnavailable (fr_Spec ro)" using ro by (simp add: valid_rollout_def valid_FleetRolloutSpec_def)
  from rollout_pass[OF rd refl sz(1) this sz(2), of L now] es obtain us e ss where
    e: "es = [GotRollout req (Inr ro), ListedDevices (om_Namespace (fr_Meta ro)) (fs_Selector (fr_Spec ro)) (Inr items)] @ us @ ss"
    and us: "pass_updates L ro (fleet items) us e" "if e = None then status_events L ro (pass_status L now ro (fleet items) us) ss else ss = []" by auto
  have dev: "valid_device (pause_device d)" "valid_device (target_device ro d)" if "d \<in> set items" for d
    using that ds ro by (auto simp: list_all_iff valid_device_def valid_EdgeDeviceSpec_def pause_device_def target_device_def valid_rollout_def valid_FleetRolloutSpec_def)
  have "list_all valid_write us"
    using us(1) update_events_D[of pause_device "filter unpaused (fleet items)" us e] update_events_D[of "target_device ro" "next_batch L ro (fleet items)" us e] dev
    by (fastforce simp: pass_updates_def list_all_iff next_batch_def dest!: in_set_takeD split: RolloutPhase.splits)
  moreover have "list_all valid_write ss"
    using us pass_status_valid[OF L ro, of "fleet items" us now] sz(1) ro by (auto simp: status_events_def valid_rollout_def split: if_splits)
  ultimately show ?thesis by (simp add: e)
qed

lemma demo_libs_list_laws: "list_laws demo_libs" "finalizers_only demo_libs"
  using agent_condition_list.condition_list_axioms by (simp_all add: list_laws_def finalizers_only_def demo_libs_def)

lemma crd_objects_valid: "valid_device crd_device" "valid_rollout crd_rollout"
  by (simp_all add: valid_device_def valid_rollout_def crd_device_def crd_rollout_def demo_device_def demo_rollout_def valid_EdgeDeviceSpec_def
      valid_EdgeDeviceStatus_def valid_FleetRolloutSpec_def valid_FleetRolloutStatus_def valid_conditions_def matches_url_def matches_sha256_def
      HasPrefix_def is_hex_def is_digit_def list_all_iff)

section \<open>Properties\<close>

text \<open>C13. Valid objects in, valid objects out: when the API server hands the controllers only objects that
  pass the validation of their types, every object that a pass of either controller writes passes
  it too. A targeted or paused device keeps a valid spec, conditions stay well-formed and a map
  by type, and the numbers of a rollout status are nested the way its comment says.\<close>

theorem controllers_preserve_validity:
  assumes "list_laws L" "finalizers_only L" "\<bar>timeout_of r\<bar> < 10 ^ 20"
    and "\<forall>dev. on_GetDevice S hist req = Inr dev \<longrightarrow> valid_device dev"
    and "reads_fleet S hist' req' ro items" "valid_rollout ro" "list_all valid_device items"
    and "int (length items) < 2 ^ 31" "fs_MaxUnavailable (fr_Spec ro) < 2 ^ 31"
  shows "list_all valid_write (drop (length hist) (snd (Reconcile S L r nows bytes req hist))) \<and>
    list_all valid_write (drop (length hist') (snd (Rollout_Reconcile S L now req' hist')))"
proof
  obtain es where es: "snd (Reconcile S L r nows bytes req hist) = hist @ es" using Reconcile_events by blast
  with device_pass_valid[OF assms(1-3) _ es] assms(4) show "list_all valid_write (drop (length hist) (snd (Reconcile S L r nows bytes req hist)))" by simp
  have "0 \<le> fs_MaxUnavailable (fr_Spec ro)" using assms(6) by (simp add: valid_rollout_def valid_FleetRolloutSpec_def)
  from rollout_pass[OF assms(5) refl assms(8) this assms(9)] obtain es' where es': "snd (Rollout_Reconcile S L now req' hist') = hist' @ es'" by blast
  with rollout_pass_valid[OF assms(1,5-9) es'] show "list_all valid_write (drop (length hist') (snd (Rollout_Reconcile S L now req' hist')))" by simp
qed

theorem controllers_preserve_validity_witness:
  "list_all valid_write (snd (Reconcile ((fleet_server crd_rollout [crd_device])\<lparr>on_GetDevice := \<lambda>_ _. Inr crd_device\<rparr>) demo_libs demo_reconciler
       (\<lambda>_. 5) ''r'' (''default'', ''dev-0'') [])) \<and>
   list_all valid_write (snd (Rollout_Reconcile ((fleet_server crd_rollout [crd_device])\<lparr>on_GetDevice := \<lambda>_ _. Inr crd_device\<rparr>) demo_libs 5 (''default'', ''ro'') []))"
  using controllers_preserve_validity[OF demo_libs_list_laws, of demo_reconciler "(fleet_server crd_rollout [crd_device])\<lparr>on_GetDevice := \<lambda>_ _. Inr crd_device\<rparr>"
      "[]" "(''default'', ''dev-0'')" "[]" "(''default'', ''ro'')" crd_rollout "[crd_device]" "\<lambda>_. 5" "''r''" 5] crd_objects_valid
  by (simp add: timeout_of_def demo_reconciler_def defaultHeartbeatTimeout_def second_def reads_fleet_def fleet_server_def demo_server_def
      crd_rollout_def demo_rollout_def)

end
