(* ===== verification/Fleet_Wire.thy ===== *)
theory Fleet_Wire
  imports Agent Rollout_Controller
begin

text \<open>
  The agent re-declares the custom resource (\<open>kube.go\<close>) instead of importing the API types; the two
  meet in the JSON form, where the fields have the same names. \<open>lean_device\<close> is what the agent
  decodes of an API object, \<open>wire_status\<close> what the operator decodes of a status the agent wrote;
  \<open>fmt\<close> and \<open>time\<close> print and parse time stamps. Absent and empty fields coincide.
\<close>

fun phase_string :: "DevicePhase \<Rightarrow> string" where
  "phase_string PhaseUnset = []"
| "phase_string PhaseProvisioning = ''Provisioning''"
| "phase_string PhaseReady = ''Ready''"
| "phase_string PhaseUpgrading = ''Upgrading''"
| "phase_string PhaseDegraded = ''Degraded''"

definition string_phase :: "string \<Rightarrow> DevicePhase" where
  "string_phase s = (if s = ''Provisioning'' then PhaseProvisioning else if s = ''Ready'' then PhaseReady
     else if s = ''Upgrading'' then PhaseUpgrading else if s = ''Degraded'' then PhaseDegraded else PhaseUnset)"

definition conv_condition :: "('a \<Rightarrow> 'b) \<Rightarrow> 'a Condition \<Rightarrow> 'b Condition" where
  "conv_condition f c = \<lparr>c_Type = c_Type c, c_Status = c_Status c, c_ObservedGeneration = c_ObservedGeneration c,
     c_LastTransitionTime = f (c_LastTransitionTime c), c_Reason = c_Reason c, c_Message = c_Message c\<rparr>"

definition lean_status :: "(int \<Rightarrow> string) \<Rightarrow> EdgeDeviceStatus \<Rightarrow> DeviceStatus" where
  "lean_status fmt st = \<lparr>st_Phase = phase_string (eds_Phase st), st_Conditions = map (conv_condition fmt) (eds_Conditions st),
     st_CurrentFirmwareVersion = eds_CurrentFirmwareVersion st, st_ActiveSlot = eds_ActiveSlot st,
     st_LastHeartbeat = (case eds_LastHeartbeat st of None \<Rightarrow> [] | Some t \<Rightarrow> fmt t), st_ObservedGeneration = eds_ObservedGeneration st\<rparr>"

definition wire_status :: "(string \<Rightarrow> int) \<Rightarrow> DeviceStatus \<Rightarrow> EdgeDeviceStatus" where
  "wire_status time st = \<lparr>eds_Phase = string_phase (st_Phase st), eds_Conditions = map (conv_condition time) (st_Conditions st),
     eds_CurrentFirmwareVersion = st_CurrentFirmwareVersion st, eds_ActiveSlot = st_ActiveSlot st,
     eds_LastHeartbeat = (if st_LastHeartbeat st = [] then None else Some (time (st_LastHeartbeat st))), eds_ObservedGeneration = st_ObservedGeneration st\<rparr>"

definition lean_device :: "(int \<Rightarrow> string) \<Rightarrow> string \<Rightarrow> EdgeDevice \<Rightarrow> Device" where
  "lean_device fmt v dev = \<lparr>d_APIVersion = ''edge.example.com/v1alpha1'', d_Kind = ''EdgeDevice'',
     d_Metadata = \<lparr>m_Name = om_Name (ed_Meta dev), m_Namespace = om_Namespace (ed_Meta dev), m_ResourceVersion = v,
       m_Generation = om_Generation (ed_Meta dev), m_UID = om_UID (ed_Meta dev)\<rparr>,
     d_Spec = \<lparr>sp_DesiredFirmwareVersion = es_DesiredFirmwareVersion (ed_Spec dev), sp_FirmwareURL = es_FirmwareURL (ed_Spec dev),
       sp_ChecksumSHA256 = es_ChecksumSHA256 (ed_Spec dev), sp_Region = es_Region (ed_Spec dev),
       sp_DeviceLabels = es_DeviceLabels (ed_Spec dev), sp_RolloutPaused = es_RolloutPaused (ed_Spec dev)\<rparr>,
     d_Status = lean_status fmt (ed_Status dev)\<rparr>"

definition times_of :: "EdgeDeviceStatus \<Rightarrow> int list" where
  "times_of st = (case eds_LastHeartbeat st of None \<Rightarrow> [] | Some t \<Rightarrow> [t]) @ map c_LastTransitionTime (eds_Conditions st)"

text \<open>A printer of small times for the witnesses.\<close>

definition tally_fmt :: "int \<Rightarrow> string" where
  "tally_fmt t = replicate (Suc (nat t)) CHR ''x''"

definition tally_time :: "string \<Rightarrow> int" where
  "tally_time s = int (length s) - 1"

section \<open>Lemmas\<close>

lemma string_phase_string [simp]: "string_phase (phase_string p) = p"
  by (cases p) (simp_all add: string_phase_def)

lemma find_type_conv: "find_type (map (conv_condition f) cs) t = map_option (conv_condition f) (find_type cs t)"
  by (induction cs) (auto simp: conv_condition_def)

lemma reports_failure_wire:
  "reports_failure (find_type (map (conv_condition f) (SetCondition now cs CondFirmwareSynced status reason msg g)) ConditionFirmwareSynced)
     \<longleftrightarrow> status = CondFalse \<and> reason \<noteq> ''UpgradeInProgress''"
  by (simp add: find_type_conv find_type_SetCondition reports_failure_def conv_condition_def ConditionFirmwareSynced_def CondFirmwareSynced_def)

end
