(* ===== verification/Agent_Calm.thy ===== *)
theory Agent_Calm
  imports Agent_Run API_Validation Fleet_Wire
begin

text \<open>
  A valid fleet does not crash its agents: the places where the agent can panic (the slice of the
  checksum, the random numbers of the waits, the ticker) are out of reach when the device objects
  pass the validation of their type and the intervals are positive. \<open>calm\<close> programs do not panic,
  whatever their calls meet.
\<close>

definition calmP :: "'a prog \<Rightarrow> bool" where
  "calmP m \<longleftrightarrow> (\<forall>w. fst (m w) \<noteq> Panicked)"

definition calm :: "('s, 'a) act \<Rightarrow> bool" where
  "calm m \<longleftrightarrow> (\<forall>a. fst (m a) \<noteq> Panicked)"

definition valid_DeviceSpec :: "DeviceSpec \<Rightarrow> bool" where
  "valid_DeviceSpec sp \<longleftrightarrow> length (sp_DesiredFirmwareVersion sp) \<ge> 1 \<and> matches_url (sp_FirmwareURL sp) \<and> matches_sha256 (sp_ChecksumSHA256 sp)"

text \<open>The API server hands out valid devices, and the agent has the options that its \<open>main\<close> gives it.\<close>

definition sane_env :: "'s Env \<Rightarrow> bool" where
  "sane_env E \<longleftrightarrow> cf_Download (e_cfg E) = default_options \<and>
     (\<forall>s d s'. Get (e_kube E) (e_http E) s = (Inr d, s') \<longrightarrow> valid_DeviceSpec (d_Spec d))"

fun sane_event :: "'s sched \<Rightarrow> bool" where
  "sane_event (PollTimer r E gone) = sane_env E"
| "sane_event (UpgradeMoves i E) = sane_env E"
| "sane_event _ = True"

definition sane_config :: "Config \<Rightarrow> bool" where
  "sane_config cfg \<longleftrightarrow> 0 < cf_PollInterval cfg \<and> 0 < cf_HeartbeatInterval cfg"

definition sane_proc :: "'s proc \<Rightarrow> bool" where
  "sane_proc p \<longleftrightarrow> pr_exit p \<noteq> Some 2 \<and> (\<forall>(spec, gen, ph) \<in> set (ag_running (pr_agent p)). valid_DeviceSpec spec)"

section \<open>Lemmas\<close>

subsection \<open>Calm programs\<close>

lemma calmP_retp: "calmP (retp x)"
  by (simp add: calmP_def retp_def)

lemma calmP_bindp: "calmP m \<Longrightarrow> (\<And>x. calmP (f x)) \<Longrightarrow> calmP (bindp m f)"
  by (auto simp: calmP_def bindp_def split: prod.split outcome.split) (metis fst_conv)

lemma calmP_bindE: "calmP m \<Longrightarrow> (\<And>x. calmP (f x)) \<Longrightarrow> calmP (bindE m f)"
  unfolding bindE_def by (rule calmP_bindp) (auto simp: calmP_retp split: sum.split)

lemma calmP_case: "(\<And>x. calmP (f x)) \<Longrightarrow> (\<And>y. calmP (g y)) \<Longrightarrow> calmP (case r of Inl x \<Rightarrow> f x | Inr y \<Rightarrow> g y)"
  by (cases r) auto

lemma calmP_if: "calmP m \<Longrightarrow> calmP m' \<Longrightarrow> calmP (if b then m else m')"
  by simp

lemma atomic_call_calm: "fst (atomic_call c act w) \<noteq> Panicked" "fst (write_call c p d w) \<noteq> Panicked"
  by (auto simp: atomic_call_def write_call_def split: fault.split prod.split)

lemma calmP_os:
  "calmP (os_Readlink p)" "calmP (os_Lstat p)" "calmP (os_Stat p)" "calmP (os_ReadFile p)" "calmP (os_Open p)" "calmP (os_Create p)"
  "calmP (os_WriteFile p d)" "calmP (os_Remove p)" "calmP (os_Symlink t p)" "calmP (os_Rename p q)" "calmP (os_MkdirAll p)" "calmP (os_Copy p q)"
  "calmP (os_OpenAppend p)" "calmP (os_Append p d)" "calmP (http_get net i u off)"
  by (auto simp: calmP_def os_defs os_Append_def http_get_def atomic_call_calm split: option.split node.split fault.split)

lemmas calmP_intros = calmP_retp calmP_bindp calmP_bindE calmP_case calmP_if calmP_os

lemma calmP_slots:
  "calmP (Active s)" "calmP (VerifySHA256 h p want)" "calmP (switchTo s x)"
  unfolding Active_def VerifySHA256_def switchTo_def Let_def by (intro calmP_intros)+

lemmas calmP_slot_intros = calmP_intros calmP_slots

lemma calmP_slot_ops:
  "calmP (ActiveVersion s)" "calmP (Stage s p v c)" "calmP (VerifyStaged h s)" "calmP (PromoteStaged s)" "calmP (rollback s x)" "calmP (Rollback s)"
  "calmP (SelfCheck h s)" "calmP (Confirm s)"
  unfolding ActiveVersion_def Stage_def VerifyStaged_def PromoteStaged_def rollback_def Rollback_def SelfCheck_def Confirm_def Let_def
  by (intro calmP_slot_intros)+

lemma calmP_BootCheck: "calmP (BootCheck s)"
  unfolding BootCheck_def Let_def by (intro calmP_slot_intros calmP_slot_ops)

lemma calmP_bootSequence: "calmP (bootSequence E)"
  unfolding bootSequence_def Let_def
  by (rule calmP_bindp[OF calmP_BootCheck]) (auto intro!: calmP_slot_intros calmP_slot_ops split: option.split)

lemma calmP_downloadOnce: "calmP (downloadOnce net i u dest)"
  unfolding downloadOnce_defs copy_body_def Let_def
  by (intro calmP_intros) (auto intro!: calmP_intros split: dl_reply.split)

lemma calmP_download_loop:
  "(\<And>i. a \<le> i \<Longrightarrow> i < a + n \<Longrightarrow> 0 < i \<Longrightarrow> 0 < backoff o' i) \<Longrightarrow> calmP (download_loop net cancelled u dest o' e a n)"
proof (induction n arbitrary: a e)
  case (Suc n)
  have "0 < backoff o' a" if "0 < a" using Suc.prems[of a] that by simp
  moreover have "calmP (download_loop net cancelled u dest o' e' (Suc a) n)" for e' by (rule Suc.IH) (use Suc.prems in simp)
  ultimately show ?case
    by (auto simp: Let_def not_le intro!: calmP_intros calmP_downloadOnce)
qed (simp add: calmP_retp)

lemma calmP_DownloadWithResume: "calmP (DownloadWithResume net cancelled u dest default_options)"
  unfolding DownloadWithResume_def Let_def
proof (rule calmP_download_loop)
  fix i assume "i < 0 + nat (do_MaxAttempts (withDefaults default_options))"
  then have "i \<le> 35" by (simp add: withDefaults_def default_options_def)
  then show "0 < backoff (withDefaults default_options) i" using backoff_default[of default_options i] by (simp add: default_options_def)
qed

subsection \<open>Calm actions\<close>

lemma calm_prims:
  "calm (retA x)" "calm (modA f)" "calm (fsm_To st)" "calm (reportStatus E g)" "calmP m \<Longrightarrow> calm (liftA m)"
  by (auto simp: calm_def calmP_def retA_def modA_def fsm_To_def reportStatus_def liftA_def split: prod.splits) (metis fst_conv)

lemma calm_bindA: "calm m \<Longrightarrow> (\<And>x. calm (f x)) \<Longrightarrow> calm (bindA m f)"
  by (auto simp: calm_def bindA_def split: prod.split outcome.split) (metis fst_conv)

lemma calm_case: "(\<And>x. calm (f x)) \<Longrightarrow> (\<And>y. calm (g y)) \<Longrightarrow> calm (case r of Inl x \<Rightarrow> f x | Inr y \<Rightarrow> g y)"
  by (cases r) auto

lemma calm_if: "calm m \<Longrightarrow> calm m' \<Longrightarrow> calm (if b then m else m')"
  by simp

lemmas calm_intros = calm_bindA calm_prims calm_case calm_if calmP_slots calmP_slot_ops calmP_BootCheck calmP_os

lemma calm_fail: "calm (fail E spec reason msg)"
  unfolding fail_def by (intro calm_intros)

lemma calm_run_phase:
  assumes "valid_DeviceSpec spec" "sane_env E"
  shows "calm (run_phase E spec ph)"
proof -
  have "\<not> length (sp_ChecksumSHA256 spec) < 12" using assms(1) by (simp add: valid_DeviceSpec_def matches_sha256_def)
  moreover have "calmP (DownloadWithResume (e_net E) (e_cancelled E) u p (cf_Download (e_cfg E)))" for u p
    using assms(2) calmP_DownloadWithResume by (simp add: sane_env_def)
  ultimately have "calm (upgrade_download E spec)"
    unfolding upgrade_download_def by (auto intro!: calm_intros calm_fail)
  then show ?thesis
    by (cases ph) (auto simp: upgrade_announce_def upgrade_verify_def upgrade_flash_defs upgrade_confirm_defs upgrade_done_def split_beta
        intro!: calm_intros calm_fail split: prod.split)
qed

lemma calm_startUpgrade: "calm (\<lambda>a. if ag_lastFailedKey a = k then (Done (), a) else startUpgrade dev a)"
  by (simp add: calm_def startUpgrade_def)

lemma calm_evaluate: "calm (evaluate E dev)"
  unfolding evaluate_def syncSteadyStatus_def Let_def by (intro calm_intros calm_startUpgrade)

lemma calm_heartbeat: "calm (heartbeat E)"
  unfolding heartbeat_def by (intro calm_intros)

text \<open>The poll adds at most a transaction for the spec it read.\<close>

lemma evaluate_running:
  fixes a :: "'s Agent"
  shows "set (ag_running (snd (evaluate E dev a))) \<subseteq> insert (d_Spec dev, m_Generation (d_Metadata dev), PAnnounce) (set (ag_running a))"
proof -
  have "keepsV guard_view (liftA (ActiveVersion (e_slots E)) :: ('s, string) act)" by (rule keepsV_prims(3))
  then have "ag_running (snd (liftA (ActiveVersion (e_slots E)) b)) = ag_running b" for b :: "'s Agent" by (simp add: keepsV_def)
  moreover have "ag_running (snd (syncSteadyStatus E dev c b)) = ag_running b" for c and b :: "'s Agent"
    using keepsV_syncSteadyStatus[of E dev c] by (simp add: keepsV_def)
  moreover obtain r b where b: "liftA (ActiveVersion (e_slots E)) (a\<lparr>ag_lastSeenGen := m_Generation (d_Metadata dev)\<rparr>) = (r, b)" by force
  ultimately have rb: "ag_running b = ag_running a" and sync: "\<And>c. ag_running (snd (syncSteadyStatus E dev c b)) = ag_running b"
    by (auto dest: arg_cong[where f = "\<lambda>x. ag_running (snd x)"])
  have "evaluate E dev a = (case r of Done cur \<Rightarrow> (if sp_DesiredFirmwareVersion (d_Spec dev) = cur then syncSteadyStatus E dev cur b
      else if sp_RolloutPaused (d_Spec dev) \<or> ag_lastFailedKey b = target_key (d_Spec dev) then (Done (), b) else startUpgrade dev b)
      | Died \<Rightarrow> (Died, b) | Panicked \<Rightarrow> (Panicked, b))"
    by (cases r) (simp_all add: evaluate_def bindA_def modA_def retA_def b)
  then show ?thesis using rb sync by (cases r) (auto simp: startUpgrade_def)
qed

subsection \<open>Calm processes\<close>

lemma after_sane:
  "sane_proc p \<Longrightarrow> fst r \<noteq> Panicked \<Longrightarrow> \<forall>(spec, gen, ph) \<in> set (ag_running (snd r)). valid_DeviceSpec spec \<Longrightarrow> sane_proc (after p r)"
  by (cases r; cases "fst r") (auto simp: after_def ends_def power_off_def sane_proc_def)

lemma ends_sane: "sane_proc p \<Longrightarrow> code \<noteq> 2 \<Longrightarrow> sane_proc (ends code a p)"
  by (simp add: sane_proc_def ends_def power_off_def)

lemma sane_same: "ag_running a = ag_running (pr_agent p) \<Longrightarrow> sane_proc (p\<lparr>pr_agent := a\<rparr>) = sane_proc p" "sane_proc (p\<lparr>pr_beat := b\<rparr>) = sane_proc p"
  by (simp_all add: sane_proc_def)

lemma run_round_sane:
  assumes "sane_proc p" "sane_env E" "sane_config cfg"
  shows "sane_proc (run_round cfg r E gone p)"
proof -
  obtain g s' where g: "Get (e_kube E) (e_http E) (ag_api (pr_agent p)) = (g, s')" by force
  have "sane_proc (after p (evaluate E dev ((pr_agent p)\<lparr>ag_api := s'\<rparr>)))" if "g = Inr dev" for dev
  proof (rule after_sane[OF assms(1)])
    show "fst (evaluate E dev ((pr_agent p)\<lparr>ag_api := s'\<rparr>)) \<noteq> Panicked" using calm_evaluate[of E dev] by (simp add: calm_def)
    have "valid_DeviceSpec (d_Spec dev)" using assms(2) g that by (auto simp: sane_env_def)
    then show "\<forall>(spec, gen, ph) \<in> set (ag_running (snd (evaluate E dev ((pr_agent p)\<lparr>ag_api := s'\<rparr>)))). valid_DeviceSpec spec"
      using evaluate_running[of E dev "(pr_agent p)\<lparr>ag_api := s'\<rparr>"] assms(1) unfolding sane_proc_def by fastforce
  qed
  moreover have "poll_interval cfg r \<noteq> None" using assms(3) by (simp add: sane_config_def poll_interval_def)
  moreover have "sane_proc (p\<lparr>pr_agent := (pr_agent p)\<lparr>ag_api := s'\<rparr>\<rparr>)" using assms(1) by (simp add: sane_proc_def)
  ultimately show ?thesis using g ends_sane[OF assms(1)] by (auto simp: run_round_def Let_def split: sum.split option.split)
qed

lemma upgrade_moves_sane:
  assumes "sane_proc p" "sane_env E"
  shows "sane_proc (upgrade_moves i E p)"
proof (cases "i < length (ag_running (pr_agent p))")
  case True
  obtain spec gen ph where ph: "ag_running (pr_agent p) ! i = (spec, gen, ph)" by (cases "ag_running (pr_agent p) ! i")
  then have v: "valid_DeviceSpec spec" using assms(1) nth_mem[OF True] by (auto simp: sane_proc_def)
  obtain r a' where r: "run_phase E spec ph (pr_agent p) = (r, a')" by force
  have "r \<noteq> Panicked" using calm_run_phase[OF v assms(2), of ph] r unfolding calm_def by (metis fst_conv)
  with True ph r v assms(1) ends_sane[OF assms(1), of 137 a'] show ?thesis
    by (cases r) (auto simp: upgrade_moves_def Let_def sane_proc_def split: option.split dest!: in_set_takeD in_set_dropD)
qed (use assms(1) in \<open>simp add: upgrade_moves_def\<close>)

lemma sched_step_sane:
  assumes "sane_proc p" "sane_event ev" "sane_config cfg"
  shows "sane_proc (sched_step cfg ev p)"
proof -
  have "keepsV guard_view (heartbeat E :: ('a, unit) act)" for E by (rule keepsV_heartbeat)
  then have "ag_running (snd (heartbeat E (pr_agent p))) = ag_running (pr_agent p)" for E by (simp add: keepsV_def)
  then have beat: "sane_proc (after p (heartbeat E (pr_agent p)))" for E
    using calm_heartbeat[of E] assms(1) by (intro after_sane) (auto simp: calm_def sane_proc_def)
  show ?thesis
    using assms run_round_sane[OF assms(1) _ assms(3)] upgrade_moves_sane[OF assms(1)] beat ends_sane[OF assms(1)]
    by (cases ev) (auto simp: sched_step_def run_cancelled_def heartbeatLoop_def beat_start_def sane_config_def poll_interval_def sane_same split: beater.split)
qed

lemma schedule_sane: "sane_proc p \<Longrightarrow> \<forall>ev \<in> set evs. sane_event ev \<Longrightarrow> sane_config cfg \<Longrightarrow> sane_proc (fold (sched_step cfg) evs p)"
  by (induction evs arbitrary: p) (simp_all add: sched_step_sane)

lemma lean_device_valid: "valid_device d \<Longrightarrow> valid_DeviceSpec (d_Spec (lean_device fmt v d))"
  by (simp add: valid_device_def valid_EdgeDeviceSpec_def valid_DeviceSpec_def lean_device_def)

section \<open>Properties\<close>

text \<open>C11. A valid fleet does not crash its agents: when the intervals are positive, the options those of
  \<open>main\<close>, and every device object that the API server hands out passes the validation of its
  type, then no schedule makes the agent process panic (exit code 2): not the poll loop, not the
  heartbeat loop, not the upgrade goroutine, in whatever order they run and whatever the file
  system, the firmware server and the network do. The process ends only by cancellation, by being
  killed, or with code 1 when the boot sequence reports an error.\<close>

theorem valid_agent_never_panics:
  assumes "sane_config (e_cfg E)" "\<forall>ev \<in> set evs. sane_event ev"
  shows "pr_exit (Run E evs (initial_agent w api)) \<noteq> Some 2"
proof -
  obtain r w' where b: "bootSequence E w = (r, w')" by force
  have "r \<noteq> Panicked" using calmP_bootSequence[of E] b unfolding calmP_def by (metis fst_conv)
  moreover have "sane_proc \<lparr>pr_agent = (initial_agent w api)\<lparr>ag_world := w', ag_up := True\<rparr>, pr_beat = BeatNew, pr_exit = None\<rparr>"
    by (simp add: sane_proc_def initial_agent_def)
  from schedule_sane[OF this assms(2,1)] have "pr_exit (fold (sched_step (e_cfg E)) evs \<lparr>pr_agent = (initial_agent w api)\<lparr>ag_world := w', ag_up := True\<rparr>,
      pr_beat = BeatNew, pr_exit = None\<rparr>) \<noteq> Some 2" by (simp add: sane_proc_def)
  ultimately show ?thesis using b by (cases r) (auto simp: Run_def initial_agent_def split: sum.split)
qed

theorem valid_agent_never_panics_witness:
  "let E = demo_env\<lparr>e_http := \<lambda>m u b s. (Reply 200 (Some (lean_device tally_fmt ''7'' (target_device crd_rollout crd_device))), s)\<rparr>
   in pr_exit (Run E [BeatStarts, PollTimer 0 E False, UpgradeMoves 0 E, UpgradeMoves 0 E, BeatTick E] (initial_agent demo_world ())) \<noteq> Some 2"
proof -
  let ?E = "demo_env\<lparr>e_http := \<lambda>m u b s. (Reply 200 (Some (lean_device tally_fmt ''7'' (target_device crd_rollout crd_device))), s)\<rparr>"
  have "valid_device (target_device crd_rollout crd_device)"
    using crd_objects_valid by (simp add: valid_device_def valid_rollout_def valid_EdgeDeviceSpec_def valid_FleetRolloutSpec_def target_device_def)
  then have "sane_env ?E" using lean_device_valid by (auto simp: sane_env_def Get_def demo_env_def)
  moreover have "sane_config (e_cfg ?E)" by (simp add: sane_config_def demo_env_def)
  ultimately show ?thesis unfolding Let_def by (intro valid_agent_never_panics) simp_all
qed

end
