(* ===== verification/Device_Lifecycle.thy ===== *)
theory Device_Lifecycle
  imports API_Validation
begin

text \<open>
  The credential of a device over the life of the device: the passes of the device controller
  (\<open>internal/controller/edgedevice_controller.go\<close>) against a cluster that other clients change at any
  time, also between two calls of one pass.

  The cluster holds the device object and its Secret. A call of the controller meets the cluster as
  it is at that moment; a write may also fail although it took effect (a lost reply). The API server
  refuses an update of an object that changed since it was read, keeps a deleted object as long as
  it has finalizers, and does not change the identity of an object. Users create, edit and delete
  the device, agents write its status, anybody may delete the Secret; nobody else removes the
  finalizer of this controller or creates the Secret. A pass may be cut off anywhere and the next
  one start anew.
\<close>

record cluster =
  cl_dev :: "EdgeDevice option"
  cl_secret :: "Secret option"
  cl_pass :: "event list"

definition key_of :: "EdgeDevice \<Rightarrow> key" where
  "key_of d = (om_Namespace (ed_Meta d), om_Name (ed_Meta d))"

text \<open>What the server stores for a written object: one that is being deleted goes with its last finalizer.\<close>

definition stored :: "EdgeDevice \<Rightarrow> EdgeDevice option" where
  "stored d = (if om_DeletionTimestamp (ed_Meta d) \<noteq> None \<and> om_Finalizers (ed_Meta d) = [] then None else Some d)"

text \<open>A write took effect: always when it returned no error, possibly when its reply got lost.\<close>

definition may_apply :: "api_error option \<Rightarrow> bool" where
  "may_apply e \<longleftrightarrow> e = None \<or> (\<exists>m. e = Some (ErrOther m))"

text \<open>The object that the current pass works on.\<close>

definition last_read :: "event list \<Rightarrow> EdgeDevice option" where
  "last_read cur = (case cur of GotDevice _ (Inr d) # _ \<Rightarrow> Some d | _ \<Rightarrow> None)"

definition secret_read :: "event list \<Rightarrow> Secret option" where
  "secret_read cur = (case cur of _ # GotSecret _ (Inr s) # _ \<Rightarrow> Some s | _ \<Rightarrow> None)"

text \<open>The calls of the controller, and what they do to the cluster.\<close>

inductive call_effect :: "cluster \<Rightarrow> event \<Rightarrow> EdgeDevice option \<Rightarrow> Secret option \<Rightarrow> bool" for c where
  get_device: "cl_dev c = Some d \<Longrightarrow> call_effect c (GotDevice k (Inr d)) (cl_dev c) (cl_secret c)"
| get_device_fails: "call_effect c (GotDevice k (Inl e)) (cl_dev c) (cl_secret c)"
| get_secret: "cl_secret c = Some s \<Longrightarrow> call_effect c (GotSecret k (Inr s)) (cl_dev c) (cl_secret c)"
| get_secret_fails: "e = ErrNotFound \<longrightarrow> cl_secret c = None \<Longrightarrow> call_effect c (GotSecret k (Inl e)) (cl_dev c) (cl_secret c)"
| update_device: "may_apply e \<Longrightarrow> cl_dev c \<noteq> None \<Longrightarrow> cl_dev c = last_read (cl_pass c) \<Longrightarrow> call_effect c (UpdatedDevice d e) (stored d) (cl_secret c)"
| update_status: "may_apply e \<Longrightarrow> cl_dev c \<noteq> None \<Longrightarrow> cl_dev c = last_read (cl_pass c) \<Longrightarrow> call_effect c (UpdatedDeviceStatus d e) (stored d) (cl_secret c)"
| create_secret: "may_apply e \<Longrightarrow> cl_secret c = None \<Longrightarrow> call_effect c (CreatedSecret s e) (cl_dev c) (Some s)"
| update_secret: "may_apply e \<Longrightarrow> cl_secret c \<noteq> None \<Longrightarrow> cl_secret c = secret_read (cl_pass c) \<Longrightarrow> call_effect c (UpdatedSecret s e) (cl_dev c) (Some s)"
| delete_secret: "may_apply e \<Longrightarrow> call_effect c (DeletedSecret k e) (cl_dev c) None"
| delete_gone: "cl_secret c = None \<Longrightarrow> call_effect c (DeletedSecret k (Some ErrNotFound)) (cl_dev c) None"
| refused: "e \<noteq> None \<Longrightarrow> ev \<in> {UpdatedDevice d e, UpdatedDeviceStatus d e, CreatedSecret s e, UpdatedSecret s e} \<or> ev = DeletedSecret k e \<and> e \<noteq> Some ErrNotFound
    \<Longrightarrow> call_effect c ev (cl_dev c) (cl_secret c)"

text \<open>The next call of a pass of \<open>Reconcile\<close> on \<open>req\<close> that has made the calls \<open>cur\<close>.\<close>

definition next_call :: "Libs \<Rightarrow> key \<Rightarrow> event list \<Rightarrow> event \<Rightarrow> bool" where
  "next_call L req cur ev \<longleftrightarrow> (\<exists>S r nows bytes hist es. snd (Reconcile S L r nows bytes req hist) = hist @ es \<and> prefix (cur @ [ev]) es)"

inductive cluster_step :: "Libs \<Rightarrow> key \<Rightarrow> cluster \<Rightarrow> cluster \<Rightarrow> bool" for L req where
  call: "next_call L req (cl_pass c) ev \<Longrightarrow> call_effect c ev d' s'
    \<Longrightarrow> cluster_step L req c \<lparr>cl_dev = d', cl_secret = s', cl_pass = cl_pass c @ [ev]\<rparr>"
| new_pass: "cluster_step L req c (c\<lparr>cl_pass := []\<rparr>)"
| user_creates: "cl_dev c = None \<Longrightarrow> key_of d = req \<Longrightarrow> om_DeletionTimestamp (ed_Meta d) = None \<Longrightarrow> cluster_step L req c (c\<lparr>cl_dev := Some d\<rparr>)"
| user_deletes: "cl_dev c = Some d \<Longrightarrow> om_DeletionTimestamp (ed_Meta d) = None
    \<Longrightarrow> cluster_step L req c (c\<lparr>cl_dev := stored (d\<lparr>ed_Meta := (ed_Meta d)\<lparr>om_DeletionTimestamp := Some t\<rparr>\<rparr>)\<rparr>)"
| others_edit: "cl_dev c = Some d \<Longrightarrow> key_of d' = key_of d \<Longrightarrow> om_UID (ed_Meta d') = om_UID (ed_Meta d)
    \<Longrightarrow> om_DeletionTimestamp (ed_Meta d') = om_DeletionTimestamp (ed_Meta d)
    \<Longrightarrow> (deviceFinalizer \<in> set (om_Finalizers (ed_Meta d)) \<longrightarrow> deviceFinalizer \<in> set (om_Finalizers (ed_Meta d')))
    \<Longrightarrow> cluster_step L req c (c\<lparr>cl_dev := stored d'\<rparr>)"
| secret_lost: "cluster_step L req c (c\<lparr>cl_secret := None\<rparr>)"

inductive_cases call_effectE: "call_effect c ev d s"
inductive_cases cluster_stepE: "cluster_step L req c c'"

text \<open>The helpers read the list of finalizers.\<close>

definition finalizer_members :: "Libs \<Rightarrow> bool" where
  "finalizer_members L \<longleftrightarrow> (\<forall>m f. lib_ContainsFinalizer L m f \<longleftrightarrow> f \<in> set (om_Finalizers m))"

abbreviation held :: "EdgeDevice \<Rightarrow> bool" where
  "held d \<equiv> deviceFinalizer \<in> set (om_Finalizers (ed_Meta d))"

text \<open>The Secret belongs to the device instance that exists, and that instance cannot go away by itself.\<close>

definition owned :: "cluster \<Rightarrow> bool" where
  "owned c \<longleftrightarrow> (\<forall>s. cl_secret c = Some s \<longrightarrow> (\<exists>d. cl_dev c = Some d \<and> held d \<and> annotation s credFingerprintKey = om_UID (ed_Meta d)))"

text \<open>What a pass knows of the cluster while it runs: the device it read with the finalizer is still there,
  until it writes the device; the Secret it deleted is gone.\<close>

fun writes_device :: "event \<Rightarrow> bool" where
  "writes_device (UpdatedDevice d e) = True"
| "writes_device _ = False"

fun revokes :: "event \<Rightarrow> bool" where
  "revokes (DeletedSecret k e) = (e = None \<or> e = Some ErrNotFound)"
| "revokes _ = False"

definition watched :: "event list \<Rightarrow> EdgeDevice option" where
  "watched cur = (case last_read cur of Some d \<Rightarrow> if held d \<and> \<not> list_ex writes_device cur then Some d else None | None \<Rightarrow> None)"

definition knows :: "cluster \<Rightarrow> bool" where
  "knows c \<longleftrightarrow>
     (\<forall>d. watched (cl_pass c) = Some d \<longrightarrow> (\<exists>d'. cl_dev c = Some d' \<and> held d' \<and> om_UID (ed_Meta d') = om_UID (ed_Meta d))) \<and>
     (list_ex revokes (cl_pass c) \<longrightarrow> cl_secret c = None)"

definition cluster_inv :: "key \<Rightarrow> cluster \<Rightarrow> bool" where
  "cluster_inv req c \<longleftrightarrow> owned c \<and> knows c \<and> (\<forall>d. cl_dev c = Some d \<longrightarrow> key_of d = req)"

text \<open>An undisturbed cluster: reads see it, writes succeed, and a pass changes it by the writes it makes.\<close>

definition cluster_server :: "cluster \<Rightarrow> Server" where
  "cluster_server c = \<lparr>on_GetDevice = (\<lambda>_ _. case cl_dev c of None \<Rightarrow> Inl ErrNotFound | Some d \<Rightarrow> Inr d),
     on_UpdateDevice = (\<lambda>_ _. None), on_UpdateDeviceStatus = (\<lambda>_ _. None),
     on_GetSecret = (\<lambda>_ _. case cl_secret c of None \<Rightarrow> Inl ErrNotFound | Some s \<Rightarrow> Inr s), on_CreateSecret = (\<lambda>_ _. None),
     on_UpdateSecret = (\<lambda>_ _. None), on_DeleteSecret = (\<lambda>_ _. if cl_secret c = None then Some ErrNotFound else None),
     on_GetRollout = (\<lambda>_ _. Inl ErrNotFound), on_ListDevices = (\<lambda>_ _ _. Inr []), on_ListRollouts = (\<lambda>_ _. Inr []),
     on_UpdateRolloutStatus = (\<lambda>_ _. None)\<rparr>"

fun apply_write :: "event \<Rightarrow> cluster \<Rightarrow> cluster" where
  "apply_write (UpdatedDevice d None) c = c\<lparr>cl_dev := stored d\<rparr>"
| "apply_write (UpdatedDeviceStatus d None) c = c\<lparr>cl_dev := stored d\<rparr>"
| "apply_write (CreatedSecret s None) c = c\<lparr>cl_secret := Some s\<rparr>"
| "apply_write (UpdatedSecret s None) c = c\<lparr>cl_secret := Some s\<rparr>"
| "apply_write (DeletedSecret k None) c = c\<lparr>cl_secret := None\<rparr>"
| "apply_write _ c = c"

definition pass :: "Libs \<Rightarrow> EdgeDeviceReconciler \<Rightarrow> key \<Rightarrow> string \<Rightarrow> (nat \<Rightarrow> int) \<Rightarrow> cluster \<Rightarrow> cluster" where
  "pass L r req bytes nows c = fold apply_write (snd (Reconcile (cluster_server c) L r nows bytes req [])) c"

definition same_freshness :: "EdgeDeviceReconciler \<Rightarrow> EdgeDevice \<Rightarrow> (nat \<Rightarrow> int) \<Rightarrow> (nat \<Rightarrow> int) \<Rightarrow> bool" where
  "same_freshness r d nows nows' \<longleftrightarrow> (\<forall>t. eds_LastHeartbeat (ed_Status d) = Some t \<longrightarrow> overdue r (nows 0) t = overdue r (nows' 0) t)"

text \<open>A cluster that the controller leaves alone: the live device is held, has its credential, and shows its phase.\<close>

definition converged :: "Libs \<Rightarrow> EdgeDeviceReconciler \<Rightarrow> (nat \<Rightarrow> int) \<Rightarrow> cluster \<Rightarrow> bool" where
  "converged L r nows c \<longleftrightarrow> (\<exists>d s. cl_dev c = Some d \<and> held d \<and> om_DeletionTimestamp (ed_Meta d) = None \<and> cl_secret c = Some s \<and>
     annotation s credFingerprintKey = om_UID (ed_Meta d) \<and> statusEqual L (ed_Status d) (fst (projectStatus L r nows d)))"

text \<open>A cluster with a device and no Secret, for the witnesses.\<close>

definition demo_cluster :: "EdgeDevice \<Rightarrow> cluster" where
  "demo_cluster d = \<lparr>cl_dev = Some d, cl_secret = None, cl_pass = []\<rparr>"

section \<open>Lemmas\<close>

lemma held_stored: "held d \<Longrightarrow> stored d = Some d"
  by (auto simp: stored_def)

lemma stored_Some: "stored d = Some d' \<Longrightarrow> d' = d"
  by (simp add: stored_def split: if_splits)

text \<open>Where a pass can be when it makes a call.\<close>

lemma next_call_cases:
  assumes "next_call L req cur ev"
  obtains (read) g where "cur = []" "ev = GotDevice req g"
  | (revoke) d e where "cur = [GotDevice req (Inr d)]" "lib_ContainsFinalizer L (ed_Meta d) deviceFinalizer" "ev = DeletedSecret (credential_of d) e"
  | (release) d e e' where "cur = [GotDevice req (Inr d), DeletedSecret (credential_of d) e]" "e = None \<or> e = Some ErrNotFound"
      "ev = UpdatedDevice (d\<lparr>ed_Meta := lib_RemoveFinalizer L (ed_Meta d) deviceFinalizer\<rparr>) e'"
  | (adopt) d e where "cur = [GotDevice req (Inr d)]" "ev = UpdatedDevice (d\<lparr>ed_Meta := lib_AddFinalizer L (ed_Meta d) deviceFinalizer\<rparr>) e"
  | (look) d g where "cur = [GotDevice req (Inr d)]" "ev = GotSecret (credential_of d) g"
  | (rotate) d s s' e where "cur = [GotDevice req (Inr d), GotSecret (credential_of d) (Inr s)]"
      "lib_ContainsFinalizer L (ed_Meta d) deviceFinalizer" "fresh_secret d s'" "ev = UpdatedSecret s' e"
  | (create) d s' e where "cur = [GotDevice req (Inr d), GotSecret (credential_of d) (Inl ErrNotFound)]"
      "lib_ContainsFinalizer L (ed_Meta d) deviceFinalizer" "fresh_secret d s'" "ev = CreatedSecret s' e"
  | (project) d es st e where "cur = GotDevice req (Inr d) # es" "secret_events d es" "ev = UpdatedDeviceStatus (d\<lparr>ed_Status := st\<rparr>) e"
proof -
  from assms obtain S r nows bytes hist es where "snd (Reconcile S L r nows bytes req hist) = hist @ es" and p: "prefix (cur @ [ev]) es"
    unfolding next_call_def by blast
  with Reconcile_events[of S L r nows bytes req hist] have "pass_events L r nows req es" by auto
  then show thesis
    using p that
    by cases (auto elim!: secret_events.cases simp: prefix_Cons append_eq_Cons_conv Cons_eq_append_conv secret_events_simps)
qed

lemma finalizer_meta:
  assumes "finalizers_only L"
  shows "om_UID (lib_AddFinalizer L m f) = om_UID m" "om_Name (lib_AddFinalizer L m f) = om_Name m" "om_Namespace (lib_AddFinalizer L m f) = om_Namespace m"
    "om_UID (lib_RemoveFinalizer L m f) = om_UID m" "om_Name (lib_RemoveFinalizer L m f) = om_Name m" "om_Namespace (lib_RemoveFinalizer L m f) = om_Namespace m"
    "om_DeletionTimestamp (lib_AddFinalizer L m f) = om_DeletionTimestamp m" "om_DeletionTimestamp (lib_RemoveFinalizer L m f) = om_DeletionTimestamp m"
  using assms[unfolded finalizers_only_def, THEN spec, THEN spec, of m f]
  by (metis K8sMeta.simps(1,2,3,7) K8sMeta.surjective K8sMeta.update_convs(6))+

text \<open>What other clients do keeps the finalizer and the identity of the device, so a pass still knows what it knew.\<close>

lemma inv_others:
  assumes "cluster_inv req c" "c' = c\<lparr>cl_dev := d', cl_secret := s'\<rparr>" "s' = cl_secret c \<or> s' = None"
    and "\<And>d. cl_dev c = Some d \<Longrightarrow> held d \<Longrightarrow> \<exists>d1. d' = Some d1 \<and> held d1 \<and> om_UID (ed_Meta d1) = om_UID (ed_Meta d)"
    and "\<And>d. d' = Some d \<Longrightarrow> key_of d = req"
  shows "cluster_inv req c'"
proof -
  have "owned c'" using assms(1-4) unfolding cluster_inv_def owned_def by fastforce
  moreover have "knows c'" using assms(1-4) unfolding cluster_inv_def knows_def by simp metis
  ultimately show ?thesis using assms(2,5) by (simp add: cluster_inv_def)
qed

lemma inv_new_pass: "cluster_inv req c \<Longrightarrow> cluster_inv req (c\<lparr>cl_pass := []\<rparr>)"
  by (simp add: cluster_inv_def owned_def knows_def watched_def last_read_def)

lemma last_read_append [simp]: "cur \<noteq> [] \<Longrightarrow> last_read (cur @ [ev]) = last_read cur"
  by (cases cur) (auto simp: last_read_def split: event.splits sum.splits)

lemma watched_append: "cur \<noteq> [] \<Longrightarrow> watched (cur @ [ev]) = (if writes_device ev then None else watched cur)"
  by (simp add: watched_def split: option.splits)

text \<open>The calls of a pass after its first, one group per kind.\<close>

lemma inv_call:
  assumes "cluster_inv req c" "cl_pass c \<noteq> []" "c' = \<lparr>cl_dev = cl_dev c, cl_secret = s', cl_pass = cl_pass c @ [ev]\<rparr>"
    and "\<not> writes_device ev \<or> s' = cl_secret c" "revokes ev \<or> list_ex revokes (cl_pass c) \<longrightarrow> s' = None"
    and "s' = cl_secret c \<or> s' = None \<or> (\<exists>s d. s' = Some s \<and> watched (cl_pass c) = Some d \<and> annotation s credFingerprintKey = om_UID (ed_Meta d))"
  shows "cluster_inv req c'"
proof -
  have "owned c'" using assms(1,3,6) unfolding cluster_inv_def owned_def knows_def by fastforce
  moreover have "knows c'" using assms(1-3,5) by (auto simp: cluster_inv_def knows_def watched_append split: if_splits)
  ultimately show ?thesis using assms(1,3) by (simp add: cluster_inv_def)
qed

lemma inv_writes:
  assumes "cluster_inv req c" "cl_pass c \<noteq> []" "c' = \<lparr>cl_dev = stored d, cl_secret = cl_secret c, cl_pass = cl_pass c @ [ev]\<rparr>"
    and "cl_dev c = Some d0" "key_of d = key_of d0" "om_UID (ed_Meta d) = om_UID (ed_Meta d0)" "\<not> revokes ev"
    and "held d0 \<longrightarrow> held d \<or> writes_device ev \<and> cl_secret c = None"
  shows "cluster_inv req c'"
proof -
  have k: "key_of d1 = req" if "stored d = Some d1" for d1 using assms(1,4,5) stored_Some[OF that] by (auto simp: cluster_inv_def)
  have o: "owned c'" using assms(1,3,4,6,8) held_stored[of d] unfolding cluster_inv_def owned_def by fastforce
  have "knows c'"
    using assms(1-4,6-8) held_stored[of d] by (auto simp: cluster_inv_def knows_def watched_append split: if_splits)
  with k o assms(3) show ?thesis by (simp add: cluster_inv_def)
qed

lemma held_lib: "finalizer_members L \<Longrightarrow> lib_ContainsFinalizer L (ed_Meta d) deviceFinalizer = held d"
  by (simp add: finalizer_members_def)

lemma fresh_annotation: "fresh_secret d s \<Longrightarrow> annotation s credFingerprintKey = om_UID (ed_Meta d)"
  by (auto simp: fresh_secret_def annotation_def)

lemma secret_events_quiet: "secret_events d es \<Longrightarrow> \<not> list_ex writes_device es \<and> \<not> list_ex revokes es"
  by (auto elim: secret_events.cases)

lemma watched_two:
  "held d \<Longrightarrow> \<not> writes_device ev \<Longrightarrow> watched [GotDevice k (Inr d), ev] = Some d"
  by (simp add: watched_def last_read_def)

lemma update_device_effect:
  "call_effect c ev d' s' \<Longrightarrow> ev = UpdatedDevice d e \<Longrightarrow>
     s' = cl_secret c \<and> (d' = cl_dev c \<or> d' = stored d \<and> cl_dev c \<noteq> None \<and> cl_dev c = last_read (cl_pass c))"
  by (auto elim!: call_effectE)

lemma update_status_effect:
  "call_effect c ev d' s' \<Longrightarrow> ev = UpdatedDeviceStatus d e \<Longrightarrow>
     s' = cl_secret c \<and> (d' = cl_dev c \<or> d' = stored d \<and> cl_dev c \<noteq> None \<and> cl_dev c = last_read (cl_pass c))"
  by (auto elim!: call_effectE)

lemma call_inv:
  assumes inv: "cluster_inv req c" and nc: "next_call L req (cl_pass c) ev" and eff: "call_effect c ev d' s'"
    and L: "finalizer_members L" "finalizer_laws L" "finalizers_only L"
  shows "cluster_inv req \<lparr>cl_dev = d', cl_secret = s', cl_pass = cl_pass c @ [ev]\<rparr>" (is "cluster_inv req ?c")
  using nc
proof (cases rule: next_call_cases)
  case (read g)
  with eff have u: "d' = cl_dev c" "s' = cl_secret c" and g: "\<And>d. g = Inr d \<Longrightarrow> cl_dev c = Some d" by (auto elim!: call_effectE)
  have "knows ?c" using g by (auto simp: u read knows_def watched_def last_read_def split: sum.splits if_splits)
  with inv show ?thesis by (simp add: u cluster_inv_def owned_def)
next
  case (revoke d e)
  from eff have "d' = cl_dev c" "s' = None \<or> s' = cl_secret c \<and> \<not> revokes ev" unfolding revoke(3) by (auto elim!: call_effectE)
  with revoke show ?thesis by (intro inv_call[OF inv]) auto
next
  case (release d e e')
  then have none: "cl_secret c = None" using inv by (auto simp: cluster_inv_def knows_def)
  let ?d = "d\<lparr>ed_Meta := lib_RemoveFinalizer L (ed_Meta d) deviceFinalizer\<rparr>"
  have "\<not> revokes ev" "writes_device ev" by (simp_all add: release)
  with update_device_effect[OF eff release(3)] release none show ?thesis
    by (auto simp: last_read_def key_of_def finalizer_meta[OF L(3)] intro: inv_call[OF inv] inv_writes[OF inv, where d = ?d and d0 = d])
next
  case (adopt d e)
  let ?d = "d\<lparr>ed_Meta := lib_AddFinalizer L (ed_Meta d) deviceFinalizer\<rparr>"
  have "held ?d" using L(1,2) by (simp add: finalizer_members_def finalizer_laws_def)
  moreover have "\<not> revokes ev" "writes_device ev" by (simp_all add: adopt)
  ultimately show ?thesis using update_device_effect[OF eff adopt(2)] adopt
    by (auto simp: last_read_def key_of_def finalizer_meta[OF L(3)] intro: inv_call[OF inv] inv_writes[OF inv, where d = ?d and d0 = d])
next
  case (look d g)
  from eff have "d' = cl_dev c" "s' = cl_secret c" unfolding look(2) by (auto elim!: call_effectE)
  with look show ?thesis by (intro inv_call[OF inv]) auto
next
  case (rotate d s s2 e)
  from eff have "d' = cl_dev c" "s' = cl_secret c \<or> s' = Some s2" unfolding rotate(4) by (auto elim!: call_effectE)
  with rotate held_lib[OF L(1)] show ?thesis by (intro inv_call[OF inv]) (auto simp: watched_two fresh_annotation)
next
  case (create d s2 e)
  from eff have "d' = cl_dev c" "s' = cl_secret c \<or> s' = Some s2" unfolding create(4) by (auto elim!: call_effectE)
  with create held_lib[OF L(1)] show ?thesis by (intro inv_call[OF inv]) (auto simp: watched_two fresh_annotation)
next
  case (project d es st e)
  have "\<not> list_ex revokes (cl_pass c)" "\<not> revokes ev" using secret_events_quiet[OF project(2)] by (simp_all add: project)
  with update_status_effect[OF eff project(3)] project show ?thesis
    by (auto simp: last_read_def key_of_def intro: inv_call[OF inv] inv_writes[OF inv, where d = "d\<lparr>ed_Status := st\<rparr>" and d0 = d])
qed

lemma cluster_step_inv:
  assumes "cluster_step L req c c'" "cluster_inv req c" "finalizer_members L" "finalizer_laws L" "finalizers_only L"
  shows "cluster_inv req c'"
  using assms(1)
proof cases
  case (call ev d' s')
  with call_inv[OF assms(2)] assms(3-5) show ?thesis by blast
next
  case new_pass
  with inv_new_pass[OF assms(2)] show ?thesis by simp
next
  case (user_creates d)
  then show ?thesis by (intro inv_others[OF assms(2), where d' = "Some d" and s' = "cl_secret c"]) auto
next
  case (user_deletes d t)
  have "key_of d = req" using assms(2) user_deletes(2) by (simp add: cluster_inv_def)
  with user_deletes show ?thesis
    by (intro inv_others[OF assms(2) _ disjI1[OF refl]]) (auto simp: stored_def key_of_def split: if_splits)
next
  case (others_edit d d')
  have "key_of d = req" using assms(2) others_edit(2) by (simp add: cluster_inv_def)
  with others_edit show ?thesis
    by (intro inv_others[OF assms(2) _ disjI1[OF refl]]) (auto simp: stored_def split: if_splits)
next
  case secret_lost
  then show ?thesis
    by (intro inv_others[OF assms(2), where d' = "cl_dev c" and s' = None]) (use assms(2) in \<open>auto simp: cluster_inv_def\<close>)
qed

subsection \<open>Undisturbed passes\<close>

lemmas pass_defs = pass_def cluster_server_def Reconcile_def client_defs bindK_def callK_def retK_def Let_def

lemma statusEqual_freshness:
  assumes "condition_laws L" "same_freshness r d nows nows'"
  shows "statusEqual L st (fst (projectStatus L r nows d)) = statusEqual L st (fst (projectStatus L r nows' d))"
  using assms by (cases "eds_LastHeartbeat (ed_Status d)")
    (auto simp: same_freshness_def overdue_def statusEqual_def projectStatus_def Let_def find_lib_set split: option.splits)

lemma projectStatus_own:
  "(ed_Status d)\<lparr>eds_Phase := eds_Phase (fst (projectStatus L r nows d)), eds_Conditions := eds_Conditions (fst (projectStatus L r nows d))\<rparr>
     = fst (projectStatus L r nows d)"
  by (auto simp: projectStatus_def Let_def split: option.splits)

lemma pass_adopts:
  assumes "cl_dev c = Some d" "om_DeletionTimestamp (ed_Meta d) = None" "\<not> held d" "finalizer_members L" "finalizers_only L"
  shows "pass L r req bytes nows c = c\<lparr>cl_dev := Some (d\<lparr>ed_Meta := lib_AddFinalizer L (ed_Meta d) deviceFinalizer\<rparr>)\<rparr>"
  using assms by (simp add: pass_defs held_lib stored_def finalizer_meta)

lemma pass_held:
  assumes d: "cl_dev c = Some d" "om_DeletionTimestamp (ed_Meta d) = None" "held d" and L: "finalizer_members L"
    and s: "\<forall>s. cl_secret c = Some s \<longrightarrow> se_Annotations s \<noteq> None"
  shows "\<exists>s. cl_secret (pass L r req bytes nows c) = Some s \<and> annotation s credFingerprintKey = om_UID (ed_Meta d)"
    and "cl_dev (pass L r req bytes nows c) = Some (d\<lparr>ed_Status :=
     (if statusEqual L (ed_Status d) (fst (projectStatus L r nows d)) then ed_Status d else fst (projectStatus L r nows d))\<rparr>)"
proof -
  have st: "stored (d\<lparr>ed_Status := x\<rparr>) = Some (d\<lparr>ed_Status := x\<rparr>)" for x using d(3) by (intro held_stored) simp
  note eqs = pass_defs ensureCredentialSecret_def held_lib[OF L] Let_def IgnoreAlreadyExists_def projectStatus_own split_beta st
  have "(\<exists>s. cl_secret (pass L r req bytes nows c) = Some s \<and> annotation s credFingerprintKey = om_UID (ed_Meta d)) \<and>
    cl_dev (pass L r req bytes nows c) = Some (d\<lparr>ed_Status :=
     (if statusEqual L (ed_Status d) (fst (projectStatus L r nows d)) then ed_Status d else fst (projectStatus L r nows d))\<rparr>)"
  proof (cases "cl_secret c")
    case None
    with d show ?thesis by (simp add: eqs annotation_def)
  next
    case (Some s0)
    with s obtain ann where a: "se_Annotations s0 = Some ann" by blast
    show ?thesis
    proof (cases "annotation s0 credFingerprintKey = om_UID (ed_Meta d)")
      case True
      with d Some show ?thesis by (simp add: eqs)
    next
      case False
      then have "annotation (s0\<lparr>se_Annotations := Some (ann(credFingerprintKey \<mapsto> om_UID (ed_Meta d))), se_Data := x\<rparr>) credFingerprintKey = om_UID (ed_Meta d)" for x
        by (simp add: annotation_def)
      with False d Some a show ?thesis by (simp add: eqs)
    qed
  qed
  then show "\<exists>s. cl_secret (pass L r req bytes nows c) = Some s \<and> annotation s credFingerprintKey = om_UID (ed_Meta d)"
    "cl_dev (pass L r req bytes nows c) = Some (d\<lparr>ed_Status :=
     (if statusEqual L (ed_Status d) (fst (projectStatus L r nows d)) then ed_Status d else fst (projectStatus L r nows d))\<rparr>)" by blast+
qed

text \<open>In a converged cluster a pass only reads.\<close>

lemma pass_converged:
  assumes "converged L r nows c" "finalizer_members L"
  shows "\<exists>d s. snd (Reconcile (cluster_server c) L r nows bytes req []) = [GotDevice req (Inr d), GotSecret (credential_of d) (Inr s)]"
    and "pass L r req bytes nows c = c"
proof -
  from assms(1) obtain d s where "cl_dev c = Some d" "held d" "om_DeletionTimestamp (ed_Meta d) = None" "cl_secret c = Some s"
    "annotation s credFingerprintKey = om_UID (ed_Meta d)" "statusEqual L (ed_Status d) (fst (projectStatus L r nows d))"
    unfolding converged_def by blast
  then have "snd (Reconcile (cluster_server c) L r nows bytes req []) = [GotDevice req (Inr d), GotSecret (credential_of d) (Inr s)]"
    by (simp add: pass_defs ensureCredentialSecret_def held_lib[OF assms(2)] credential_of_def split_beta)
  then show "\<exists>d s. snd (Reconcile (cluster_server c) L r nows bytes req []) = [GotDevice req (Inr d), GotSecret (credential_of d) (Inr s)]"
    "pass L r req bytes nows c = c" by (auto simp: pass_def)
qed

lemma held_converges:
  assumes d: "cl_dev c = Some d" "om_DeletionTimestamp (ed_Meta d) = None" "held d" and L: "finalizer_members L" "condition_laws L"
    and s: "\<forall>s. cl_secret c = Some s \<longrightarrow> se_Annotations s \<noteq> None" and f: "same_freshness r d nows nows'"
  shows "converged L r nows' (pass L r req bytes nows c)"
proof -
  let ?st = "if statusEqual L (ed_Status d) (fst (projectStatus L r nows d)) then ed_Status d else fst (projectStatus L r nows d)"
  have "statusEqual L ?st (fst (projectStatus L r nows' (d\<lparr>ed_Status := ?st\<rparr>)))"
  proof (cases "statusEqual L (ed_Status d) (fst (projectStatus L r nows d))")
    case True
    with statusEqual_freshness[OF L(2) f] show ?thesis by simp
  next
    case False
    with projectStatus_again[OF L(2) refl, of d r nows' nows] f show ?thesis by (simp add: same_freshness_def)
  qed
  with pass_held[OF d L(1) s, of r req bytes nows] d show ?thesis unfolding converged_def by fastforce
qed

lemma pass_creates:
  assumes "cl_dev c = Some d" "om_DeletionTimestamp (ed_Meta d) = None" "held d" "finalizer_members L" "cl_secret c = None"
  shows "\<exists>s es. snd (Reconcile (cluster_server c) L r nows bytes req []) =
    GotDevice req (Inr d) # GotSecret (credential_of d) (Inl ErrNotFound) # CreatedSecret s None # es"
  using assms by (simp add: pass_defs ensureCredentialSecret_def held_lib credential_of_def IgnoreAlreadyExists_def split_beta)

lemma dying_released:
  assumes "cl_dev c = Some d" "om_DeletionTimestamp (ed_Meta d) \<noteq> None" "set (om_Finalizers (ed_Meta d)) = {deviceFinalizer}"
    and L: "finalizer_members L" "finalizer_laws L" "finalizers_only L"
  shows "cl_dev (pass L r req bytes nows c) = None \<and> cl_secret (pass L r req bytes nows c) = None"
proof -
  have "g \<notin> set (om_Finalizers (lib_RemoveFinalizer L (ed_Meta d) deviceFinalizer))" for g
    using assms(3) L(1,2) by (simp add: finalizer_members_def finalizer_laws_def)
  then have "om_Finalizers (lib_RemoveFinalizer L (ed_Meta d) deviceFinalizer) = []" by (metis last_in_set)
  with assms show ?thesis
    by (simp add: pass_defs revokeCredential_def IgnoreNotFound_def held_lib stored_def finalizer_meta)
qed

lemma adopted_held: "finalizer_members L \<Longrightarrow> finalizer_laws L \<Longrightarrow> held (d\<lparr>ed_Meta := lib_AddFinalizer L (ed_Meta d) deviceFinalizer\<rparr>)"
  by (simp add: finalizer_members_def finalizer_laws_def)

lemma demo_libs_finalizers: "finalizer_members demo_libs" "finalizers_only demo_libs"
  by (simp_all add: finalizer_members_def finalizers_only_def demo_libs_def)

section \<open>Properties\<close>

text \<open>C4. No credential outlives its device: from a cluster without the Secret, when the reads of the controller
  are current and nobody else creates the Secret or removes the finalizer, whatever users, agents and
  other controllers do to the device between any two calls of the controller, whichever calls
  fail, lose their reply or are never made because the controller stops, at every moment an
  existing credential Secret bears the fingerprint of the device instance that exists at that
  moment, and this instance carries the finalizer. In particular a device that is deleted and
  recreated under the same name never meets the credential of its predecessor.\<close>

theorem no_orphan_credential:
  assumes "finalizer_members L" "finalizer_laws L" "finalizers_only L" "(cluster_step L req)\<^sup>*\<^sup>* c0 c"
    and "cl_secret c0 = None" "cl_pass c0 = []" "\<forall>d. cl_dev c0 = Some d \<longrightarrow> key_of d = req"
  shows "\<forall>s. cl_secret c = Some s \<longrightarrow> (\<exists>d. cl_dev c = Some d \<and> key_of d = req \<and> deviceFinalizer \<in> set (om_Finalizers (ed_Meta d)) \<and>
    annotation s credFingerprintKey = om_UID (ed_Meta d))"
proof -
  have "cluster_inv req c"
    using assms(4)
  proof induction
    case base
    show ?case using assms(5-7) by (simp add: cluster_inv_def owned_def knows_def watched_def last_read_def)
  next
    case (step c1 c2)
    then show ?case using cluster_step_inv assms(1-3) by blast
  qed
  then show ?thesis by (auto simp: cluster_inv_def owned_def)
qed

theorem no_orphan_credential_witness:
  "\<exists>s c d. (cluster_step demo_libs (''default'', ''dev-0''))\<^sup>*\<^sup>* (demo_cluster demo_device) c \<and> cl_secret c = Some s \<and> cl_dev c = Some d \<and>
     annotation s credFingerprintKey = om_UID (ed_Meta d)"
proof -
  let ?req = "(''default'', ''dev-0'')" and ?S = "cluster_server (demo_cluster demo_device)"
  obtain s es where es: "snd (Reconcile ?S demo_libs demo_reconciler (\<lambda>_. 9) ''r'' ?req []) =
      GotDevice ?req (Inr demo_device) # GotSecret (credential_of demo_device) (Inl ErrNotFound) # CreatedSecret s None # es"
    using pass_creates[of "demo_cluster demo_device" demo_device demo_libs] demo_libs_finalizers(1) by (force simp: demo_cluster_def demo_device_def)
  let ?c1 = "\<lparr>cl_dev = Some demo_device, cl_secret = None, cl_pass = [GotDevice ?req (Inr demo_device)]\<rparr>"
  let ?c2 = "?c1\<lparr>cl_pass := cl_pass ?c1 @ [GotSecret (credential_of demo_device) (Inl ErrNotFound)]\<rparr>"
  let ?c3 = "?c2\<lparr>cl_secret := Some s, cl_pass := cl_pass ?c2 @ [CreatedSecret s None]\<rparr>"
  have n: "next_call demo_libs ?req cur ev" if "prefix (cur @ [ev]) (GotDevice ?req (Inr demo_device) # GotSecret (credential_of demo_device) (Inl ErrNotFound) # CreatedSecret s None # es)" for cur ev
    unfolding next_call_def using es that by (metis append_Nil)
  have st: "cluster_step demo_libs ?req c1 \<lparr>cl_dev = d', cl_secret = s', cl_pass = cl_pass c1 @ [ev]\<rparr>"
    if "prefix (cl_pass c1 @ [ev]) (GotDevice ?req (Inr demo_device) # GotSecret (credential_of demo_device) (Inl ErrNotFound) # CreatedSecret s None # es)"
      "call_effect c1 ev d' s'" for c1 ev d' s' using cluster_step.call[OF n that(2)] that(1) by simp
  have "cluster_step demo_libs ?req (demo_cluster demo_device) ?c1"
    using st[of "demo_cluster demo_device", OF _ call_effect.get_device] by (simp add: demo_cluster_def)
  moreover have "cluster_step demo_libs ?req ?c1 ?c2" using st[of ?c1, OF _ call_effect.get_secret_fails] by simp
  moreover have "cluster_step demo_libs ?req ?c2 ?c3" using st[of ?c2, OF _ call_effect.create_secret[where e = None]] by (simp add: may_apply_def)
  ultimately have r: "(cluster_step demo_libs ?req)\<^sup>*\<^sup>* (demo_cluster demo_device) ?c3" by (meson r_into_rtranclp rtranclp_trans)
  have "\<exists>d. cl_dev ?c3 = Some d \<and> key_of d = ?req \<and> deviceFinalizer \<in> set (om_Finalizers (ed_Meta d)) \<and> annotation s credFingerprintKey = om_UID (ed_Meta d)"
    using no_orphan_credential[OF demo_libs_finalizers(1) demo_libs_laws(2) demo_libs_finalizers(2) r]
    by (simp add: demo_cluster_def key_of_def demo_device_def)
  with r show ?thesis by fastforce
qed

text \<open>C12. The controller converges: for a live device in a cluster that nobody disturbs and whose Secret, if
  there is one, has annotations (without them the pass panics), two passes are enough, whatever else
  the state it starts from: the device is held by the finalizer, has a credential
  with its fingerprint, and shows the phase that its heartbeat and reports call for; from then on
  a pass reads the two objects and writes nothing, as long as the freshness of the heartbeat does
  not change. A device that is being deleted and is held by this controller only is gone after
  one pass, and its credential with it.\<close>

theorem device_converges:
  assumes "finalizer_members L" "finalizer_laws L" "finalizers_only L" "condition_laws L" "cl_dev c = Some d"
    and "\<forall>s. cl_secret c = Some s \<longrightarrow> se_Annotations s \<noteq> None" "same_freshness r d nows1 nows2" "same_freshness r d nows1 nows3"
  shows "(om_DeletionTimestamp (ed_Meta d) = None \<longrightarrow>
      (let c2 = pass L r req bytes2 nows2 (pass L r req bytes1 nows1 c)
       in converged L r nows3 c2 \<and> pass L r req bytes3 nows3 c2 = c2 \<and>
          (\<exists>d2 s2. snd (Reconcile (cluster_server c2) L r nows3 bytes3 req []) = [GotDevice req (Inr d2), GotSecret (credential_of d2) (Inr s2)]))) \<and>
    (om_DeletionTimestamp (ed_Meta d) \<noteq> None \<and> set (om_Finalizers (ed_Meta d)) = {deviceFinalizer} \<longrightarrow>
      cl_dev (pass L r req bytes1 nows1 c) = None \<and> cl_secret (pass L r req bytes1 nows1 c) = None)"
proof -
  have "converged L r nows3 (pass L r req bytes2 nows2 (pass L r req bytes1 nows1 c))" if alive: "om_DeletionTimestamp (ed_Meta d) = None"
  proof (cases "held d")
    case True
    have "converged L r nows2 (pass L r req bytes1 nows1 c)" "converged L r nows3 (pass L r req bytes1 nows1 c)"
      using held_converges[OF assms(5) alive True] assms by blast+
    with pass_converged(2)[OF _ assms(1)] show ?thesis by simp
  next
    case False
    let ?d = "d\<lparr>ed_Meta := lib_AddFinalizer L (ed_Meta d) deviceFinalizer\<rparr>"
    have "same_freshness r ?d nows2 nows3" using assms(7,8) by (simp add: same_freshness_def)
    then show ?thesis unfolding pass_adopts[OF assms(5) alive False assms(1,3)]
      by (intro held_converges[where d = ?d]) (use assms alive adopted_held[of L d] in \<open>auto simp: finalizer_meta\<close>)
  qed
  with pass_converged[OF _ assms(1)] dying_released[OF assms(5)] assms(1-3) show ?thesis by (auto simp: Let_def)
qed

theorem device_converges_witness:
  "converged demo_libs demo_reconciler (\<lambda>_. 7)
     (pass demo_libs demo_reconciler (''default'', ''dev-0'') ''s'' (\<lambda>_. 6) (pass demo_libs demo_reconciler (''default'', ''dev-0'') ''r'' (\<lambda>_. 5)
       (demo_cluster (demo_device\<lparr>ed_Meta := (ed_Meta demo_device)\<lparr>om_Finalizers := []\<rparr>\<rparr>))))"
  using device_converges[OF demo_libs_finalizers(1) demo_libs_laws(2) demo_libs_finalizers(2) demo_libs_laws(1),
      of "demo_cluster (demo_device\<lparr>ed_Meta := (ed_Meta demo_device)\<lparr>om_Finalizers := []\<rparr>\<rparr>)" "demo_device\<lparr>ed_Meta := (ed_Meta demo_device)\<lparr>om_Finalizers := []\<rparr>\<rparr>"
        demo_reconciler "\<lambda>_. 5" "\<lambda>_. 6" "\<lambda>_. 7" "(''default'', ''dev-0'')" "''s''" "''r''"]
  by (simp add: Let_def demo_cluster_def demo_device_def same_freshness_def overdue_def timeout_of_def demo_reconciler_def time_Sub_def min_int64_def max_int64_def
      defaultHeartbeatTimeout_def second_def)

end
