(* ===== verification/Fleet_Radius.thy ===== *)
theory Fleet_Radius
  imports Rollout_Campaign Device_Lifecycle
begin

text \<open>
  The blast radius of a rollout over time. The passes of the rollout controller
  (\<open>internal/controller/fleetrollout_controller.go\<close>) run while agents report, the device controller
  projects phases, users edit, add and remove devices, also between two writes of one pass. A pass
  works on a listing that may come from a cache and may lag behind in any way; the server accepts a
  write only while the device is as the pass has read it; writes fail or lose their reply at will and
  a pass may stop anywhere.

  Devices get into flight in two ways: a pass targets them, or something else makes a device count as
  in flight that did not count before (a device that had gone dark reports again, an agent retries
  after a restart, a user sets the target by hand). The second kind is counted. Of the lag of the
  listings it is recorded how many devices in flight a listing failed to show as in flight, at most.
\<close>

record fleet_state =
  fl_devs :: "EdgeDevice list"
  fl_pass :: "(EdgeDevice list \<times> event list) option"
  fl_entered :: nat
  fl_hidden :: nat

abbreviation name_of :: "EdgeDevice \<Rightarrow> string" where
  "name_of d \<equiv> om_Name (ed_Meta d)"

text \<open>The next call of a pass of \<open>Rollout_Reconcile\<close> that has read \<open>items\<close> and made the calls \<open>us\<close> since.\<close>

definition next_write :: "Libs \<Rightarrow> key \<Rightarrow> FleetRollout \<Rightarrow> EdgeDevice list \<Rightarrow> event list \<Rightarrow> event \<Rightarrow> bool" where
  "next_write L req ro items us ev \<longleftrightarrow> (\<exists>S hist now ro' es. fr_Spec ro' = fr_Spec ro \<and> reads_fleet S hist req ro' items \<and>
     snd (Rollout_Reconcile S L now req hist) = hist @ [GotRollout req (Inr ro'),
        ListedDevices (om_Namespace (fr_Meta ro')) (fs_Selector (fr_Spec ro')) (Inr items)] @ es \<and> prefix (us @ [ev]) es)"

definition entering :: "Libs \<Rightarrow> FleetRollout \<Rightarrow> EdgeDevice \<Rightarrow> EdgeDevice \<Rightarrow> nat" where
  "entering L ro d d' = (if flying L ro d' \<and> \<not> flying L ro d then 1 else 0)"

text \<open>The devices in flight that a listing does not show as in flight.\<close>

definition hidden :: "Libs \<Rightarrow> FleetRollout \<Rightarrow> EdgeDevice list \<Rightarrow> EdgeDevice list \<Rightarrow> nat" where
  "hidden L ro items devs = length (filter (\<lambda>d. flying L ro d \<and> \<not> list_ex (\<lambda>x. name_of x = name_of d \<and> flying L ro x) items) devs)"

inductive fleet_step :: "Libs \<Rightarrow> key \<Rightarrow> FleetRollout \<Rightarrow> fleet_state \<Rightarrow> fleet_state \<Rightarrow> bool" for L req ro where
  pass_reads: "int (length items) < 2 ^ 31 \<Longrightarrow> distinct (map name_of items)
    \<Longrightarrow> fleet_step L req ro s (s\<lparr>fl_pass := Some (items, []), fl_hidden := max (fl_hidden s) (hidden L ro items (fl_devs s))\<rparr>)"
| pass_writes: "fl_pass s = Some (items, us) \<Longrightarrow> next_write L req ro items us (UpdatedDevice d e) \<Longrightarrow> may_apply e
    \<Longrightarrow> i < length (fl_devs s) \<Longrightarrow> fl_devs s ! i \<in> set items \<Longrightarrow> name_of (fl_devs s ! i) = name_of d
    \<Longrightarrow> fleet_step L req ro s (s\<lparr>fl_devs := (fl_devs s)[i := d], fl_pass := Some (items, us @ [UpdatedDevice d e])\<rparr>)"
| pass_refused: "fl_pass s = Some (items, us) \<Longrightarrow> next_write L req ro items us (UpdatedDevice d e) \<Longrightarrow> e \<noteq> None
    \<Longrightarrow> fleet_step L req ro s (s\<lparr>fl_pass := Some (items, us @ [UpdatedDevice d e])\<rparr>)"
| pass_over: "fleet_step L req ro s (s\<lparr>fl_pass := None\<rparr>)"
| device_changes: "i < length (fl_devs s) \<Longrightarrow> name_of d = name_of (fl_devs s ! i)
    \<Longrightarrow> fleet_step L req ro s (s\<lparr>fl_devs := (fl_devs s)[i := d], fl_entered := fl_entered s + entering L ro (fl_devs s ! i) d\<rparr>)"
| device_joins: "name_of d \<notin> name_of ` set (fl_devs s)
    \<Longrightarrow> fleet_step L req ro s (s\<lparr>fl_devs := fl_devs s @ [d], fl_entered := fl_entered s + (if flying L ro d then 1 else 0)\<rparr>)"
| device_leaves: "fl_devs s = xs @ d # ys \<Longrightarrow> fleet_step L req ro s (s\<lparr>fl_devs := xs @ ys\<rparr>)"

text \<open>How many devices the current pass may still bring into flight.\<close>

definition budget :: "Libs \<Rightarrow> FleetRollout \<Rightarrow> (EdgeDevice list \<times> event list) option \<Rightarrow> nat" where
  "budget L ro p = (case p of None \<Rightarrow> 0 | Some (items, us) \<Rightarrow>
     if rollout_phase L ro (fleet items) = RolloutProgressing then length (next_batch L ro (fleet items)) - length us else 0)"

definition fleet_inv :: "Libs \<Rightarrow> FleetRollout \<Rightarrow> int \<Rightarrow> fleet_state \<Rightarrow> bool" where
  "fleet_inv L ro F s \<longleftrightarrow> distinct (map name_of (fl_devs s)) \<and>
     (\<forall>items us. fl_pass s = Some (items, us) \<longrightarrow> distinct (map name_of items) \<and> int (length items) < 2 ^ 31) \<and>
     count (flying L ro) (fl_devs s) + int (budget L ro (fl_pass s)) \<le> max (fs_MaxUnavailable (fr_Spec ro)) F + int (fl_entered s) + int (fl_hidden s)"

text \<open>A rollout of two at a time that forgives one failure in two, a device it has targeted, and that device
  gone dark.\<close>

definition pair_rollout :: FleetRollout where
  "pair_rollout = demo_rollout\<lparr>fr_Spec := (fr_Spec demo_rollout)\<lparr>fs_MaxUnavailable := 2, fs_FailureThresholdPercent := 60\<rparr>\<rparr>"

definition hit_device :: "string \<Rightarrow> EdgeDevice" where
  "hit_device n = target_device pair_rollout (named_device n)"

definition silent_device :: EdgeDevice where
  "silent_device = (hit_device ''a'')\<lparr>ed_Status := (ed_Status demo_device)\<lparr>eds_Phase := PhaseDegraded\<rparr>\<rparr>"

section \<open>Lemmas\<close>

lemma same_spec_pass:
  assumes "fr_Spec ro' = fr_Spec ro"
  shows "rollout_phase L ro' = rollout_phase L ro" "next_batch L ro' = next_batch L ro" "target_device ro' = target_device ro"
proof -
  have "tally_step L ro' = tally_step L ro" by (intro ext) (simp add: tally_step_def assms)
  then have t: "tally_fleet L ro' = tally_fleet L ro" by (intro ext) (simp add: tally_fleet_def)
  show "rollout_phase L ro' = rollout_phase L ro" by (simp add: fun_eq_iff rollout_phase_def t breaker_tripped_def assms)
  show "next_batch L ro' = next_batch L ro" by (simp add: fun_eq_iff next_batch_def t assms same_spec[OF assms])
  show "target_device ro' = target_device ro" by (rule same_spec[OF assms])
qed

lemma update_events_nth:
  assumes "update_events f ds us r" "prefix (cur @ [UpdatedDevice d e]) us"
  shows "length cur < length ds \<and> d = f (ds ! length cur)"
  using assms
proof (induction ds arbitrary: us cur)
  case (Cons x ds)
  then obtain e' es' where es: "us = UpdatedDevice (f x) e' # es'" "if e' \<noteq> None then es' = [] \<and> r = e' else update_events f ds es' r" by auto
  show ?case
  proof (cases cur)
    case Nil
    with Cons.prems(2) es show ?thesis by simp
  next
    case (Cons c cur')
    with Cons.prems(2) es have p: "prefix (cur' @ [UpdatedDevice d e]) es'" by simp
    with es(2) have "update_events f ds es' r" by (auto split: if_splits)
    from Cons.IH[OF this p] Cons show ?thesis by simp
  qed
qed simp

lemma prefix_snoc_append: "prefix (us @ [x]) (vs @ ss) \<Longrightarrow> x \<notin> set ss \<Longrightarrow> prefix (us @ [x]) vs"
proof (induction vs arbitrary: us)
  case Nil
  then show ?case using set_mono_prefix[of "us @ [x]" ss] by simp
next
  case (Cons v vs)
  then show ?case by (cases us) simp_all
qed

lemma next_write_cases:
  assumes "next_write L req ro items us (UpdatedDevice d e)" "int (length items) < 2 ^ 31"
    and M: "0 \<le> fs_MaxUnavailable (fr_Spec ro)" "fs_MaxUnavailable (fr_Spec ro) < 2 ^ 31"
  shows "(\<exists>x \<in> set items. d = pause_device x) \<and> rollout_phase L ro (fleet items) = RolloutPaused \<or>
    (\<exists>x \<in> set items. d = target_device ro x) \<and> rollout_phase L ro (fleet items) = RolloutProgressing \<and> length us < length (next_batch L ro (fleet items))"
proof -
  from assms(1) obtain S hist now ro' es where sp: "fr_Spec ro' = fr_Spec ro" and rd: "reads_fleet S hist req ro' items"
    and run: "snd (Rollout_Reconcile S L now req hist) = hist @ [GotRollout req (Inr ro'),
        ListedDevices (om_Namespace (fr_Meta ro')) (fs_Selector (fr_Spec ro')) (Inr items)] @ es" and p: "prefix (us @ [UpdatedDevice d e]) es"
    unfolding next_write_def by blast
  from rollout_pass[OF rd refl assms(2), of L now] M sp run obtain vs r ss where es: "es = vs @ ss" and
    vs: "pass_updates L ro' (fleet items) vs r" and ss: "if r = None then status_events L ro' (pass_status L now ro' (fleet items) vs) ss else ss = []" by auto
  have "UpdatedDevice d e \<notin> set ss" using ss by (auto simp: status_events_def split: if_splits)
  with p es have pv: "prefix (us @ [UpdatedDevice d e]) vs" by (auto intro: prefix_snoc_append)
  show ?thesis
  proof (cases "rollout_phase L ro (fleet items) = RolloutPaused")
    case True
    with vs have "update_events pause_device (filter unpaused (fleet items)) vs r" by (simp add: pass_updates_def same_spec_pass[OF sp])
    from update_events_nth[OF this pv] nth_mem[of "length us" "filter unpaused (fleet items)"] True show ?thesis by auto
  next
    case False
    have "rollout_phase L ro (fleet items) \<noteq> RolloutComplete" using vs pv by (auto simp: pass_updates_def same_spec_pass[OF sp])
    with False have pr: "rollout_phase L ro (fleet items) = RolloutProgressing" by (auto simp: rollout_phase_def split: if_splits)
    with vs have "update_events (target_device ro) (next_batch L ro (fleet items)) vs r" by (simp add: pass_updates_def same_spec_pass[OF sp])
    from update_events_nth[OF this pv] nth_mem[of "length us" "next_batch L ro (fleet items)"] pr show ?thesis
      by (auto simp: next_batch_def dest!: in_set_takeD)
  qed
qed

lemma count_append [simp]: "count P (xs @ ys) = count P xs + count P ys"
  by (simp add: count_def)

lemma count_update:
  assumes "i < length xs"
  shows "count P (xs[i := x]) = count P xs - (if P (xs ! i) then 1 else 0) + (if P x then 1 else 0)"
  by (subst (2) id_take_nth_drop[OF assms]) (simp add: upd_conv_take_nth_drop[OF assms])

lemma budget_read:
  assumes "int (length items) < 2 ^ 31"
  shows "int (budget L ro (Some (items, []))) \<le> max 0 (fs_MaxUnavailable (fr_Spec ro) - count (flying L ro) items)"
  using assms by (simp add: budget_def next_batch_def in_flight_eq flying_def[abs_def] min_def max_def) linarith

text \<open>A device in flight is in flight in the listing too, or hidden from it.\<close>

lemma flying_seen_or_hidden:
  assumes "distinct (map name_of devs)"
  shows "count (flying L ro) devs \<le> count (flying L ro) items + int (hidden L ro items devs)"
proof -
  let ?shown = "\<lambda>d. list_ex (\<lambda>x. name_of x = name_of d \<and> flying L ro x) items"
  let ?A = "filter (\<lambda>d. flying L ro d \<and> ?shown d) devs"
  have "distinct (map name_of ?A)" using assms by (simp add: distinct_map_filter)
  then have "length ?A = card (set (map name_of ?A))" using distinct_card[of "map name_of ?A"] by simp
  also have "\<dots> \<le> card (set (map name_of (filter (flying L ro) items)))" by (rule card_mono) (auto simp: list_ex_iff intro!: rev_image_eqI[OF _ sym])
  also have "\<dots> \<le> length (filter (flying L ro) items)" using card_length[of "map name_of (filter (flying L ro) items)"] by simp
  finally have "int (length ?A) \<le> count (flying L ro) items" by (simp add: count_def)
  then show ?thesis using count_split[of "flying L ro" devs ?shown] by (simp add: count_def hidden_def)
qed

lemma current_listing_hides_nothing: "hidden L ro devs devs = 0"
  by (auto simp: hidden_def filter_empty_conv list_ex_iff)

lemma flying_budget:
  assumes "int (length items) < 2 ^ 31" "distinct (map name_of devs)"
  shows "count (flying L ro) devs + int (budget L ro (Some (items, []))) \<le>
    max (count (flying L ro) devs) (fs_MaxUnavailable (fr_Spec ro) + int (hidden L ro items devs))"
  using budget_read[OF assms(1), of L ro] flying_seen_or_hidden[OF assms(2), of L ro items] by linarith

lemma read_device_unique:
  assumes "distinct (map name_of items)" "x \<in> set items" "y \<in> set items" "name_of x = name_of y"
  shows "x = y"
  using assms by (auto simp: distinct_map dest: inj_onD)

text \<open>One write of a pass: the object written is the device as it is, paused or targeted, and a targeted
  device comes off the budget of the pass.\<close>

lemma write_keeps_count:
  assumes "next_write L req ro items us (UpdatedDevice d e)" "distinct (map name_of items)" "int (length items) < 2 ^ 31"
    and "0 \<le> fs_MaxUnavailable (fr_Spec ro)" "fs_MaxUnavailable (fr_Spec ro) < 2 ^ 31"
    and "x \<in> set items" "name_of x = name_of d"
  shows "(if flying L ro d then 1 else 0) + int (budget L ro (Some (items, us @ [UpdatedDevice d e])))
    \<le> (if flying L ro x then 1 else 0) + int (budget L ro (Some (items, us)))"
  using next_write_cases[OF assms(1,3-5)]
proof (elim disjE conjE bexE)
  fix y assume y: "y \<in> set items" "d = pause_device y" and p: "rollout_phase L ro (fleet items) = RolloutPaused"
  with read_device_unique[OF assms(2,6) y(1)] assms(7) have "y = x" by simp
  with y p show ?thesis by (simp add: budget_def)
qed (auto simp: budget_def)

lemma budget_write: "budget L ro (Some (items, us @ [ev])) \<le> budget L ro (Some (items, us))"
  by (auto simp: budget_def)

lemma fleet_step_inv:
  assumes "fleet_step L req ro s s'" "fleet_inv L ro F s"
    and M: "0 \<le> fs_MaxUnavailable (fr_Spec ro)" "fs_MaxUnavailable (fr_Spec ro) < 2 ^ 31"
  shows "fleet_inv L ro F s'"
  using assms(1)
proof cases
  case (pass_reads items)
  with assms(2) flying_budget[of items "fl_devs s" L ro] show ?thesis by (auto simp: fleet_inv_def budget_def)
next
  case (pass_writes items us d e i)
  with assms(2) have D: "distinct (map name_of items)" "int (length items) < 2 ^ 31" by (auto simp: fleet_inv_def)
  have "map name_of ((fl_devs s)[i := d]) = map name_of (fl_devs s)" using pass_writes by (simp add: map_update list_update_same_conv)
  with pass_writes assms(2) D write_keeps_count[OF pass_writes(3) D M pass_writes(6,7)] show ?thesis
    by (auto simp: fleet_inv_def count_update split: if_splits)
next
  case (pass_refused items us d e)
  with assms(2) budget_write[of L ro items us "UpdatedDevice d e"] show ?thesis by (auto simp: fleet_inv_def)
next
  case pass_over
  with assms(2) show ?thesis by (auto simp: fleet_inv_def budget_def)
next
  case (device_changes i d)
  have "map name_of ((fl_devs s)[i := d]) = map name_of (fl_devs s)" using device_changes by (simp add: map_update list_update_same_conv)
  with device_changes assms(2) show ?thesis by (auto simp: fleet_inv_def entering_def count_update)
next
  case (device_joins d)
  with assms(2) show ?thesis by (auto simp: fleet_inv_def)
next
  case (device_leaves xs d ys)
  with assms(2) show ?thesis by (auto simp: fleet_inv_def split: if_splits)
qed

text \<open>C5. The blast radius of a rollout at every moment, not only at the end of a pass: whatever agents,
  other controllers and users do while passes run, whichever writes fail, lose their reply or meet a
  device that changed since it was read, wherever passes stop, and however far the listings lag behind
  the fleet, the devices in flight exceed the configured maximum (or the number in flight at the start,
  when that is larger) by at most the number of times somebody other than the rollout controller put a
  device in flight, plus the largest number of devices in flight that a listing failed to show as such.
  A current listing hides none.\<close>

theorem fleet_blast_radius:
  assumes "(fleet_step L req ro)\<^sup>*\<^sup>* \<lparr>fl_devs = items, fl_pass = None, fl_entered = 0, fl_hidden = 0\<rparr> s"
    and "0 \<le> fs_MaxUnavailable (fr_Spec ro)" "fs_MaxUnavailable (fr_Spec ro) < 2 ^ 31" "distinct (map name_of items)"
  shows "count (flying L ro) (fl_devs s) \<le>
    max (fs_MaxUnavailable (fr_Spec ro)) (count (flying L ro) items) + int (fl_entered s) + int (fl_hidden s)"
proof -
  have "fleet_inv L ro (count (flying L ro) items) s"
    using assms(1)
  proof (induction rule: rtranclp_induct)
    case base
    then show ?case using assms(4) by (simp add: fleet_inv_def budget_def)
  next
    case (step s s')
    then show ?case using fleet_step_inv[OF _ _ assms(2,3)] by blast
  qed
  then show ?thesis by (auto simp: fleet_inv_def)
qed

lemma first_target:
  assumes "rollout_phase L ro (fleet items) = RolloutProgressing" "next_batch L ro (fleet items) = x # xs"
    and sz: "int (length items) < 2 ^ 31" "0 \<le> fs_MaxUnavailable (fr_Spec ro)" "fs_MaxUnavailable (fr_Spec ro) < 2 ^ 31"
  shows "next_write L req ro items [] (UpdatedDevice (target_device ro x) None)"
proof -
  let ?S = "fleet_server ro items"
  have S: "\<forall>h d. on_UpdateDevice ?S h d = None" by (simp add: fleet_server_def demo_server_def)
  from rollout_pass[OF fleet_server_reads refl sz, where hist = "[]" and req = req and L = L and now = 0] obtain us e ss where
    run: "snd (Rollout_Reconcile ?S L 0 req []) = [GotRollout req (Inr ro),
        ListedDevices (om_Namespace (fr_Meta ro)) (fs_Selector (fr_Spec ro)) (Inr items)] @ us @ ss"
    and us: "pass_updates L ro (fleet items) us e" by auto
  from us assms(1,2) obtain e' us' where us': "us = UpdatedDevice (target_device ro x) e' # us'" by (auto simp: pass_updates_def)
  from accepts_Rollout_Reconcile[OF S] obtain es where "snd (Rollout_Reconcile ?S L 0 req []) = [] @ es"
    "\<forall>d e. UpdatedDevice d e \<in> set es \<longrightarrow> e = None" unfolding accepts_def by blast
  with run us' have "e' = None" by auto
  with run us' show ?thesis unfolding next_write_def
    by (intro exI[of _ ?S] exI[of _ "[]"] exI[of _ 0] exI[of _ ro] exI[of _ "us @ ss"]) (simp add: fleet_server_reads)
qed

lemmas pair_defs = pair_rollout_def hit_device_def silent_device_def demo_rollout_def named_device_def demo_device_def target_device_def demo_libs_def

text \<open>The bound is tight: a device that goes dark frees its place, a third one is targeted, and the first comes back.\<close>

lemma pair_run:
  "(fleet_step demo_libs (''default'', ''ro'') pair_rollout)\<^sup>*\<^sup>*
     \<lparr>fl_devs = [hit_device ''a'', hit_device ''b'', named_device ''c''], fl_pass = None, fl_entered = 0, fl_hidden = 0\<rparr>
     \<lparr>fl_devs = [hit_device ''a'', hit_device ''b'', hit_device ''c''], fl_pass = None, fl_entered = 1, fl_hidden = 0\<rparr>"
proof -
  let ?step = "fleet_step demo_libs (''default'', ''ro'') pair_rollout"
  let ?items = "[silent_device, hit_device ''b'', named_device ''c'']"
  have f: "fleet ?items = ?items" by (simp add: fleet_def pair_defs)
  have t: "tally_fleet demo_libs pair_rollout ?items = \<lparr>ta_targeted = 2, ta_succeeded = 0, ta_failed = 1, ta_untargeted = [named_device ''c'']\<rparr>"
    by (simp add: tally_fleet_eq reached_def pending_def untouched_def deviceFailed_def reports_failure_def pair_defs)
  have ph: "rollout_phase demo_libs pair_rollout (fleet ?items) = RolloutProgressing"
    by (simp add: f rollout_phase_def t breaker_tripped_def) (simp add: pair_defs)
  have nb: "next_batch demo_libs pair_rollout (fleet ?items) = [named_device ''c'']"
    by (simp add: f next_batch_def t in_flight_def untouched_def reached_def pending_def unpaused_def) (simp add: pair_defs)
  have mx: "fs_MaxUnavailable (fr_Spec pair_rollout) = 2" by (simp add: pair_rollout_def)
  have w: "next_write demo_libs (''default'', ''ro'') pair_rollout ?items [] (UpdatedDevice (hit_device ''c'') None)"
    using first_target[OF ph nb, of "(''default'', ''ro'')"] mx by (simp add: hit_device_def[of "''c''"])
  have fly: "flying demo_libs pair_rollout (hit_device ''a'')" "\<not> flying demo_libs pair_rollout silent_device"
    by (simp_all add: flying_def pending_def reached_def deviceFailed_def reports_failure_def pair_defs)
  have s1: "?step \<lparr>fl_devs = [hit_device ''a'', hit_device ''b'', named_device ''c''], fl_pass = None, fl_entered = 0, fl_hidden = 0\<rparr>
      \<lparr>fl_devs = ?items, fl_pass = None, fl_entered = 0, fl_hidden = 0\<rparr>"
    using device_changes[of 0 "\<lparr>fl_devs = [hit_device ''a'', hit_device ''b'', named_device ''c''], fl_pass = None, fl_entered = 0, fl_hidden = 0\<rparr>" silent_device demo_libs "(''default'', ''ro'')" pair_rollout] fly
    by (simp add: entering_def silent_device_def)
  have s2: "?step \<lparr>fl_devs = ?items, fl_pass = None, fl_entered = 0, fl_hidden = 0\<rparr> \<lparr>fl_devs = ?items, fl_pass = Some (?items, []), fl_entered = 0, fl_hidden = 0\<rparr>"
    using pass_reads[of ?items demo_libs "(''default'', ''ro'')" pair_rollout "\<lparr>fl_devs = ?items, fl_pass = None, fl_entered = 0, fl_hidden = 0\<rparr>"]
    by (simp add: current_listing_hides_nothing) (simp add: pair_defs)
  have s3: "?step \<lparr>fl_devs = ?items, fl_pass = Some (?items, []), fl_entered = 0, fl_hidden = 0\<rparr>
      \<lparr>fl_devs = [silent_device, hit_device ''b'', hit_device ''c''], fl_pass = Some (?items, [UpdatedDevice (hit_device ''c'') None]), fl_entered = 0, fl_hidden = 0\<rparr>"
    using pass_writes[of "\<lparr>fl_devs = ?items, fl_pass = Some (?items, []), fl_entered = 0, fl_hidden = 0\<rparr>", OF _ w, of 2]
    by (simp add: may_apply_def) (simp add: hit_device_def target_device_def)
  have s4: "?step \<lparr>fl_devs = [silent_device, hit_device ''b'', hit_device ''c''], fl_pass = Some (?items, [UpdatedDevice (hit_device ''c'') None]), fl_entered = 0, fl_hidden = 0\<rparr> \<lparr>fl_devs = [silent_device, hit_device ''b'', hit_device ''c''], fl_pass = None, fl_entered = 0, fl_hidden = 0\<rparr>"
    using pass_over[of demo_libs "(''default'', ''ro'')" pair_rollout
        "\<lparr>fl_devs = [silent_device, hit_device ''b'', hit_device ''c''], fl_pass = Some (?items, [UpdatedDevice (hit_device ''c'') None]), fl_entered = 0, fl_hidden = 0\<rparr>"] by simp
  have s5: "?step \<lparr>fl_devs = [silent_device, hit_device ''b'', hit_device ''c''], fl_pass = None, fl_entered = 0, fl_hidden = 0\<rparr> \<lparr>fl_devs = [hit_device ''a'', hit_device ''b'', hit_device ''c''], fl_pass = None, fl_entered = 1, fl_hidden = 0\<rparr>"
    using device_changes[of 0 "\<lparr>fl_devs = [silent_device, hit_device ''b'', hit_device ''c''], fl_pass = None, fl_entered = 0, fl_hidden = 0\<rparr>" "hit_device ''a''" demo_libs "(''default'', ''ro'')" pair_rollout] fly
    by (simp add: entering_def silent_device_def)
  show ?thesis
    by (intro rtranclp.rtrancl_into_rtrancl[where r = ?step, OF _ s5] rtranclp.rtrancl_into_rtrancl[where r = ?step, OF _ s4]
        rtranclp.rtrancl_into_rtrancl[where r = ?step, OF _ s3] rtranclp.rtrancl_into_rtrancl[where r = ?step, OF _ s2] r_into_rtranclp[where r = ?step, OF s1])
qed

text \<open>A listing that lags: a device joins while a pass targets another one, and the next pass is shown the new
  device but not what the first pass wrote. It targets the new one beyond the maximum.\<close>

lemma lag_run:
  "(fleet_step demo_libs (''default'', ''ro'') demo_rollout)\<^sup>*\<^sup>*
     \<lparr>fl_devs = [named_device ''b''], fl_pass = None, fl_entered = 0, fl_hidden = 0\<rparr>
     \<lparr>fl_devs = [target_device demo_rollout (named_device ''b''), target_device demo_rollout (named_device ''a'')],
      fl_pass = Some ([named_device ''b'', named_device ''a''], [UpdatedDevice (target_device demo_rollout (named_device ''a'')) None]), fl_entered = 0, fl_hidden = 1\<rparr>"
proof -
  let ?step = "fleet_step demo_libs (''default'', ''ro'') demo_rollout"
  let ?a = "named_device ''a''" and ?b = "named_device ''b''" and ?st = "\<lambda>ds p n. \<lparr>fl_devs = ds, fl_pass = p, fl_entered = 0, fl_hidden = n\<rparr>"
  let ?a' = "target_device demo_rollout ?a" and ?b' = "target_device demo_rollout ?b"
  note ds = untouched_def reached_def pending_def unpaused_def demo_rollout_def named_device_def demo_device_def
  have un: "untouched demo_rollout ?a" "untouched demo_rollout ?b" "unpaused ?a" "unpaused ?b" by (simp_all add: ds)
  have t: "tally_fleet demo_libs demo_rollout [?b] = \<lparr>ta_targeted = 0, ta_succeeded = 0, ta_failed = 0, ta_untargeted = [?b]\<rparr>"
    "tally_fleet demo_libs demo_rollout [?a, ?b] = \<lparr>ta_targeted = 0, ta_succeeded = 0, ta_failed = 0, ta_untargeted = [?a, ?b]\<rparr>"
    using un by (simp_all add: tally_fleet_eq untouched_def)
  have f: "fleet [?b] = [?b]" "fleet [?b, ?a] = [?a, ?b]" by (simp_all add: fleet_def named_device_def)
  have mx: "fs_MaxUnavailable (fr_Spec demo_rollout) = 1" by (simp add: demo_rollout_def)
  have w: "next_write demo_libs (''default'', ''ro'') demo_rollout [?b] [] (UpdatedDevice ?b' None)"
    "next_write demo_libs (''default'', ''ro'') demo_rollout [?b, ?a] [] (UpdatedDevice ?a' None)"
    by (rule first_target[where xs = "[]"], simp_all add: f rollout_phase_def next_batch_def t un mx breaker_tripped_def in_flight_def)+
  have fly: "\<not> flying demo_libs demo_rollout ?a" "\<not> flying demo_libs demo_rollout ?b" using un by (auto simp: flying_def untouched_def)
  have fly': "flying demo_libs demo_rollout ?b'" by (simp add: flying_def deviceFailed_def reports_failure_def ds target_device_def demo_libs_def)
  have nm: "name_of ?a = ''a''" "name_of ?b = ''b''" "name_of ?a' = ''a''" "name_of ?b' = ''b''" by (simp_all add: named_device_def target_device_def)
  have s1: "?step (?st [?b] None 0) (?st [?b] (Some ([?b], [])) 0)"
    using pass_reads[of "[?b]" demo_libs "(''default'', ''ro'')" demo_rollout "?st [?b] None 0"] by (simp add: current_listing_hides_nothing)
  have s2: "?step (?st [?b] (Some ([?b], [])) 0) (?st [?b, ?a] (Some ([?b], [])) 0)"
    using device_joins[of ?a "?st [?b] (Some ([?b], [])) 0" demo_libs "(''default'', ''ro'')" demo_rollout] by (simp add: nm fly)
  have s3: "?step (?st [?b, ?a] (Some ([?b], [])) 0) (?st [?b', ?a] (Some ([?b], [UpdatedDevice ?b' None])) 0)"
    using pass_writes[of "?st [?b, ?a] (Some ([?b], [])) 0", OF _ w(1), of 0] by (simp add: may_apply_def nm)
  have s4: "?step (?st [?b', ?a] (Some ([?b], [UpdatedDevice ?b' None])) 0) (?st [?b', ?a] (Some ([?b, ?a], [])) 1)"
    using pass_reads[of "[?b, ?a]" demo_libs "(''default'', ''ro'')" demo_rollout "?st [?b', ?a] (Some ([?b], [UpdatedDevice ?b' None])) 0"]
    by (simp add: hidden_def nm fly fly')
  have s5: "?step (?st [?b', ?a] (Some ([?b, ?a], [])) 1) (?st [?b', ?a'] (Some ([?b, ?a], [UpdatedDevice ?a' None])) 1)"
    using pass_writes[of "?st [?b', ?a] (Some ([?b, ?a], [])) 1", OF _ w(2), of 1] by (simp add: may_apply_def nm)
  show ?thesis
    by (intro rtranclp.rtrancl_into_rtrancl[where r = ?step, OF _ s5] rtranclp.rtrancl_into_rtrancl[where r = ?step, OF _ s4]
        rtranclp.rtrancl_into_rtrancl[where r = ?step, OF _ s3] rtranclp.rtrancl_into_rtrancl[where r = ?step, OF _ s2] r_into_rtranclp[where r = ?step, OF s1])
qed

theorem fleet_blast_radius_witness:
  "count (flying demo_libs pair_rollout) [hit_device ''a'', hit_device ''b'', hit_device ''c''] \<le>
     max 2 (count (flying demo_libs pair_rollout) [hit_device ''a'', hit_device ''b'', named_device ''c'']) + 1 \<and>
   count (flying demo_libs pair_rollout) [hit_device ''a'', hit_device ''b'', hit_device ''c''] = 3 \<and>
   count (flying demo_libs pair_rollout) [hit_device ''a'', hit_device ''b'', named_device ''c''] = 2 \<and>
   count (flying demo_libs demo_rollout) [target_device demo_rollout (named_device ''b''), target_device demo_rollout (named_device ''a'')] \<le>
     max 1 (count (flying demo_libs demo_rollout) [named_device ''b'']) + 1"
proof -
  have "count (flying demo_libs pair_rollout) [hit_device ''a'', hit_device ''b'', hit_device ''c''] = 3"
    "count (flying demo_libs pair_rollout) [hit_device ''a'', hit_device ''b'', named_device ''c''] = 2"
    by (simp_all add: flying_def pending_def reached_def deviceFailed_def reports_failure_def pair_defs)
  moreover have "fs_MaxUnavailable (fr_Spec demo_rollout) = 1" "fs_MaxUnavailable (fr_Spec pair_rollout) = 2" by (simp_all add: pair_rollout_def demo_rollout_def)
  moreover have "distinct (map name_of [hit_device ''a'', hit_device ''b'', named_device ''c''])" by (simp add: pair_defs)
  ultimately show ?thesis using fleet_blast_radius[OF pair_run] fleet_blast_radius[OF lag_run] by (simp del: count_simps)
qed

end
