(* ===== verification/Test_Utils.thy ===== *)
theory Test_Utils
  imports Kubeconfig "HOL-Library.State_Monad"
begin

text \<open>
  The helpers of the end-to-end tests (\<open>test/utils/utils.go\<close>): running commands in the directory of the
  project, installing and removing cert-manager, loading an image into kind, and uncommenting code in
  a file. The machine the tests run on is an argument: it chooses the result of every call from all
  that has happened before. \<open>UncommentCode\<close> works on the file store of \<open>Go_OS\<close>. The lemmas show where
  commands run, that the search for cert-manager is a search in the output, and what uncommenting
  does to a file.
\<close>

section \<open>Definitions\<close>

subsection \<open>Packages strings and bufio\<close>

text \<open>The first occurrence of \<open>sub\<close>, or -1.\<close>

fun find_sub :: "string \<Rightarrow> string \<Rightarrow> nat option" where
  "find_sub [] sub = (if sub = [] then Some 0 else None)"
| "find_sub (c # cs) sub = (if HasPrefix (c # cs) sub then Some 0 else map_option Suc (find_sub cs sub))"

definition Index :: "string \<Rightarrow> string \<Rightarrow> int" where
  "Index s sub = (case find_sub s sub of None \<Rightarrow> -1 | Some i \<Rightarrow> int i)"

definition Contains :: "string \<Rightarrow> string \<Rightarrow> bool" where
  "Contains s sub \<longleftrightarrow> Index s sub \<ge> 0"

text \<open>\<open>strings.ReplaceAll\<close>, for a pattern that is not empty.\<close>

function ReplaceAll :: "string \<Rightarrow> string \<Rightarrow> string \<Rightarrow> string" where
  "ReplaceAll [] old new = []"
| "ReplaceAll (c # cs) old new =
     (if old \<noteq> [] \<and> HasPrefix (c # cs) old then new @ ReplaceAll (drop (length old) (c # cs)) old new else c # ReplaceAll cs old new)"
  by pat_completeness auto
termination by (relation "measure (\<lambda>(s, _). length s)") (auto simp: neq_Nil_conv)

fun Join :: "string list \<Rightarrow> string \<Rightarrow> string" where
  "Join [] sep = []"
| "Join [s] sep = s"
| "Join (s # ss) sep = s @ sep @ Join ss sep"

text \<open>\<open>fmt.Sprintf\<close> on a template with one verb \<open>%s\<close>.\<close>

fun Sprintf_s :: "string \<Rightarrow> string \<Rightarrow> string" where
  "Sprintf_s (c # d # cs) v = (if c = CHR ''%'' \<and> d = CHR ''s'' then v @ cs else c # Sprintf_s (d # cs) v)"
| "Sprintf_s cs v = cs"

text \<open>One \<open>Scan\<close> of a \<open>bufio.Scanner\<close> with its default split function, on the bytes it has not consumed: the
  token and the bytes after it. A line that does not fit into 64 KiB ends the scan, as the end of the
  input does.\<close>

definition MaxScanTokenSize :: nat where "MaxScanTokenSize = 64 * 1024"

definition dropCR :: "string \<Rightarrow> string" where
  "dropCR l = (if l \<noteq> [] \<and> last l = CHR 0x0D then butlast l else l)"

definition Scan :: "string \<Rightarrow> (string \<times> string) option" where
  "Scan data = (let raw = takeWhile (\<lambda>c. c \<noteq> CHR 0x0A) data in
     if data = [] \<or> length raw \<ge> MaxScanTokenSize then None else Some (dropCR raw, drop (Suc (length raw)) data))"

subsection \<open>The machine\<close>

datatype shell_event =
    GotWd string "go_error option"
  | ChangedDir string "go_error option"
  | Executed string "string list" "string list" string "go_error option"
  | Wrote string

type_synonym shell = "shell_event list"

record Host =
  on_Getwd :: "shell \<Rightarrow> string \<times> go_error option"
  on_Chdir :: "shell \<Rightarrow> string \<Rightarrow> go_error option"
  on_Exec :: "shell \<Rightarrow> string \<Rightarrow> string list \<Rightarrow> string list \<Rightarrow> string \<times> go_error option"
  h_Environ :: "string list"
  h_quote :: "string \<Rightarrow> string"
  h_text :: "go_error \<Rightarrow> string"

definition ask :: "(shell \<Rightarrow> 'a) \<Rightarrow> ('a \<Rightarrow> shell_event) \<Rightarrow> (shell, 'a) state" where
  "ask f ev = State (\<lambda>h. (f h, h @ [ev (f h)]))"

definition os_Getwd :: "Host \<Rightarrow> (shell, string \<times> go_error option) state" where
  "os_Getwd H = ask (on_Getwd H) (\<lambda>(wd, e). GotWd wd e)"

definition os_Chdir :: "Host \<Rightarrow> string \<Rightarrow> (shell, go_error option) state" where
  "os_Chdir H dir = ask (\<lambda>h. on_Chdir H h dir) (ChangedDir dir)"

definition CombinedOutput :: "Host \<Rightarrow> string \<Rightarrow> string list \<Rightarrow> string list \<Rightarrow> (shell, string \<times> go_error option) state" where
  "CombinedOutput H dir env args = ask (\<lambda>h. on_Exec H h dir env args) (\<lambda>(out, e). Executed dir env args out e)"

definition GinkgoWrite :: "string \<Rightarrow> (shell, unit) state" where
  "GinkgoWrite s = ask (\<lambda>_. ()) (\<lambda>_. Wrote s)"

text \<open>\<open>os.LookupEnv\<close> on a name without an equals sign.\<close>

definition LookupEnv :: "Host \<Rightarrow> string \<Rightarrow> string option" where
  "LookupEnv H k = map_option (drop (Suc (length k))) (List.find (\<lambda>s. HasPrefix s (k @ ''='')) (h_Environ H))"

subsection \<open>The helpers\<close>

definition certmanagerVersion :: string where "certmanagerVersion = ''v1.20.2''"

definition certmanagerURLTmpl :: string where
  "certmanagerURLTmpl = ''https://github.com/cert-manager/cert-manager/releases/download/%s/cert-manager.yaml''"

definition defaultKindBinary :: string where "defaultKindBinary = ''kind''"

definition defaultKindCluster :: string where "defaultKindCluster = ''kind''"

definition warnError :: "Host \<Rightarrow> go_error \<Rightarrow> (shell, unit) state" where
  "warnError H err = GinkgoWrite (''warning: '' @ h_text H err @ [CHR 0x0A])"

definition GetProjectDir :: "Host \<Rightarrow> (shell, string \<times> go_error option) state" where
  "GetProjectDir H = do {
     r \<leftarrow> os_Getwd H;
     State_Monad.return (case r of
       (wd, Some err) \<Rightarrow> (wd, Some (Wrapped ''failed to get current working directory'' (Some err)))
     | (wd, None) \<Rightarrow> (ReplaceAll wd ''/test/e2e'' [], None)) }"

text \<open>\<open>Run\<close> on a command given by its arguments, the first of which is the program.\<close>

definition utils_Run :: "Host \<Rightarrow> string list \<Rightarrow> (shell, string \<times> go_error option) state" where
  "utils_Run H args = do {
     r \<leftarrow> GetProjectDir H;
     let dir = fst r;
     chdirErr \<leftarrow> os_Chdir H dir;
     _ \<leftarrow> (case chdirErr of None \<Rightarrow> State_Monad.return () | Some e \<Rightarrow> GinkgoWrite (''chdir dir: '' @ h_quote H (h_text H e) @ [CHR 0x0A]));
     let env = h_Environ H @ [''GO111MODULE=on''];
     let command = Join args '' '';
     _ \<leftarrow> GinkgoWrite (''running: '' @ h_quote H command @ [CHR 0x0A]);
     r \<leftarrow> CombinedOutput H dir env args;
     State_Monad.return (case r of
       (output, Some err) \<Rightarrow> (output, Some (Wrapped (h_quote H command @ '' failed with error '' @ h_quote H output) (Some err)))
     | (output, None) \<Rightarrow> (output, None)) }"

text \<open>A command whose failure is only logged.\<close>

definition run_or_warn :: "Host \<Rightarrow> string list \<Rightarrow> (shell, unit) state" where
  "run_or_warn H args = do { r \<leftarrow> utils_Run H args; (case snd r of None \<Rightarrow> State_Monad.return () | Some err \<Rightarrow> warnError H err) }"

definition kubeSystemLeases :: "string list" where
  "kubeSystemLeases = [''cert-manager-cainjector-leader-election'', ''cert-manager-controller'']"

definition delete_lease :: "string \<Rightarrow> string list" where
  "delete_lease lease = [''kubectl'', ''delete'', ''lease'', lease, ''-n'', ''kube-system'', ''--ignore-not-found'', ''--force'', ''--grace-period=0'']"

definition UninstallCertManager :: "Host \<Rightarrow> (shell, unit) state" where
  "UninstallCertManager H = do {
     _ \<leftarrow> run_or_warn H [''kubectl'', ''delete'', ''-f'', Sprintf_s certmanagerURLTmpl certmanagerVersion];
     _ \<leftarrow> State_Monad.traverse_list (\<lambda>lease. run_or_warn H (delete_lease lease)) kubeSystemLeases;
     State_Monad.return () }"

definition InstallCertManager :: "Host \<Rightarrow> (shell, go_error option) state" where
  "InstallCertManager H = do {
     r \<leftarrow> utils_Run H [''kubectl'', ''apply'', ''-f'', Sprintf_s certmanagerURLTmpl certmanagerVersion];
     (case snd r of
        Some err \<Rightarrow> State_Monad.return (Some err)
      | None \<Rightarrow> do {
          r \<leftarrow> utils_Run H [''kubectl'', ''wait'', ''deployment.apps/cert-manager-webhook'', ''--for'', ''condition=Available'',
            ''--namespace'', ''cert-manager'', ''--timeout'', ''5m''];
          State_Monad.return (snd r) }) }"

definition GetNonEmptyLines :: "string \<Rightarrow> string list" where
  "GetNonEmptyLines output = filter (\<lambda>element. element \<noteq> []) (Split CHR 0x0A output)"

definition certManagerCRDs :: "string list" where
  "certManagerCRDs = [''certificates.cert-manager.io'', ''issuers.cert-manager.io'', ''clusterissuers.cert-manager.io'',
     ''certificaterequests.cert-manager.io'', ''orders.acme.cert-manager.io'', ''challenges.acme.cert-manager.io'']"

definition IsCertManagerCRDsInstalled :: "Host \<Rightarrow> (shell, bool) state" where
  "IsCertManagerCRDsInstalled H = do {
     r \<leftarrow> utils_Run H [''kubectl'', ''get'', ''crds''];
     State_Monad.return (case r of
       (output, Some err) \<Rightarrow> False
     | (output, None) \<Rightarrow> list_ex (\<lambda>crd. list_ex (\<lambda>line. Contains line crd) (GetNonEmptyLines output)) certManagerCRDs) }"

definition LoadImageToKindClusterWithName :: "Host \<Rightarrow> string \<Rightarrow> (shell, go_error option) state" where
  "LoadImageToKindClusterWithName H name = do {
     let cluster = (case LookupEnv H ''KIND_CLUSTER'' of Some v \<Rightarrow> v | None \<Rightarrow> defaultKindCluster);
     let kindOptions = [''load'', ''docker-image'', name, ''--name'', cluster];
     let kindBinary = (case LookupEnv H ''KIND'' of Some v \<Rightarrow> v | None \<Rightarrow> defaultKindBinary);
     r \<leftarrow> utils_Run H (kindBinary # kindOptions);
     State_Monad.return (snd r) }"

text \<open>The loop of \<open>UncommentCode\<close> from a scanned token on. A \<open>bytes.Buffer\<close> does not fail a write.\<close>

function uncomment_loop :: "string \<Rightarrow> string \<Rightarrow> string \<Rightarrow> string \<Rightarrow> string" where
  "uncomment_loop pfx tok rest out =
     (let out = out @ TrimPrefix tok pfx in
      case Scan rest of None \<Rightarrow> out | Some (tok', rest') \<Rightarrow> uncomment_loop pfx tok' rest' (out @ [CHR 0x0A]))"
  by pat_completeness auto
termination by (relation "measure (\<lambda>(_, _, rest, _). length rest)") (auto simp: Scan_def Let_def split: if_splits)

text \<open>\<open>resolve\<close> is the file that a name denotes, \<open>q\<close> the verb \<open>%q\<close>.\<close>

definition UncommentCode :: "(string \<Rightarrow> string) \<Rightarrow> (string \<Rightarrow> path) \<Rightarrow> string \<Rightarrow> string \<Rightarrow> string \<Rightarrow> go_error option prog" where
  "UncommentCode q resolve filename target pfx =
     bindp (os_ReadFile (resolve filename)) (\<lambda>r. case r of
       Inl err \<Rightarrow> retp (Some (Wrapped (''failed to read file '' @ q filename) (Some err)))
     | Inr content \<Rightarrow>
         (let idx = Index content target in
          if idx < 0 then retp (Some (Message (''unable to find the code '' @ q target @ '' to be uncommented'')))
          else (case Scan target of
            None \<Rightarrow> retp None
          | Some (tok, rest) \<Rightarrow>
              bindp (os_WriteFile (resolve filename)
                  (uncomment_loop pfx tok rest (take (nat idx) content) @ drop (nat idx + length target) content)) (\<lambda>r. case r of
                Inl err \<Rightarrow> retp (Some (Wrapped (''failed to write file '' @ q filename) (Some err)))
              | Inr _ \<Rightarrow> retp None))))"

declare uncomment_loop.simps [simp del]

text \<open>The working directory after the calls of \<open>h\<close>, for a machine on which it can be read and changed.\<close>

fun cwd :: "string \<Rightarrow> shell \<Rightarrow> string" where
  "cwd start [] = start"
| "cwd start (ChangedDir d None # h) = cwd d h"
| "cwd start (_ # h) = cwd start h"

definition tracks_dir :: "Host \<Rightarrow> string \<Rightarrow> bool" where
  "tracks_dir H start \<longleftrightarrow> (\<forall>h. on_Getwd H h = (cwd start h, None)) \<and> (\<forall>h d. d \<noteq> [] \<longrightarrow> on_Chdir H h d = None)"

fun executed :: "shell \<Rightarrow> (string \<times> string list) list" where
  "executed [] = []"
| "executed (Executed dir env args out e # h) = (dir, args) # executed h"
| "executed (_ # h) = executed h"

text \<open>A line that a scanner returns as it is.\<close>

definition plain_line :: "string \<Rightarrow> bool" where
  "plain_line l \<longleftrightarrow> CHR 0x0A \<notin> set l \<and> dropCR l = l \<and> length l < MaxScanTokenSize"

section \<open>Lemmas\<close>

subsection \<open>Searching\<close>

lemma HasPrefix_iff: "HasPrefix s p \<longleftrightarrow> prefix p s"
  unfolding HasPrefix_def prefix_def by (metis append_eq_conv_conj append_take_drop_id)

lemma find_sub_Some: "find_sub s sub = Some i \<Longrightarrow> \<exists>post. s = take i s @ sub @ post \<and> i \<le> length s"
  by (induction s sub arbitrary: i rule: find_sub.induct) (auto simp: HasPrefix_iff prefix_def split: if_splits)

lemma find_sub_first:
  assumes "\<And>pre' post'. pre @ sub @ post = pre' @ sub @ post' \<Longrightarrow> length pre \<le> length pre'"
  shows "find_sub (pre @ sub @ post) sub = Some (length pre)"
  using assms
proof (induction pre)
  case Nil
  then show ?case by (cases "sub @ post") (auto simp: HasPrefix_iff prefix_def dest: sym)
next
  case (Cons c pre)
  have "\<not> HasPrefix (c # pre @ sub @ post) sub" using Cons.prems[of "[]"] by (auto simp: HasPrefix_iff prefix_def)
  moreover have "find_sub (pre @ sub @ post) sub = Some (length pre)"
    by (rule Cons.IH) (use Cons.prems[of "c # _"] in simp)
  ultimately show ?case by simp
qed

lemma Contains_iff: "Contains s sub \<longleftrightarrow> sublist sub s"
proof -
  have "(\<exists>i. find_sub s sub = Some i) \<longleftrightarrow> sublist sub s"
    by (induction s sub rule: find_sub.induct) (auto simp: HasPrefix_iff sublist_Cons_right)
  then show ?thesis by (auto simp: Contains_def Index_def split: option.splits)
qed

text \<open>A text without line breaks lies in the output exactly when it lies in a line of it.\<close>

lemma sublist_Split:
  assumes "sep \<notin> set sub" "sub \<noteq> []"
  shows "sublist sub s \<longleftrightarrow> (\<exists>l \<in> set (Split sep s). sublist sub l)"
proof (induction s)
  case (Cons c s)
  obtain w ws where sp: "Split sep s = w # ws" using Split_nonempty[of sep s] by (cases "Split sep s") auto
  have pw: "prefix sub s \<longleftrightarrow> prefix sub w" if "sep \<notin> set sub" for sub
    using that sp
  proof (induction s arbitrary: sub w ws)
    case (Cons d s)
    then show ?case using Split_nonempty[of sep s] by (cases sub) (auto split: if_splits list.splits)
  qed auto
  show ?case
  proof (cases "c = sep")
    case True
    then have "\<not> prefix sub (c # s)" using assms by (cases sub) auto
    with True Cons assms show ?thesis by (auto simp: sublist_Cons_right)
  next
    case False
    have "prefix sub (c # s) \<longleftrightarrow> prefix sub (c # w)" using assms pw[of "tl sub"] by (cases sub) auto
    with False Cons sp show ?thesis by (auto simp: sublist_Cons_right)
  qed
qed (use assms in auto)

subsection \<open>Commands\<close>

lemma run_state_ask [simp]: "run_state (ask f ev) h = (f h, h @ [ev (f h)])"
  by (simp add: ask_def)

lemma executed_append [simp]: "executed (h @ h') = executed h @ executed h'"
  by (induction h rule: executed.induct) simp_all

lemma cwd_append [simp]: "cwd start (h @ h') = cwd (cwd start h) h'"
  by (induction start h rule: cwd.induct) simp_all

text \<open>The suffix of the test directory has no overlap with itself, so it is found where it was appended.\<close>

lemma overlap:
  assumes "prefix p (r @ p)"
  shows "length p \<le> length r \<Longrightarrow> prefix p r" "length r \<le> length p \<Longrightarrow> drop (length r) p = take (length p - length r) p"
proof -
  from assms obtain zs where "r @ p = p @ zs" by (auto simp: prefix_def)
  then have "take (length p) (r @ p) = take (length p) (p @ zs)" by (rule arg_cong)
  then have tk: "p = take (length p) r @ take (length p - length r) p" by simp
  show "prefix p r" if "length p \<le> length r" using tk that take_is_prefix[of "length p" r] by simp
  show "drop (length r) p = take (length p - length r) p" if "length r \<le> length p"
    using arg_cong[OF tk, of "drop (length r)"] that by simp
qed

lemma no_overlap:
  assumes "\<not> sublist ''/test/e2e'' root" "prefix ''/test/e2e'' (root @ ''/test/e2e'')"
  shows "root = []"
proof (rule ccontr)
  assume ne: "root \<noteq> []"
  have "\<not> 9 \<le> length root" using overlap(1)[OF assms(2)] assms(1) prefix_imp_sublist by auto
  moreover have "1 \<le> length root" using ne by (cases root) auto
  ultimately have k: "length root \<in> {1, 2, 3, 4, 5, 6, 7, 8}" unfolding insert_iff empty_iff by presburger
  then have "drop (length root) ''/test/e2e'' = take (9 - length root) ''/test/e2e''" using overlap(2)[OF assms(2)] by auto
  with k show False by (elim insertE emptyE) simp_all
qed

lemma ReplaceAll_none: "\<not> sublist old s \<Longrightarrow> ReplaceAll s old new = s"
  by (induction s) (auto simp: HasPrefix_iff sublist_Cons_right)

lemma ReplaceAll_suffix: "\<not> sublist ''/test/e2e'' root \<Longrightarrow> ReplaceAll (root @ ''/test/e2e'') ''/test/e2e'' [] = root"
proof (induction root)
  case Nil
  then show ?case by (simp add: HasPrefix_def)
next
  case (Cons c root)
  then have "\<not> HasPrefix (c # root @ ''/test/e2e'') ''/test/e2e''" using no_overlap[of "c # root"] unfolding HasPrefix_iff append_Cons by blast
  moreover have "\<not> sublist ''/test/e2e'' root" using Cons.prems by (auto simp: sublist_Cons_right)
  ultimately show ?case unfolding append_Cons ReplaceAll.simps using Cons.IH by (simp only: simp_thms if_False)
qed

lemma utils_Run_dir:
  assumes "tracks_dir H start" "ReplaceAll (cwd start h) ''/test/e2e'' [] = root" "root \<noteq> []"
  shows "\<exists>es. snd (run_state (utils_Run H args) h) = h @ es \<and> executed es = [(root, args)] \<and> cwd start (h @ es) = root"
  using assms
  by (simp add: utils_Run_def GetProjectDir_def os_Getwd_def os_Chdir_def CombinedOutput_def GinkgoWrite_def tracks_dir_def Let_def split: prod.splits)

text \<open>All commands run in the root of the project, in their order, also when the tests start below it.\<close>

lemma commands_in_project_dir:
  assumes "tracks_dir H start" "start = root \<or> start = root @ ''/test/e2e''" "\<not> sublist ''/test/e2e'' root" "root \<noteq> []"
  shows "executed (snd (run_state (State_Monad.traverse_list (utils_Run H) cmds) [])) = map (Pair root) cmds"
proof -
  have "\<exists>es. snd (run_state (State_Monad.traverse_list (utils_Run H) cmds) h) = h @ es \<and> executed es = map (Pair root) cmds"
    if "cwd start h = root \<or> cwd start h = root @ ''/test/e2e''" for h
    using that
  proof (induction cmds arbitrary: h)
    case (Cons args cmds)
    then have "ReplaceAll (cwd start h) ''/test/e2e'' [] = root" using assms(3) ReplaceAll_none ReplaceAll_suffix by metis
    then obtain es where es: "snd (run_state (utils_Run H args) h) = h @ es" "executed es = [(root, args)]" "cwd start (h @ es) = root"
      using utils_Run_dir[OF assms(1) _ assms(4)] by blast
    with Cons.IH[of "h @ es"] obtain es' where "snd (run_state (State_Monad.traverse_list (utils_Run H) cmds) (h @ es)) = (h @ es) @ es'"
      "executed es' = map (Pair root) cmds" by auto
    with es show ?case by (intro exI[of _ "es @ es'"]) (auto split: prod.splits)
  qed simp
  from this[of "[]"] assms(2) show ?thesis by auto
qed

lemma utils_Run_runs: "\<exists>es dir. snd (run_state (utils_Run H args) h) = h @ es \<and> executed es = [(dir, args)]"
  by (simp add: utils_Run_def GetProjectDir_def os_Getwd_def os_Chdir_def CombinedOutput_def GinkgoWrite_def Let_def split: prod.splits option.splits)

text \<open>The cleanup makes all its attempts, whichever of them fail; the installation waits only for what was applied.\<close>

lemma run_or_warn_runs: "\<exists>es dir. snd (run_state (run_or_warn H args) h) = h @ es \<and> executed es = [(dir, args)]"
proof -
  obtain r es dir where "run_state (utils_Run H args) h = (r, h @ es)" "executed es = [(dir, args)]"
    using utils_Run_runs[of H args h] by (metis prod.collapse)
  then show ?thesis by (auto simp: run_or_warn_def warnError_def GinkgoWrite_def split: option.splits)
qed

lemma attempts:
  "\<exists>es. snd (run_state (State_Monad.traverse_list (\<lambda>x. run_or_warn H (f x)) xs) h) = h @ es \<and> map snd (executed es) = map f xs"
proof (induction xs arbitrary: h)
  case (Cons x xs)
  obtain es dir where es: "snd (run_state (run_or_warn H (f x)) h) = h @ es" "executed es = [(dir, f x)]" using run_or_warn_runs by blast
  obtain es' where "snd (run_state (State_Monad.traverse_list (\<lambda>x. run_or_warn H (f x)) xs) (h @ es)) = (h @ es) @ es'"
    "map snd (executed es') = map f xs" using Cons.IH by blast
  with es show ?case by (intro exI[of _ "es @ es'"]) (auto split: prod.splits)
qed simp

lemma Uninstall_attempts:
  "map snd (executed (snd (run_state (UninstallCertManager H) []))) =
     [''kubectl'', ''delete'', ''-f'', Sprintf_s certmanagerURLTmpl certmanagerVersion] # map delete_lease kubeSystemLeases"
proof -
  let ?u = "[''kubectl'', ''delete'', ''-f'', Sprintf_s certmanagerURLTmpl certmanagerVersion]"
  obtain es dir where es: "snd (run_state (run_or_warn H ?u) []) = es" "executed es = [(dir, ?u)]" using run_or_warn_runs[of H ?u "[]"] by auto
  with attempts[of H delete_lease kubeSystemLeases es] show ?thesis
    by (auto simp: UninstallCertManager_def simp del: traverse_list.simps split: prod.splits)
qed

text \<open>cert-manager counts as installed exactly when the command succeeds and its output contains one of the names.\<close>

lemma CRDs_installed_iff:
  assumes "run_state (utils_Run H [''kubectl'', ''get'', ''crds'']) h = ((output, err), h')"
  shows "fst (run_state (IsCertManagerCRDsInstalled H) h) \<longleftrightarrow> err = None \<and> (\<exists>crd \<in> set certManagerCRDs. sublist crd output)"
proof -
  have "(\<exists>l \<in> set (GetNonEmptyLines output). sublist crd l) \<longleftrightarrow> sublist crd output" if "crd \<in> set certManagerCRDs" for crd
  proof -
    have "CHR 0x0A \<notin> set crd" "crd \<noteq> []" using that by (auto simp: certManagerCRDs_def)
    then show ?thesis by (auto simp: sublist_Split[of "CHR 0x0A" crd "output"] GetNonEmptyLines_def)
  qed
  then show ?thesis using assms by (auto simp: IsCertManagerCRDsInstalled_def list_ex_iff Contains_iff split: option.splits)
qed

subsection \<open>Uncommenting\<close>

lemma Scan_plain:
  assumes "plain_line l"
  shows "Scan (l @ CHR 0x0A # rest) = Some (l, rest)" "l \<noteq> [] \<Longrightarrow> Scan l = Some (l, [])"
proof -
  have tw: "takeWhile (\<lambda>c. c \<noteq> CHR 0x0A) l = l" using assms by (auto simp: plain_line_def takeWhile_eq_all_conv)
  have tw': "takeWhile (\<lambda>c. c \<noteq> CHR 0x0A) (l @ CHR 0x0A # rest) = l" using assms by (auto simp: plain_line_def takeWhile_tail takeWhile_eq_all_conv)
  have "\<not> MaxScanTokenSize \<le> length l" "dropCR l = l" using assms by (simp_all add: plain_line_def)
  then show "Scan (l @ CHR 0x0A # rest) = Some (l, rest)" "l \<noteq> [] \<Longrightarrow> Scan l = Some (l, [])"
    by (simp_all add: Scan_def Let_def tw tw')
qed

lemma Scan_empty [simp]: "Scan [] = None"
  by (simp add: Scan_def)

lemma uncomment_lines:
  assumes "\<forall>l \<in> set (l # ls). plain_line l" "last (l # ls) \<noteq> []"
  shows "\<exists>rest. Scan (join_lines (l # ls)) = Some (l, rest) \<and>
    (\<forall>out. uncomment_loop pfx l rest out = out @ join_lines (map (\<lambda>l. TrimPrefix l pfx) (l # ls)))"
  using assms
proof (induction ls arbitrary: l)
  case Nil
  then show ?case by (auto simp: Scan_plain uncomment_loop.simps[of _ l])
next
  case (Cons l' ls)
  then obtain rest where r: "Scan (join_lines (l' # ls)) = Some (l', rest)"
    "\<And>out. uncomment_loop pfx l' rest out = out @ join_lines (map (\<lambda>l. TrimPrefix l pfx) (l' # ls))" by (metis last_ConsR list.distinct(1) list.set_intros(2))
  have "uncomment_loop pfx l (join_lines (l' # ls)) out = out @ join_lines (map (\<lambda>l. TrimPrefix l pfx) (l # l' # ls))" for out
    using r by (subst uncomment_loop.simps) (simp add: Let_def)
  moreover have "Scan (join_lines (l # l' # ls)) = Some (l, join_lines (l' # ls))" using Scan_plain(1)[of l] Cons.prems(1) by simp
  ultimately show ?case by blast
qed

text \<open>C40. Uncommenting does what it is for: when the target is a block of lines, none of which ends in a
  carriage return or has 64 KiB or more, the last of which is not empty (so that the target does not
  end in a newline), and the file system works, its first occurrence is replaced by the same lines without the comment prefix (a line that does not
  start with it stays), everything before and after it and every other file stay as they were, and no
  error is returned.\<close>

theorem UncommentCode_exact:
  assumes "all_ok w" "files w p = Some (File (before @ join_lines ls @ after))" "parent_ok p w" "resolve filename = p"
    and "ls \<noteq> []" "last ls \<noteq> []" "\<forall>l \<in> set ls. plain_line l"
    and "\<forall>pre post. before @ join_lines ls @ after = pre @ join_lines ls @ post \<longrightarrow> length before \<le> length pre"
  shows "\<exists>w'. UncommentCode q resolve filename (join_lines ls) pfx w = (Done None, w') \<and>
    files w' = (files w)(p \<mapsto> File (before @ join_lines (map (\<lambda>l. TrimPrefix l pfx) ls) @ after))"
proof -
  obtain l ls' where ls: "ls = l # ls'" using assms(5) by (cases ls) auto
  obtain rest where r: "Scan (join_lines ls) = Some (l, rest)"
    "\<And>out. uncomment_loop pfx l rest out = out @ join_lines (map (\<lambda>l. TrimPrefix l pfx) ls)"
    using uncomment_lines[of l ls' pfx] assms(6,7) ls by blast
  have i: "Index (before @ join_lines ls @ after) (join_lines ls) = int (length before)"
    using find_sub_first[of before "join_lines ls" after] assms(8) by (simp add: Index_def)
  show ?thesis
    using assms(1-4) r i
    by (auto simp: UncommentCode_def bindp_def retp_def os_ReadFile_def os_WriteFile_def atomic_call_def write_call_def Let_def fate_def all_ok_def)
qed

theorem UncommentCode_exact_witness:
  "\<exists>w'. UncommentCode id (\<lambda>_. [''f'']) ''f'' (join_lines [''#- a'', ''#- b'']) ''#''
      \<lparr>files = [[] \<mapsto> Dir, [''f''] \<mapsto> File (''x'' @ [CHR 0x0A] @ join_lines [''#- a'', ''#- b''] @ [CHR 0x0A])], tick = 0, fate_of = \<lambda>_ _. Ok\<rparr> = (Done None, w') \<and>
    files w' = [[] \<mapsto> Dir, [''f''] \<mapsto> File (''x'' @ [CHR 0x0A] @ join_lines [''- a'', ''- b''] @ [CHR 0x0A])]"
proof -
  let ?t = "join_lines [''#- a'', ''#- b'']"
  have "\<forall>pre post. ''x'' @ [CHR 0x0A] @ ?t @ [CHR 0x0A] = pre @ ?t @ post \<longrightarrow> Suc (Suc 0) \<le> length pre"
  proof (intro allI impI, rule ccontr)
    fix pre post assume "''x'' @ [CHR 0x0A] @ ?t @ [CHR 0x0A] = pre @ ?t @ post" "\<not> Suc (Suc 0) \<le> length pre"
    then show False by (cases pre; cases "tl pre") auto
  qed
  then show ?thesis
    using UncommentCode_exact[of "\<lparr>files = [[] \<mapsto> Dir, [''f''] \<mapsto> File (''x'' @ [CHR 0x0A] @ ?t @ [CHR 0x0A])], tick = 0, fate_of = \<lambda>_ _. Ok\<rparr>"
        "[''f'']" "''x'' @ [CHR 0x0A]" "[''#- a'', ''#- b'']" "[CHR 0x0A]" "\<lambda>_. [''f'']" "''f''" id "''#''"]
    by (simp add: all_ok_def parent_ok_def plain_line_def dropCR_def MaxScanTokenSize_def TrimPrefix_def HasPrefix_def)
qed

text \<open>Whatever the file system does, nothing but the named file is touched, and that one only when it was
  read, the target was found in it and has a line.\<close>

lemma one_file_changed [simp]: "\<exists>n. f = f(p := n)" "\<exists>n. f(p := m) = f(p := n)"
  by (rule exI[of _ "f p"]) (simp, blast)

lemma UncommentCode_frame:
  "wp (UncommentCode q resolve filename target pfx)
     (\<lambda>r w'. (\<exists>n. files w' = (files w)(resolve filename := n)) \<and> (\<forall>m. r = Some (Message m) \<longrightarrow> files w' = files w) \<and>
       (Scan target = None \<longrightarrow> files w' = files w))
     (\<lambda>w'. \<exists>n. files w' = (files w)(resolve filename := n)) w"
  unfolding UncommentCode_def wp_bindp
proof (rule wp_ReadFile, goal_cases)
  case (1 w1 c)
  then show ?case
    by (cases "Scan target") (auto simp: Let_def wp_retp wp_bindp intro!: wp_WriteFile)
qed (auto simp: wp_retp)

text \<open>The newline at the end of a target is lost, and the next line of the file moves up to the uncommented one.\<close>

lemma uncomment_joins_lines:
  assumes "plain_line l" "l \<noteq> []"
  shows "Scan (l @ [CHR 0x0A]) = Some (l, [])" "uncomment_loop pfx l [] out @ after = out @ TrimPrefix l pfx @ after"
  using Scan_plain(1)[OF assms(1), of "[]"] by (simp_all add: uncomment_loop.simps)

text \<open>A line of 64 KiB in the target ends the scan like the end of the target does: it and all lines after it
  are deleted from the file, without an error.\<close>

lemma uncomment_deletes_long_line:
  assumes "plain_line l" "CHR 0x0A \<notin> set long" "length long \<ge> MaxScanTokenSize"
  shows "Scan (l @ CHR 0x0A # long @ rest) = Some (l, long @ rest)" "uncomment_loop pfx l (long @ rest) out = out @ TrimPrefix l pfx"
proof -
  have "takeWhile (\<lambda>c. c \<noteq> CHR 0x0A) (long @ rest) = long @ takeWhile (\<lambda>c. c \<noteq> CHR 0x0A) rest" using assms(2) by (subst takeWhile_append2) auto
  with assms(3) have "Scan (long @ rest) = None" by (simp add: Scan_def)
  then show "uncomment_loop pfx l (long @ rest) out = out @ TrimPrefix l pfx" by (simp add: uncomment_loop.simps)
  show "Scan (l @ CHR 0x0A # long @ rest) = Some (l, long @ rest)" by (rule Scan_plain(1)[OF assms(1)])
qed

end
