(* ===== verification/Spec2Isabelle.thy ===== *)
theory Spec2Isabelle
  imports Agent_Main Agent_Upgrade Rollout_Campaign Deep_Copy Operator_Main Firmware_Server Agent_Calm Device_Lifecycle Fleet_Radius Test_Utils
begin

text \<open>
  \<^bold>\<open>Verification of the edge fleet operator.\<close>

  \<^bold>\<open>The program.\<close> A Kubernetes operator and a device agent keep the firmware of a fleet of edge
  devices up to date. The \<^emph>\<open>rollout controller\<close> (\<open>internal/controller/fleetrollout_controller.go\<close>)
  writes a target version into the specs of a growing part of the selected devices and stops when
  too many fail. The \<^emph>\<open>device controller\<close> (\<open>internal/controller/edgedevice_controller.go\<close>) keeps a
  credential per device and condenses heartbeats and failure reports into a phase. The \<^emph>\<open>agent\<close>
  (\<open>internal/agent\<close>, \<open>cmd/agent\<close>) polls its device object, downloads and verifies an image, flashes
  it into the inactive one of two slots, reboots into it on trial, confirms it or falls back, and
  reports. A \<^emph>\<open>firmware server\<close> (\<open>cmd/firmware-server\<close>) hands out the images, and the operator process
  (\<open>cmd/main.go\<close>) runs the two controllers. The parts share nothing but the API objects and the images: the spec is written by the rollout
  controller and read by the agent, the status is written by the agent and the device controller
  and read by both controllers.

  \<^bold>\<open>Theories.\<close>
  \<^item> \<open>Fleet_Prelude\<close>: the functions of Go's \<open>strings\<close>, \<open>strconv\<close>, \<open>path\<close> and \<open>encoding/hex\<close> that the
    sources call, 32- and 64-bit wrap-around, and the collections of proof rules.
  \<^item> \<open>Go_OS\<close>: package \<open>os\<close> over an explicit file store. Every system call meets a fate chosen by the
    environment: success, error, process death before or in the middle of the call, or a write that
    lands other bytes. Weakest preconditions and frame rules.
  \<^item> \<open>Digest\<close>: \<open>VerifySHA256\<close> of \<open>download.go\<close>.
  \<^item> \<open>Slots\<close>: all of \<open>slot.go\<close>, one definition per method. The invariant \<open>boot_safe\<close> (the link names a
    slot, one slot is confirmed, a confirmed slot holds an intact image) survives every operation on
    every outcome; the flip of the link is atomic; staging leaves the running slot alone; an
    unconfirmed image is tried once. \<open>Slot_Trials\<close>: sequences of operations, from factory state over a
    trial to its commit or rollback. \<open>Slot_FailStop\<close>: the contracts of the operations that the agent uses.
  \<^item> \<open>Device_FSM\<close>: \<open>fsm.go\<close>. The hook log is a path of the transition table.
  \<^item> \<open>Conditions\<close>: \<open>SetCondition\<close> of \<open>kube.go\<close> and the locale \<open>condition_api\<close>, the contract of the
    Kubernetes condition helpers, interpreted on it.
  \<^item> \<open>Kube_Client\<close>: types, \<open>Get\<close>, \<open>PutStatus\<close>, \<open>UpdateStatus\<close> of \<open>kube.go\<close>; the locale
    \<open>optimistic_server\<close>, what a Kubernetes API server promises, interpreted on the fake server of
    \<open>kube_test.go\<close> with other writers interfering; no lost update. The locale \<open>available_server\<close> extends it by
    a server that is up, interpreted on the same server; only five foreign writes make a report fail.
  \<^item> \<open>Kubeconfig\<close>: \<open>NewKubeClient\<close> and \<open>loadKubeconfig\<close> of \<open>kube.go\<close> with base64 decoding; round trip.
  \<^item> \<open>Download\<close>: \<open>download.go\<close>, with resumption, retries and backoff. Integrity and delivery.
  \<^item> \<open>Go_Flag\<close>: package \<open>flag\<close> as the three \<open>main\<close> functions use it, with termination of the parser.
  \<^item> \<open>Firmware_Server\<close>: \<open>cmd/firmware-server/main.go\<close> and the file handler of \<open>net/http\<close> it serves. It meets the
    contract that \<open>Download\<close> relies on, over a network that refuses and cuts connections, and it
    answers from below its directory only.
  \<^item> \<open>Agent\<close>: \<open>agent.go\<close>. \<open>runUpgrade\<close> is cut at its section comments into phases, between which polls
    and heartbeats interleave; \<open>agent_step\<close> is the concurrent agent with power losses and reboots.
    Boot safety of the whole fail-stop life, recovery, legality of all transitions.
    \<open>Agent_Upgrade\<close>: success of an undisturbed upgrade, rejection of a wrong image.
  \<^item> \<open>Agent_Run\<close>: \<open>Run\<close>, \<open>heartbeatLoop\<close> and the upgrade goroutine of \<open>agent.go\<close> under an explicit schedule,
    with exit codes. It refines \<open>agent_step\<close>, so the theorems on the life of the agent hold of the
    running program; without any assumption, at most one transaction runs, and an upgrade ends within
    six moves of its goroutine.
  \<^item> \<open>Agent_Main\<close>: \<open>cmd/agent/main.go\<close>, from the command line to \<open>Run\<close>.
  \<^item> \<open>Fleet_API\<close>: the types of \<open>api/v1alpha1\<close> and the controller client. The API server is an arbitrary
    function of the history of calls; theorems on the controllers speak about the calls they make.
  \<^item> \<open>Deep_Copy\<close>: \<open>zz_generated.deepcopy.go\<close> over an explicit heap; the locale \<open>deep_copy\<close>, met by every
    generated function. It justifies that the controllers' models use immutable values.
  \<^item> \<open>Device_Controller\<close>: the whole reconcile pass with its helpers: meaning of the phase, writer
    discipline, idempotence, deadline of the requeue, order of revocation and release.
  \<^item> \<open>Rollout_Controller\<close>: the whole reconcile pass with its helpers: exactness of the counters and of
    the breaker in 32 bits, what a pass writes, the blast radius. \<open>Rollout_Campaign\<close>: several
    passes; a cooperative fleet completes within as many rounds as it has devices. \<open>Fleet_Radius\<close>: the
    single writes of passes, on listings that may lag, interleaved with every other writer; the blast
    radius at every moment.
  \<^item> \<open>API_Validation\<close>: the validation markers of the API types. Both controllers write only valid objects
    when they read only valid ones. The locale \<open>condition_list\<close> extends \<open>condition_api\<close> by what an upsert
    does to the list.
  \<^item> \<open>Device_Lifecycle\<close>: the single calls of passes of the device controller interleaved with users,
    agents, lost replies and passes cut off; a credential never outlives its device instance, and
    undisturbed passes converge.
  \<^item> \<open>Operator_Main\<close>: \<open>cmd/main.go\<close>, \<open>groupversion_info.go\<close>, the \<open>init\<close> functions of the types and both
    \<open>SetupWithManager\<close>. Order of the start, hardening of the servers, which events wake which controller.
  \<^item> \<open>Fleet_Wire\<close>: the JSON wire between agent and operator. \<open>Agent_Calm\<close>: an agent that is served valid
    objects never panics.
  \<^item> \<open>Test_Utils\<close>: \<open>test/utils/utils.go\<close>, the helpers of the end-to-end tests. Commands run in the root of
    the project; uncommenting changes the block it is asked to and nothing else.
  \<^item> This theory: what travels between the parts, from a rollout to a confirmed slot and back into the
    count of the rollout.

  \<^bold>\<open>Parameters and what is assumed of them.\<close> The SHA-256 function, the firmware server (\<open>serves\<close>: a
  body is a prefix of the image, from the asked offset), the API servers (\<open>optimistic_server\<close>, or
  nothing at all), the condition and finalizer helpers (\<open>condition_laws\<close>, \<open>finalizer_laws\<close>), X.509
  parsing, the scheme of the API machinery (\<open>scheme_laws\<close>) and the manager of controller-runtime
  (it chooses the result of every call; the delivery of events is as documented in \<open>delivery_laws\<close>), the condition helpers as list operations
  (\<open>list_laws\<close>, \<open>finalizers_only\<close>, \<open>finalizer_members\<close>), the machine of the end-to-end tests (nothing assumed,
  or that the working directory can be read and changed), the flags of the logging library, \<open>time.ParseDuration\<close>, \<open>net/url\<close>, the
  rendering of directories, clocks, random numbers, the schedule of the goroutines and the fates of
  system calls are arguments. A write is durable
  when its call returns; unsynchronised data lost in a power failure is outside the model. The life
  of the agent is proved for fail-stop environments: the calls that keep markers and link succeed or
  the process dies in them, everything else fails at will; two theorems show what is lost without
  this. Where a theorem assumes that no call fails, it says so.
  The step relations \<open>cluster_step\<close> and \<open>fleet_step\<close> let everybody act between two calls of a pass and
  let replies get lost; they assume that the API server refuses an update of an object that changed
  since it was read. Listings of \<open>fleet_step\<close> may lag in any way, and the bound counts what they hide; in
  \<open>cluster_step\<close> reads are current (a cache that lags is not modelled there) and nobody else removes the
  controller's finalizer or creates the Secret.

  \<^bold>\<open>Bounds.\<close> There is no fuel: the loops over attempts, lines, devices and conditions are structural or
  consume their input, the flag parser consumes an argument in every round, the five attempts of \<open>UpdateStatus\<close> and the
  \<open>MaxAttempts\<close> of a download are the code's own bounds, and theorems say that no more is asked for.
  The endless loops of \<open>Run\<close> and \<open>heartbeatLoop\<close> are folds over a finite schedule of any length.
  The theorems on the fleet arithmetic hold up to $2^{31}$ devices, those on the breaker up to
  21474836, beyond which the 32-bit products wrap.

  \<^bold>\<open>Not modelled.\<close> The inside of controller-runtime and of the API machinery (queues, caches, leader
  election), logging and its flags, file modes, connection reuse, the end-to-end tests
  themselves, and the deployment manifests under \<open>config\<close> other than the
  condition schema that \<open>API_Validation\<close> uses. A waiting time is a choice of the schedule: when a
  poll or a heartbeat happens is not modelled, only in which order.
\<close>

section \<open>Definitions\<close>

text \<open>A device that has nothing to do and can take a target: booted, not in a transaction, its file system
  fault-free, and of the target's image at most a part in its staging file.\<close>

definition awaits :: "SlotManager \<Rightarrow> digest \<Rightarrow> 's Env \<Rightarrow> DeviceSpec \<Rightarrow> string \<Rightarrow> 's Agent \<Rightarrow> bool" where
  "awaits s h E spec F a \<longleftrightarrow> fits s h E \<and> all_ok (ag_world a) \<and> safe_up h s (ag_world a) \<and> fsm_state (ag_fsm a) \<in> {StateIdle, StateFailed} \<and>
     (\<forall>j. \<not> e_cancelled E j) \<and> cf_Download (e_cfg E) = default_options \<and> partial_of F (staging_path E spec) (ag_world a)"

text \<open>What the operator reads of a device object that the agent wrote.\<close>

definition seen :: "(string \<Rightarrow> int) \<Rightarrow> EdgeDevice \<Rightarrow> Device \<Rightarrow> EdgeDevice" where
  "seen time obj d = obj\<lparr>ed_Status := wire_status time (d_Status d)\<rparr>"

text \<open>The device is booted from a confirmed slot with a version and an image.\<close>

definition runs_image :: "SlotManager \<Rightarrow> string \<Rightarrow> string \<Rightarrow> string \<Rightarrow> world \<Rightarrow> bool" where
  "runs_image s x version F w \<longleftrightarrow> active_of s w = Some x \<and> confirmed s x w \<and>
     files w (slotDir s x @ [versionFile]) = Some (File version) \<and> files w (slotDir s x @ [firmwareFile]) = Some (File F)"

text \<open>A report that makes the device Ready and succeeded, for every status it is applied to, while heartbeats are fresh.\<close>

definition reports_success :: "Libs \<Rightarrow> EdgeDeviceReconciler \<Rightarrow> (string \<Rightarrow> int) \<Rightarrow> FleetRollout \<Rightarrow> EdgeDevice \<Rightarrow> (Device \<Rightarrow> Device) \<Rightarrow> bool" where
  "reports_success L rc time ro obj report \<longleftrightarrow>
     (\<forall>d nows. st_LastHeartbeat (d_Status d) \<noteq> [] \<and> \<not> overdue rc (nows 0) (time (st_LastHeartbeat (d_Status d))) \<longrightarrow>
        (let st = fst (projectStatus L rc nows (seen time obj (report d)))
         in eds_Phase st = PhaseReady \<and> reached ro (obj\<lparr>ed_Status := st\<rparr>)))"

text \<open>A rollout, its server and its device for the witness; the digest is the identity.\<close>

definition fleet_image :: string where
  "fleet_image = replicate 32 CHR ''i''"

definition fleet_rollout :: FleetRollout where
  "fleet_rollout = crd_rollout\<lparr>fr_Spec := (fr_Spec crd_rollout)\<lparr>fs_ChecksumSHA256 := hex_EncodeToString fleet_image\<rparr>\<rparr>"

definition fleet_open :: opener where
  "fleet_open p = (if p = [''fw'', ''v2.bin''] then Inr (Regular fleet_image) else Inl FsNotExist)"

definition fleet_env :: "unit Env" where
  "fleet_env = demo_env\<lparr>e_http := \<lambda>m u b s. (Reply 200 (Some (lean_device tally_fmt ''7'' (target_device fleet_rollout demo_device))), s),
     e_net := remote (FileServer [''fw''] fleet_open (\<lambda>_. (200, []))) demo_link (\<lambda>_. ''/v2.bin'')\<rparr>"

section \<open>Properties of the whole fleet\<close>

text \<open>The agent does not lose what it does not own: a status that the agent decodes and writes back
  unchanged is, for the operator, the status it was, with the operator's phase and conditions; this
  needs only that the time stamps in it survive printing and parsing.\<close>

theorem status_wire_roundtrip:
  assumes "\<forall>t \<in> set (times_of st). time (fmt t) = t \<and> fmt t \<noteq> []"
  shows "wire_status time (lean_status fmt st) = st"
proof -
  have "map (\<lambda>c. conv_condition time (conv_condition fmt c)) (eds_Conditions st) = eds_Conditions st"
    by (rule map_idI) (use assms in \<open>auto simp: conv_condition_def times_of_def\<close>)
  with assms show ?thesis by (auto simp: wire_status_def lean_status_def times_of_def comp_def split: option.splits)
qed

theorem status_wire_roundtrip_witness:
  "wire_status tally_time (lean_status tally_fmt (ed_Status demo_device)) = ed_Status demo_device"
  by (rule status_wire_roundtrip) (simp add: times_of_def demo_device_def tally_fmt_def tally_time_def)

text \<open>C8. A failure travels from the device to the breaker: take the status the agent reports with
  any FirmwareSynced value, let the device controller project it, and ask the rollout controller:
  it counts the device as failed exactly when the agent reported a terminal failure (a False other
  than UpgradeInProgress) or its heartbeat is overdue. In particular neither an upgrade in progress
  nor a success burns the budget, whatever phase the device was in before.\<close>

theorem failure_reaches_breaker:
  assumes "\<forall>cs t. lib_find L cs t = find_type cs t" "condition_laws L"
    and "dev = obj\<lparr>ed_Status := wire_status time (set_synced E status reason msg g st)\<rparr>"
  shows "deviceFailed L (dev\<lparr>ed_Status := fst (projectStatus L r nows dev)\<rparr>) \<longleftrightarrow>
    status = CondFalse \<and> reason \<noteq> ''UpgradeInProgress'' \<or> st_LastHeartbeat st \<noteq> [] \<and> overdue r (nows 0) (time (st_LastHeartbeat st))"
proof -
  have rf: "reports_failure (lib_find L (eds_Conditions (ed_Status dev)) ConditionFirmwareSynced) \<longleftrightarrow> status = CondFalse \<and> reason \<noteq> ''UpgradeInProgress''"
    using assms(1,3) by (simp add: wire_status_def set_synced_def reports_failure_wire)
  have hb: "eds_LastHeartbeat (ed_Status dev) = (if st_LastHeartbeat st = [] then None else Some (time (st_LastHeartbeat st)))"
    using assms(3) by (simp add: wire_status_def set_synced_def)
  have keep: "lib_find L (eds_Conditions (fst (projectStatus L r nows dev))) ConditionFirmwareSynced = lib_find L (eds_Conditions (ed_Status dev)) ConditionFirmwareSynced"
    using assms(2) by (auto simp: projectStatus_def Let_def find_lib_set split: option.splits)
  show ?thesis
    unfolding deviceFailed_def using keep rf hb
    by (auto simp: projectStatus_def Let_def overdue_def split: option.splits if_splits)
qed

theorem failure_reaches_breaker_witness:
  "let dev = demo_device\<lparr>ed_Status := wire_status tally_time (set_synced demo_env CondFalse ''DownloadFailed'' [] 3 (lean_status tally_fmt (ed_Status demo_device)))\<rparr>
   in deviceFailed demo_libs (dev\<lparr>ed_Status := fst (projectStatus demo_libs demo_reconciler (\<lambda>_. 5) dev)\<rparr>)"
  using failure_reaches_breaker[OF _ demo_libs_laws(1) refl, where obj = demo_device and time = tally_time and E = demo_env and status = CondFalse
      and reason = "''DownloadFailed''" and msg = "[]" and g = 3 and st = "lean_status tally_fmt (ed_Status demo_device)" and r = demo_reconciler and nows = "\<lambda>_. 5"]
  by (simp add: demo_libs_def)

text \<open>The poll after a device was targeted, and the transaction that it starts.\<close>

lemma target_poll:
  assumes "ActiveVersion (e_slots E) (ag_world a) = (Done cur, w')" "fs_TargetVersion (fr_Spec ro) \<noteq> cur"
    and "\<not> es_RolloutPaused (ed_Spec dev)" "\<not> ag_upgrading a"
    and "ag_lastFailedKey a \<noteq> fs_TargetVersion (fr_Spec ro) @ ''|'' @ fs_ChecksumSHA256 (fr_Spec ro)"
    and "Get (e_kube E) (e_http E) (ag_api a) = (Inr (lean_device fmt v (target_device ro dev)), api')"
  shows "poll E a = (Done (), a\<lparr>ag_api := api', ag_lastSeenGen := om_Generation (ed_Meta dev), ag_world := w', ag_upgrading := True,
    ag_running := ag_running a @ [(d_Spec (lean_device fmt v (target_device ro dev)), om_Generation (ed_Meta dev), PAnnounce)]\<rparr>)"
proof -
  have "poll E a = evaluate E (lean_device fmt v (target_device ro dev)) (a\<lparr>ag_api := api'\<rparr>)" using assms(6) by (simp add: poll_def)
  also have "\<dots> = (Done (), a\<lparr>ag_api := api', ag_lastSeenGen := om_Generation (ed_Meta dev), ag_world := w', ag_upgrading := True,
    ag_running := ag_running a @ [(d_Spec (lean_device fmt v (target_device ro dev)), om_Generation (ed_Meta dev), PAnnounce)]\<rparr>)"
    by (subst evaluate_starts) (use assms in \<open>simp_all add: target_key_def lean_device_def target_device_def\<close>)
  finally show ?thesis .
qed

lemma target_spec [simp]:
  "sp_DesiredFirmwareVersion (d_Spec (lean_device fmt v (target_device ro dev))) = fs_TargetVersion (fr_Spec ro)"
  "sp_FirmwareURL (d_Spec (lean_device fmt v (target_device ro dev))) = fs_FirmwareURL (fr_Spec ro)"
  "sp_ChecksumSHA256 (d_Spec (lean_device fmt v (target_device ro dev))) = fs_ChecksumSHA256 (fr_Spec ro)"
  by (simp_all add: lean_device_def target_device_def)

text \<open>Intent travels from the rollout to the device: when the rollout controller has written its
  target to a device and the agent of that device polls it, then, unless the agent already runs
  the target, is paused, has just failed this very target or is busy, the poll starts a transaction
  for exactly the version, URL and checksum of the rollout.\<close>

theorem rollout_target_reaches_agent:
  assumes "ActiveVersion (e_slots E) (ag_world a) = (Done cur, w')" "fs_TargetVersion (fr_Spec ro) \<noteq> cur"
    and "\<not> es_RolloutPaused (ed_Spec dev)" "\<not> ag_upgrading a"
    and "ag_lastFailedKey a \<noteq> fs_TargetVersion (fr_Spec ro) @ ''|'' @ fs_ChecksumSHA256 (fr_Spec ro)"
    and "Get (e_kube E) (e_http E) (ag_api a) = (Inr (lean_device fmt v (target_device ro dev)), api')"
  shows "\<exists>spec gen a'. poll E a = (Done (), a') \<and> ag_running a' = ag_running a @ [(spec, gen, PAnnounce)] \<and> ag_upgrading a' \<and>
    sp_DesiredFirmwareVersion spec = fs_TargetVersion (fr_Spec ro) \<and> sp_FirmwareURL spec = fs_FirmwareURL (fr_Spec ro) \<and>
    sp_ChecksumSHA256 spec = fs_ChecksumSHA256 (fr_Spec ro)"
  using target_poll[OF assms] by simp

theorem rollout_target_reaches_agent_witness:
  "\<exists>spec gen a'. poll (demo_env\<lparr>e_http := \<lambda>m u b s. (Reply 200 (Some (lean_device tally_fmt ''7'' (target_device demo_rollout demo_device))), s)\<rparr>)
       (initial_agent demo_world ()) = (Done (), a') \<and> ag_running a' = [(spec, gen, PAnnounce)] \<and> sp_DesiredFirmwareVersion spec = ''v2''"
proof -
  let ?E = "demo_env\<lparr>e_http := \<lambda>m u b s. (Reply 200 (Some (lean_device tally_fmt ''7'' (target_device demo_rollout demo_device))), s)\<rparr>"
  let ?a = "initial_agent demo_world ()"
  have "demo_world\<lparr>tick := 0\<rparr> = demo_world" by (simp add: demo_world_def)
  then have v: "ActiveVersion (e_slots ?E) (ag_world ?a) = (Done ''factory'', demo_world\<lparr>tick := Suc (Suc 0)\<rparr>)"
    using demo_version[of 0] by (simp add: demo_env_def initial_agent_def)
  have g: "Get (e_kube ?E) (e_http ?E) (ag_api ?a) = (Inr (lean_device tally_fmt ''7'' (target_device demo_rollout demo_device)), ag_api ?a)"
    by (simp add: Get_def)
  have h: "fs_TargetVersion (fr_Spec demo_rollout) \<noteq> ''factory''" "\<not> es_RolloutPaused (ed_Spec demo_device)" "\<not> ag_upgrading ?a"
    "ag_lastFailedKey ?a \<noteq> fs_TargetVersion (fr_Spec demo_rollout) @ ''|'' @ fs_ChecksumSHA256 (fr_Spec demo_rollout)"
    by (simp_all add: demo_rollout_def demo_device_def initial_agent_def)
  have "ag_running ?a = []" "fs_TargetVersion (fr_Spec demo_rollout) = ''v2''" by (simp_all add: demo_rollout_def initial_agent_def)
  with rollout_target_reaches_agent[OF v h g] show ?thesis by auto
qed

lemma committed_runs:
  assumes "fits s h E" "files w = committed s (other x) F spec (staging_path E spec) f"
  shows "runs_image s (other x) (sp_DesiredFirmwareVersion spec) F w"
proof -
  have d: "slotDir s y @ [n] \<noteq> staging_path E spec" "currentPath s \<noteq> staging_path E spec" for y n
    using staging_distinct[OF assms(1), where spec = spec] by metis+
  show ?thesis using d other_in[of x] by (auto simp: assms(2) committed_def runs_image_def active_of_def confirmed_def)
qed

lemma awaits_upgradable:
  assumes "awaits s h E spec F a" "e_net E = remote (FileServer root openf dirList) link url_path" "names_image root openf (url_path (sp_FirmwareURL spec)) F"
    and "Suc i < 5" "link i = Up" "link (Suc i) = Up" "hex_EncodeToString (h F) = sp_ChecksumSHA256 spec" "matches_sha256 (sp_ChecksumSHA256 spec)"
  shows "upgradable s h E spec F a"
proof -
  have "responsive (e_net E) (sp_FirmwareURL spec) F 0 5"
    unfolding responsive_def assms(2) using assms(4-6) remote_answers[where url_path = url_path, OF assms(3)] by (intro disjI2 exI[of _ i]) simp
  moreover have "serves (e_net E) (sp_FirmwareURL spec) F" unfolding assms(2) by (rule remote_serves[where url_path = url_path, OF assms(3)])
  ultimately show ?thesis using assms(1,7,8) by (simp add: upgradable_def awaits_def matches_sha256_def)
qed

lemma upgraded_seen:
  assumes "\<forall>cs t. lib_find L cs t = find_type cs t" "es_DesiredFirmwareVersion (ed_Spec obj) = sp_DesiredFirmwareVersion spec"
    and "st_LastHeartbeat (d_Status d) \<noteq> []" "\<not> overdue r (nows 0) (time (st_LastHeartbeat (d_Status d)))"
  shows "eds_CurrentFirmwareVersion (fst (projectStatus L r nows (seen time obj (upgraded_report E spec slot g d)))) = sp_DesiredFirmwareVersion spec"
    "eds_Phase (fst (projectStatus L r nows (seen time obj (upgraded_report E spec slot g d)))) = PhaseReady"
  using assms reports_failure_wire[of time "e_now E" "st_Conditions (d_Status d)" CondTrue]
  by (auto simp: seen_def upgraded_report_def set_synced_def wire_status_def projectStatus_def Let_def overdue_def CondTrue_def CondFalse_def)

text \<open>C3. A rollout reaches the device and the device reports back: take a valid rollout whose image lies
  with the firmware server, a device targeted by it that has nothing else to do, and a network
  that connects two of five attempts in a row. The next poll starts a transaction, and the
  transaction, run undisturbed, ends with the target version on the other slot, booted, confirmed,
  and the firmware there byte for byte the server's image. Its last report, when the device
  controller projects it with a fresh heartbeat, makes the device Ready and the rollout controller
  count it as succeeded, whatever the status was before.\<close>

theorem rollout_reaches_device:
  assumes "firmware_main path_of listens openf dirList args = Inr (addr, serve)" "Parse server_flags args server_defaults = Inr fl"
    and "names_image (path_of (sf_dir fl)) openf (url_path (fs_FirmwareURL (fr_Spec ro))) F"
    and "e_net E = remote serve link url_path" "Suc i < 5" "link i = Up" "link (Suc i) = Up"
    and "valid_FleetRolloutSpec (fr_Spec ro)" "hex_EncodeToString (h F) = fs_ChecksumSHA256 (fr_Spec ro)"
    and "spec = d_Spec (lean_device fmt v (target_device ro dev))" "awaits s h E spec F a" "active_of s (ag_world a) = Some x"
    and poll: "ActiveVersion (e_slots E) (ag_world a) = (Done cur, w')" "fs_TargetVersion (fr_Spec ro) \<noteq> cur"
      "\<not> es_RolloutPaused (ed_Spec dev)" "\<not> ag_upgrading a" "ag_lastFailedKey a \<noteq> fs_TargetVersion (fr_Spec ro) @ ''|'' @ fs_ChecksumSHA256 (fr_Spec ro)"
      "Get (e_kube E) (e_http E) (ag_api a) = (Inr (lean_device fmt v (target_device ro dev)), api')"
    and L: "\<forall>cs t. lib_find L cs t = find_type cs t"
  shows "\<exists>gen a1. poll E a = (Done (), a1) \<and> ag_running a1 = ag_running a @ [(spec, gen, PAnnounce)] \<and>
    wpA (runUpgrade E spec) (\<lambda>r a'. r = None \<and> runs_image s (other x) (fs_TargetVersion (fr_Spec ro)) F (ag_world a') \<and>
      (\<exists>report. reported E report a' \<and> reports_success L rc time ro (target_device ro dev) report)) (\<lambda>_. False) a1"
proof -
  let ?a1 = "a\<lparr>ag_api := api', ag_lastSeenGen := om_Generation (ed_Meta dev), ag_world := w', ag_upgrading := True,
    ag_running := ag_running a @ [(spec, om_Generation (ed_Meta dev), PAnnounce)]\<rparr>"
  have sp: "sp_DesiredFirmwareVersion spec = fs_TargetVersion (fr_Spec ro)" "sp_FirmwareURL spec = fs_FirmwareURL (fr_Spec ro)"
    "sp_ChecksumSHA256 spec = fs_ChecksumSHA256 (fr_Spec ro)" by (simp_all add: assms(10))
  have w': "files w' = files (ag_world a)" "fate_of w' = fate_of (ag_world a)"
    using ActiveVersion_reads[of "e_slots E" "ag_world a"] poll(1) by (simp_all add: wp_def)
  have serve: "serve = FileServer (path_of (sf_dir fl)) openf dirList" using assms(1,2) by (simp add: firmware_main_def split: if_splits)
  have "awaits s h E spec F ?a1" using assms(11) w' by (simp add: awaits_def all_ok_def partial_of_def safe_up_cong[OF w'(1)])
  from awaits_upgradable[OF this, of "path_of (sf_dir fl)" openf dirList link url_path i] assms(3-9) serve
  have U: "upgradable s h E spec F ?a1" by (simp add: sp valid_FleetRolloutSpec_def)
  have x: "active_of s (ag_world ?a1) = Some x" using assms(12) w' by (simp add: active_of_def)
  have E: "fits s h E" using U by (simp add: upgradable_def)
  have fin: "reports_success L rc time ro (target_device ro dev) (upgraded_report E spec y g)" for y g
    unfolding reports_success_def Let_def using upgraded_seen[OF L, of "target_device ro dev" spec]
    by (auto simp: sp reached_def target_device_def)
  have "wpA (runUpgrade E spec) (\<lambda>r a'. r = None \<and> runs_image s (other x) (fs_TargetVersion (fr_Spec ro)) F (ag_world a') \<and>
      (\<exists>report. reported E report a' \<and> reports_success L rc time ro (target_device ro dev) report)) (\<lambda>_. False) ?a1"
    by (rule wpA_mono[OF runUpgrade_all_ok[OF U x]]) (use committed_runs[OF E] fin in \<open>auto simp: sp[symmetric]\<close>)
  with target_poll[OF poll] show ?thesis by (auto simp: assms(10))
qed

lemma fleet_rollout_valid: "valid_FleetRolloutSpec (fr_Spec fleet_rollout)" "hex_EncodeToString (id fleet_image) = fs_ChecksumSHA256 (fr_Spec fleet_rollout)"
  using crd_objects_valid(2) is_hex_hex_EncodeToString[of fleet_image]
  by (simp_all add: API_Validation.valid_rollout_def valid_FleetRolloutSpec_def fleet_rollout_def matches_sha256_def) (simp add: fleet_image_def)

lemma fleet_awaits:
  "awaits demo_slots id fleet_env (d_Spec (lean_device tally_fmt ''7'' (target_device fleet_rollout demo_device))) fleet_image (initial_agent demo_world ())"
proof -
  have "partial_of fleet_image (staging_path fleet_env spec) demo_world" for spec
    by (simp add: partial_of_def staging_path_def fleet_env_def demo_env_def demo_world_def)
  moreover have "safe_up id demo_slots demo_world" using demo_world_ok(2,3) demo_world_safe by (auto simp: safe_up_def)
  moreover have "fits demo_slots id fleet_env" using demo_env_fits by (simp add: fits_def fleet_env_def)
  ultimately show ?thesis using demo_world_ok(1) by (simp add: awaits_def initial_agent_def NewFSM_def) (simp add: fleet_env_def demo_env_def)
qed

theorem rollout_reaches_device_witness:
  "\<exists>spec gen a1. poll fleet_env (initial_agent demo_world ()) = (Done (), a1) \<and> ag_running a1 = [(spec, gen, PAnnounce)] \<and>
    wpA (runUpgrade fleet_env spec) (\<lambda>r a'. r = None \<and> runs_image demo_slots ''B'' ''v2'' fleet_image (ag_world a')) (\<lambda>_. False) a1"
proof -
  let ?spec = "d_Spec (lean_device tally_fmt ''7'' (target_device fleet_rollout demo_device))" and ?a = "initial_agent demo_world ()"
  have p: "Parse server_flags [''--dir=fw''] server_defaults = Inr \<lparr>sf_dir = ''fw'', sf_addr = '':8000''\<rparr>"
    by (simp add: server_flags_def server_defaults_def StringVar_def Parse.simps parseOne_def parse_flag_def flag_body_def cut_equals_def lookup_flag_def set_flag_def)
  then have m: "firmware_main (\<lambda>s. [s]) (\<lambda>_. True) fleet_open (\<lambda>_. (200, [])) [''--dir=fw''] =
      Inr ('':8000'', FileServer [''fw''] fleet_open (\<lambda>_. (200, [])))" by (simp add: firmware_main_def)
  have n: "names_image ((\<lambda>s. [s]) (sf_dir \<lparr>sf_dir = ''fw'', sf_addr = '':8000''\<rparr>)) fleet_open ((\<lambda>_. ''/v2.bin'') (fs_FirmwareURL (fr_Spec fleet_rollout))) fleet_image"
    by (simp add: names_image_def HasPrefix_def HasSuffix_def rooted_Clean_def clean_step_def fleet_open_def)
  have e: "e_net fleet_env = remote (FileServer [''fw''] fleet_open (\<lambda>_. (200, []))) demo_link (\<lambda>_. ''/v2.bin'')" by (simp add: fleet_env_def)
  have l: "Suc 2 < 5" "demo_link 2 = Up" "demo_link (Suc 2) = Up" by (simp_all add: demo_link_def)
  have "demo_world\<lparr>tick := 0\<rparr> = demo_world" by (simp add: demo_world_def)
  then have v: "ActiveVersion (e_slots fleet_env) (ag_world ?a) = (Done ''factory'', demo_world\<lparr>tick := Suc (Suc 0)\<rparr>)"
    using demo_version[of 0] by (simp add: fleet_env_def demo_env_def initial_agent_def)
  have g: "Get (e_kube fleet_env) (e_http fleet_env) (ag_api ?a) = (Inr (lean_device tally_fmt ''7'' (target_device fleet_rollout demo_device)), ag_api ?a)"
    by (simp add: Get_def fleet_env_def)
  have h: "fs_TargetVersion (fr_Spec fleet_rollout) \<noteq> ''factory''" "\<not> es_RolloutPaused (ed_Spec demo_device)" "\<not> ag_upgrading ?a"
    "ag_lastFailedKey ?a \<noteq> fs_TargetVersion (fr_Spec fleet_rollout) @ ''|'' @ fs_ChecksumSHA256 (fr_Spec fleet_rollout)"
    by (simp_all add: fleet_rollout_def crd_rollout_def demo_rollout_def demo_device_def initial_agent_def)
  have t: "fs_TargetVersion (fr_Spec fleet_rollout) = ''v2''" "ag_running ?a = []" "other ''A'' = ''B''"
    by (simp_all add: fleet_rollout_def crd_rollout_def demo_rollout_def initial_agent_def other_def)
  have x: "active_of demo_slots (ag_world ?a) = Some ''A''" using demo_world_ok(2) by (simp add: initial_agent_def)
  from rollout_reaches_device[where path_of = "\<lambda>s. [s]", OF m p n e l fleet_rollout_valid refl fleet_awaits x v h g, of demo_libs]
  obtain gen a1 where a1: "poll fleet_env ?a = (Done (), a1)" "ag_running a1 = [(?spec, gen, PAnnounce)]"
    and u: "wpA (runUpgrade fleet_env ?spec) (\<lambda>r a'. r = None \<and> runs_image demo_slots ''B'' ''v2'' fleet_image (ag_world a') \<and>
      (\<exists>report. reported fleet_env report a' \<and> reports_success demo_libs demo_reconciler tally_time fleet_rollout (target_device fleet_rollout demo_device) report)) (\<lambda>_. False) a1"
    unfolding t by (force simp: demo_libs_def)
  have "wpA (runUpgrade fleet_env ?spec) (\<lambda>r a'. r = None \<and> runs_image demo_slots ''B'' ''v2'' fleet_image (ag_world a')) (\<lambda>_. False) a1"
    by (rule wpA_mono[OF u]) auto
  with a1 show ?thesis by blast
qed

end
